(* ===== verification/Ovs_Prelude.thy ===== *)
theory Ovs_Prelude
  imports Main "HOL-Library.Word" "HOL-Library.Multiset"
begin

text \<open>
  Shared vocabulary of the development: the C integer types the modelled files use, C
  arithmetic on \<open>int\<close> values (truncating division, two's complement narrowing), and the
  generic facts on lists and words that several components need.

  A \<open>size_t\<close> that counts allocated objects is a \<open>nat\<close>: it is bounded by the memory that
  holds the objects, so it cannot wrap.  Counters and identifiers whose width matters are
  machine words.
\<close>

unbundle bit_operations_syntax

named_theorems ovs_defs \<open>definitions that component proofs unfold\<close>

subsection \<open>Machine types\<close>

type_synonym uint8_t = "8 word"
type_synonym uint16_t = "16 word"
type_synonym uint32_t = "32 word"
type_synonym uint64_t = "64 word"

text \<open>Object addresses.\<close>
type_synonym addr = nat

subsection \<open>Assertions\<close>

text \<open>A failed \<open>ovs_assert\<close> aborts the process: the result \<open>None\<close>.\<close>

definition ovs_assert :: "bool \<Rightarrow> unit option" where
  "ovs_assert b = (if b then Some () else None)"

lemma ovs_assert_bind [simp]: "Option.bind (ovs_assert b) f = (if b then f () else None)"
  by (simp add: ovs_assert_def)

subsection \<open>C arithmetic on signed integers\<close>

text \<open>C division truncates towards zero.\<close>

definition c_div :: "int \<Rightarrow> int \<Rightarrow> int" where
  "c_div a b = sgn a * sgn b * (\<bar>a\<bar> div \<bar>b\<bar>)"

lemma c_div_nonneg: "0 \<le> a \<Longrightarrow> 0 < b \<Longrightarrow> c_div a b = a div b"
  by (cases "a = 0") (simp_all add: c_div_def)

text \<open>The value a 32-bit two's complement register holds for a mathematical result.\<close>

definition s32 :: "int \<Rightarrow> int" where
  "s32 x = signed_take_bit 31 x"

lemma s32_id: "- (2 ^ 31) \<le> x \<Longrightarrow> x < 2 ^ 31 \<Longrightarrow> s32 x = x"
  by (simp add: s32_def signed_take_bit_int_eq_self)

subsection \<open>Words and circular indices\<close>

lemma sint_small:
  fixes x :: "32 word"
  assumes "unat x < 2 ^ 31"
  shows "sint x = int (unat x)"
proof -
  have "int (unat x) < 2 ^ 31" using assms by (simp only: of_nat_less_numeral_power_cancel_iff)
  then have "uint x < 2 ^ 31" by (simp only: of_nat_unat)
  then have "signed_take_bit 31 (uint x) = uint x"
    using uint_ge_0[of x] by (intro signed_take_bit_int_eq_self) linarith+
  then show ?thesis by (simp add: sint_uint)
qed

lemma unat_and_pow2:
  fixes x :: "32 word"
  assumes "unat m = 2 ^ k" and "k < 32"
  shows "unat (x AND (m - 1)) = unat x mod unat m"
proof -
  have "m = of_nat (unat m)" by simp
  then have "m = 2 ^ k" using assms(1) by simp
  then have "m - 1 = mask k" by (simp add: mask_eq_exp_minus_1)
  then have "unat (x AND (m - 1)) = unat (take_bit k x)" by (simp add: take_bit_eq_mask)
  also have "\<dots> = take_bit k (unat x)" by (simp add: unsigned_take_bit_eq)
  also have "\<dots> = unat x mod 2 ^ k" by (simp add: take_bit_eq_mod)
  finally show ?thesis by (simp add: assms(1))
qed

lemma mod_offset_le:
  fixes t i j c :: nat
  assumes "(t + i) mod c = (t + j) mod c" and "i \<le> j" and "j < c"
  shows "i = j"
proof -
  have "c dvd (t + j) - (t + i)"
    using assms(1,2) mod_eq_dvd_iff_nat[of "t + i" "t + j" c] by simp
  then have "c dvd j - i" using assms(2) by simp
  then show ?thesis using assms(2,3) by (auto dest: dvd_imp_le)
qed

lemma mod_offset_inj:
  fixes t i j c :: nat
  assumes "(t + i) mod c = (t + j) mod c" and "i < c" and "j < c"
  shows "i = j"
  using mod_offset_le[of t i c j] mod_offset_le[of t j c i] assms by (cases "i \<le> j") auto

lemma mod_add_no_wrap:
  fixes x i c :: nat
  assumes "x mod c + i < c"
  shows "(x + i) mod c = x mod c + i"
  using assms by (metis mod_add_left_eq mod_less)

definition is_pow2 :: "uint64_t \<Rightarrow> bool" where
  "is_pow2 x \<longleftrightarrow> x \<noteq> 0 \<and> x AND (x - 1) = 0"

subsection \<open>Network byte order\<close>

text \<open>The bytes of a value in network byte order, and the value of such bytes.\<close>

definition be16_bytes :: "uint16_t \<Rightarrow> uint8_t list" where
  "be16_bytes x = [ucast (drop_bit 8 x), ucast x]"

definition be32_bytes :: "uint32_t \<Rightarrow> uint8_t list" where
  "be32_bytes x = map (\<lambda>k. ucast (drop_bit k x)) [24, 16, 8, 0]"

definition be64_bytes :: "uint64_t \<Rightarrow> uint8_t list" where
  "be64_bytes x = map (\<lambda>k. ucast (drop_bit k x)) [56, 48, 40, 32, 24, 16, 8, 0]"

definition be_value :: "uint8_t list \<Rightarrow> 'a::len word" where
  "be_value bs = foldl (\<lambda>x b. push_bit 8 x OR ucast b) 0 bs"

lemma length_be_bytes [simp]:
  "length (be16_bytes x) = 2" "length (be32_bytes y) = 4" "length (be64_bytes z) = 8"
  by (simp_all add: be16_bytes_def be32_bytes_def be64_bytes_def)

lemma be_value_step:
  fixes x :: "'a::len word"
  assumes "j = k + 8"
  shows "push_bit 8 (drop_bit j x) OR ucast (ucast (drop_bit k x) :: uint8_t) = drop_bit k x"
proof (rule bit_word_eqI)
  fix n assume n: "n < LENGTH('a)"
  show "bit (push_bit 8 (drop_bit j x) OR ucast (ucast (drop_bit k x) :: uint8_t)) n = bit (drop_bit k x) n"
  proof (cases "n < 8")
    case True
    then show ?thesis using n by (simp add: bit_simps)
  next
    case False
    then have "j + (n - 8) = k + n" using assms by simp
    then show ?thesis using n False by (simp add: bit_simps)
  qed
qed

lemma be_value_top:
  fixes x :: "'a::len word"
  assumes "LENGTH('a) \<le> k + 8"
  shows "ucast (ucast (drop_bit k x) :: uint8_t) = drop_bit k x"
proof (rule bit_word_eqI)
  fix n assume n: "n < LENGTH('a)"
  have "\<not> bit x (k + n)" if "8 \<le> n"
    using that assms impossible_bit[of "k + n" x] by simp
  then show "bit (ucast (ucast (drop_bit k x) :: uint8_t) :: 'a word) n = bit (drop_bit k x) n"
    using n by (cases "n < 8") (simp_all add: bit_simps)
qed

lemma be_value_be16 [simp]: "be_value (be16_bytes x) = x"
  using be_value_step[of 8 0 x] be_value_top[of 8 x] by (simp add: be_value_def be16_bytes_def)

lemma be_value_be32 [simp]: "be_value (be32_bytes x) = x"
  using be_value_step[of 8 0 x] be_value_step[of 16 8 x] be_value_step[of 24 16 x] be_value_top[of 24 x]
  by (simp add: be_value_def be32_bytes_def)

lemma be_value_be64 [simp]: "be_value (be64_bytes x) = x"
  using be_value_step[of 8 0 x] be_value_step[of 16 8 x] be_value_step[of 24 16 x] be_value_step[of 32 24 x]
    be_value_step[of 40 32 x] be_value_step[of 48 40 x] be_value_step[of 56 48 x] be_value_top[of 56 x]
  by (simp add: be_value_def be64_bytes_def)

subsection \<open>Operation sequences\<close>

text \<open>A sequence of calls; a call that aborts ends it with \<open>None\<close>.\<close>

primrec run_ops :: "('op \<Rightarrow> 's \<Rightarrow> 's option) \<Rightarrow> 'op list \<Rightarrow> 's \<Rightarrow> 's option" where
  "run_ops step [] s = Some s"
| "run_ops step (opn # ops) s = Option.bind (step opn s) (run_ops step ops)"

lemma run_ops_append: "run_ops step (xs @ ys) s = Option.bind (run_ops step xs s) (run_ops step ys)"
  by (induction xs arbitrary: s) (auto split: bind_splits)

text \<open>
  A component whose calls keep an invariant and never abort from it, and one whose calls moreover
  implement the steps of a specification on an abstract state.
\<close>

locale op_system =
  fixes step :: "'op \<Rightarrow> 's \<Rightarrow> 's option"
    and enabled :: "'op \<Rightarrow> bool"
    and inv :: "'s \<Rightarrow> bool"
  assumes step_inv: "inv s \<Longrightarrow> enabled opn \<Longrightarrow> \<exists>s'. step opn s = Some s' \<and> inv s'"
begin

lemma run_inv: "inv s \<Longrightarrow> list_all enabled ops \<Longrightarrow> \<exists>s'. run_ops step ops s = Some s' \<and> inv s'"
proof (induction ops arbitrary: s)
  case (Cons opn ops)
  then obtain s1 where "step opn s = Some s1" "inv s1" using step_inv by force
  then show ?case using Cons by simp
qed simp

end

locale op_refinement = op_system step enabled inv
  for step :: "'op \<Rightarrow> 's \<Rightarrow> 's option" and enabled inv +
  fixes abs_state :: "'s \<Rightarrow> 'a"
    and spec_step :: "'op \<Rightarrow> 'a \<Rightarrow> 'a"
  assumes step_abs: "inv s \<Longrightarrow> enabled opn \<Longrightarrow> step opn s = Some s' \<Longrightarrow>
    abs_state s' = spec_step opn (abs_state s)"
begin

lemma run_abs:
  "inv s \<Longrightarrow> list_all enabled ops \<Longrightarrow>
   \<exists>s'. run_ops step ops s = Some s' \<and> inv s' \<and> abs_state s' = fold spec_step ops (abs_state s)"
proof (induction ops arbitrary: s)
  case (Cons opn ops)
  then obtain s1 where s1: "step opn s = Some s1" "inv s1" using step_inv by force
  then have "abs_state s1 = spec_step opn (abs_state s)" using step_abs Cons.prems by simp
  then show ?case using Cons.IH[OF s1(2)] Cons.prems(2) s1 by simp
qed simp

end

end
