(* ===== verification/Byte_Queue.thy ===== *)
theory Byte_Queue
  imports Ovs_Prelude
begin

text \<open>
  The circular byte queue of \<open>lib/byteq.c\<close>: a power-of-two buffer indexed by two free-running
  32-bit counters.  Counters are machine words, so their wrap-around is part of the model; an
  \<open>ovs_assert\<close> that fails is the result \<open>None\<close>.  \<open>read\<close> and \<open>write\<close> are parameters that act on
  the state of the other end of the descriptor.
\<close>

subsection \<open>State\<close>

record byteq =
  bq_buffer :: "uint8_t list"
  bq_size :: uint32_t
  bq_head :: uint32_t
  bq_tail :: uint32_t

subsection \<open>Operations\<close>

definition byteq_init :: "uint8_t list \<Rightarrow> uint64_t \<Rightarrow> byteq option" where
  "byteq_init buffer sz =
     Option.bind (ovs_assert (is_pow2 sz)) (\<lambda>_.
       Some \<lparr>bq_buffer = buffer, bq_size = ucast sz, bq_head = 0, bq_tail = 0\<rparr>)"

text \<open>The C functions return \<open>int\<close>: the 32-bit difference read as a signed number.\<close>

definition byteq_used :: "byteq \<Rightarrow> int" where
  "byteq_used q = sint (bq_head q - bq_tail q)"

definition byteq_avail :: "byteq \<Rightarrow> int" where
  "byteq_avail q = sint (bq_size q - word_of_int (byteq_used q))"

definition byteq_is_empty :: "byteq \<Rightarrow> bool" where
  "byteq_is_empty q = (byteq_used q = 0)"

definition byteq_is_full :: "byteq \<Rightarrow> bool" where
  "byteq_is_full q = (byteq_avail q = 0)"

text \<open>\<open>byteq_tail\<close> and \<open>byteq_head\<close> return a pointer into the buffer: its index.\<close>

definition byteq_tail :: "byteq \<Rightarrow> nat" where
  "byteq_tail q = unat (bq_tail q AND (bq_size q - 1))"

definition byteq_head :: "byteq \<Rightarrow> nat" where
  "byteq_head q = unat (bq_head q AND (bq_size q - 1))"

definition byteq_tailroom :: "byteq \<Rightarrow> int" where
  "byteq_tailroom q =
     (let used = byteq_used q;
          tail_to_end = sint (bq_size q - (bq_tail q AND (bq_size q - 1)))
      in if used < tail_to_end then used else tail_to_end)"

definition byteq_headroom :: "byteq \<Rightarrow> int" where
  "byteq_headroom q =
     (let avail = byteq_avail q;
          head_to_end = sint (bq_size q - (bq_head q AND (bq_size q - 1)))
      in if avail < head_to_end then avail else head_to_end)"

text \<open>In \<open>byteq_tailroom(q) >= n\<close> the signed operand is converted to unsigned.\<close>

definition byteq_advance_tail :: "byteq \<Rightarrow> uint32_t \<Rightarrow> byteq option" where
  "byteq_advance_tail q n =
     Option.bind (ovs_assert (word_of_int (byteq_tailroom q) \<ge> n)) (\<lambda>_.
       Some (q\<lparr>bq_tail := bq_tail q + n\<rparr>))"

definition byteq_advance_head :: "byteq \<Rightarrow> uint32_t \<Rightarrow> byteq option" where
  "byteq_advance_head q n =
     Option.bind (ovs_assert (word_of_int (byteq_headroom q) \<ge> n)) (\<lambda>_.
       Some (q\<lparr>bq_head := bq_head q + n\<rparr>))"

definition byteq_put :: "byteq \<Rightarrow> uint8_t \<Rightarrow> byteq option" where
  "byteq_put q c =
     Option.bind (ovs_assert (\<not> byteq_is_full q)) (\<lambda>_.
       Some (q\<lparr>bq_buffer := (bq_buffer q)[byteq_head q := c], bq_head := bq_head q + 1\<rparr>))"

definition byteq_get :: "byteq \<Rightarrow> (uint8_t \<times> byteq) option" where
  "byteq_get q =
     Option.bind (ovs_assert (\<not> byteq_is_empty q)) (\<lambda>_.
       Some (bq_buffer q ! byteq_tail q, q\<lparr>bq_tail := bq_tail q + 1\<rparr>))"

text \<open>\<open>memcpy\<close> of \<open>bs\<close> to offset \<open>off\<close> of the buffer.\<close>

definition mem_write :: "'a list \<Rightarrow> nat \<Rightarrow> 'a list \<Rightarrow> 'a list" where
  "mem_write buf off bs = take off buf @ bs @ drop (off + length bs) buf"

text \<open>
  The loop of \<open>byteq_putn\<close>; \<open>p\<close> holds the \<open>n\<close> bytes still to be added.  \<open>None\<close> is an assertion
  failure or a loop that makes no progress.
\<close>

partial_function (option) byteq_putn_loop :: "byteq \<Rightarrow> uint8_t list \<Rightarrow> byteq option" where
  "byteq_putn_loop q p =
     (if length p > 0
      then let chunk = unat (min (of_nat (length p) :: uint64_t) (word_of_int (byteq_headroom q)));
               q' = q\<lparr>bq_buffer := mem_write (bq_buffer q) (byteq_head q) (take chunk p)\<rparr>
           in Option.bind (byteq_advance_head q' (of_nat chunk)) (\<lambda>q''.
                byteq_putn_loop q'' (drop chunk p))
      else Some q)"

definition byteq_putn :: "byteq \<Rightarrow> uint8_t list \<Rightarrow> byteq option" where
  "byteq_putn q p =
     Option.bind (ovs_assert ((word_of_int (byteq_avail q) :: uint64_t) \<ge> of_nat (length p))) (\<lambda>_.
       byteq_putn_loop q p)"

text \<open>\<open>byteq_put_string\<close>: the bytes of the C string before its null terminator.\<close>

definition byteq_put_string :: "byteq \<Rightarrow> uint8_t list \<Rightarrow> byteq option" where
  "byteq_put_string q s = byteq_putn q (takeWhile (\<lambda>c. c \<noteq> 0) s)"

definition byteq_fast_forward :: "byteq \<Rightarrow> byteq option" where
  "byteq_fast_forward q =
     Option.bind (ovs_assert (byteq_is_empty q)) (\<lambda>_.
       let pos = bq_head q AND (bq_size q - 1)
       in if pos \<noteq> 0
          then let h = bq_head q + (bq_size q - pos) in Some (q\<lparr>bq_head := h, bq_tail := h\<rparr>)
          else Some q)"

subsection \<open>Reading and writing descriptors\<close>

text \<open>
  \<open>write(fd, p, n)\<close> returns the number of bytes it accepted or fails with an errno;
  \<open>read(fd, p, n)\<close> returns bytes, end of file or an errno.
\<close>

datatype io_write = Wrote nat | WriteErr int
datatype io_read = Read "uint8_t list" | ReadErr int

definition EOF :: int where
  "EOF = -1"

partial_function (option) byteq_write ::
  "('w \<Rightarrow> uint8_t list \<Rightarrow> io_write \<times> 'w) \<Rightarrow> byteq \<Rightarrow> 'w \<Rightarrow> (int \<times> byteq \<times> 'w) option" where
  "byteq_write sys_write q w =
     (if \<not> byteq_is_empty q
      then let room = nat (byteq_tailroom q);
               (r, w') = sys_write w (take room (drop (byteq_tail q) (bq_buffer q)))
           in (case r of
                 Wrote n \<Rightarrow>
                   if n > 0
                   then Option.bind (byteq_advance_tail q (of_nat n)) (\<lambda>q'.
                          byteq_write sys_write q' w')
                   else None
               | WriteErr e \<Rightarrow> Some (e, q, w'))
      else Some (0, q, w))"

partial_function (option) byteq_read ::
  "('w \<Rightarrow> nat \<Rightarrow> io_read \<times> 'w) \<Rightarrow> byteq \<Rightarrow> 'w \<Rightarrow> (int \<times> byteq \<times> 'w) option" where
  "byteq_read sys_read q w =
     (if \<not> byteq_is_full q
      then let room = nat (byteq_headroom q);
               (r, w') = sys_read w room
           in (case r of
                 Read bs \<Rightarrow>
                   if length bs > 0
                   then Option.bind
                          (byteq_advance_head
                             (q\<lparr>bq_buffer := mem_write (bq_buffer q) (byteq_head q) bs\<rparr>)
                             (of_nat (length bs)))
                          (\<lambda>q'. byteq_read sys_read q' w')
                   else Some (EOF, q, w')
               | ReadErr e \<Rightarrow> Some (e, q, w'))
      else Some (0, q, w))"

subsection \<open>Invariant and contents\<close>

definition bq_cap :: "byteq \<Rightarrow> nat" where
  "bq_cap q = unat (bq_size q)"

definition bq_len :: "byteq \<Rightarrow> nat" where
  "bq_len q = unat (bq_head q - bq_tail q)"

text \<open>
  The buffer has the announced size, a power of two of at most \<open>2 ^ 30\<close> bytes, so that sizes
  and counts are representable in the \<open>int\<close> results, and no more bytes are queued than fit.
\<close>

definition byteq_wf :: "byteq \<Rightarrow> bool" where
  "byteq_wf q \<longleftrightarrow> (\<exists>k \<le> 30. bq_cap q = 2 ^ k) \<and> length (bq_buffer q) = bq_cap q \<and> bq_len q \<le> bq_cap q"

text \<open>Buffer index of the \<open>i\<close>-th queued byte, and the queued bytes from tail to head.\<close>

definition bq_slot :: "byteq \<Rightarrow> nat \<Rightarrow> nat" where
  "bq_slot q i = (unat (bq_tail q) + i) mod bq_cap q"

definition byteq_contents :: "byteq \<Rightarrow> uint8_t list" where
  "byteq_contents q = map (\<lambda>i. bq_buffer q ! bq_slot q i) [0..<bq_len q]"

lemma length_byteq_contents [simp]: "length (byteq_contents q) = bq_len q"
  by (simp add: byteq_contents_def)

lemma byteq_wf_pow2:
  assumes "byteq_wf q"
  obtains k where "unat (bq_size q) = 2 ^ k" and "k < 31"
  using assms by (auto simp: byteq_wf_def bq_cap_def)

lemma byteq_wf_bounds:
  assumes "byteq_wf q"
  shows "0 < bq_cap q" and "bq_cap q \<le> 2 ^ 30" and "bq_len q \<le> bq_cap q"
    and "length (bq_buffer q) = bq_cap q" and "bq_cap q dvd 2 ^ 32"
proof -
  obtain k where k: "bq_cap q = 2 ^ k" "k < 31"
    using byteq_wf_pow2[OF assms] by (auto simp: bq_cap_def)
  have "(2::nat) ^ k \<le> 2 ^ 30" using k(2) by (intro power_increasing) auto
  then show "bq_cap q \<le> 2 ^ 30" using k(1) by simp
  show "0 < bq_cap q" using k(1) by simp
  have "(2::nat) ^ k dvd 2 ^ 32" using k(2) by (intro le_imp_power_dvd) simp
  then show "bq_cap q dvd 2 ^ 32" by (simp only: k(1))
qed (use assms in \<open>auto simp: byteq_wf_def\<close>)

lemma byteq_used_eq:
  assumes "byteq_wf q"
  shows "byteq_used q = int (bq_len q)"
  using byteq_wf_bounds[OF assms] unfolding byteq_used_def bq_len_def by (intro sint_small) simp

lemma unat_size_minus:
  assumes "byteq_wf q" and "unat n = u" and "u \<le> bq_cap q"
  shows "sint (bq_size q - n) = int (bq_cap q - u)"
proof -
  have "n \<le> bq_size q" using assms(2,3) by (simp add: bq_cap_def word_le_nat_alt)
  then have "unat (bq_size q - n) = bq_cap q - u" using assms(2) by (simp add: unat_sub bq_cap_def)
  then show ?thesis
    using sint_small[of "bq_size q - n"] byteq_wf_bounds(2)[OF assms(1)] by simp
qed

lemma byteq_avail_eq:
  assumes "byteq_wf q"
  shows "byteq_avail q = int (bq_cap q - bq_len q)"
proof -
  have "word_of_int (byteq_used q) = bq_head q - bq_tail q" by (simp add: byteq_used_def)
  then show ?thesis
    using unat_size_minus[OF assms _ byteq_wf_bounds(3)[OF assms]]
    by (simp add: byteq_avail_def bq_len_def)
qed

lemma byteq_tail_eq:
  assumes "byteq_wf q"
  shows "byteq_tail q = unat (bq_tail q) mod bq_cap q"
proof -
  obtain k where "unat (bq_size q) = 2 ^ k" "k < 31" by (rule byteq_wf_pow2[OF assms])
  then show ?thesis
    using unat_and_pow2[of "bq_size q" k "bq_tail q"] by (simp add: byteq_tail_def bq_cap_def)
qed

lemma unat_head:
  "unat (bq_head q) = (unat (bq_tail q) + bq_len q) mod 2 ^ 32"
proof -
  have "unat (bq_tail q + (bq_head q - bq_tail q)) = (unat (bq_tail q) + bq_len q) mod 2 ^ 32"
    unfolding bq_len_def by (subst unat_word_ariths(1)) simp
  then show ?thesis by simp
qed

lemma byteq_head_eq:
  assumes "byteq_wf q"
  shows "byteq_head q = bq_slot q (bq_len q)"
proof -
  obtain k where "unat (bq_size q) = 2 ^ k" "k < 31" by (rule byteq_wf_pow2[OF assms])
  then have "byteq_head q = unat (bq_head q) mod bq_cap q"
    using unat_and_pow2[of "bq_size q" k "bq_head q"] by (simp add: byteq_head_def bq_cap_def)
  then show ?thesis
    using byteq_wf_bounds(5)[OF assms] by (simp only: unat_head bq_slot_def mod_mod_cancel)
qed

lemma bq_slot_bound: "byteq_wf q \<Longrightarrow> bq_slot q i < bq_cap q"
  using byteq_wf_bounds(1) by (simp add: bq_slot_def)

lemma byteq_tail_slot: "byteq_wf q \<Longrightarrow> byteq_tail q = bq_slot q 0"
  by (simp add: byteq_tail_eq bq_slot_def)

lemma bq_slot_inj: "byteq_wf q \<Longrightarrow> i < bq_cap q \<Longrightarrow> j < bq_cap q \<Longrightarrow> bq_slot q i = bq_slot q j \<longleftrightarrow> i = j"
  unfolding bq_slot_def using mod_offset_inj by blast

lemma bq_slot_add: "bq_slot q i + j < bq_cap q \<Longrightarrow> bq_slot q (i + j) = bq_slot q i + j"
  unfolding bq_slot_def using mod_add_no_wrap by (simp add: add.assoc[symmetric])

lemma byteq_tailroom_eq:
  assumes "byteq_wf q"
  shows "byteq_tailroom q = int (min (bq_len q) (bq_cap q - byteq_tail q))"
proof -
  have "byteq_tail q \<le> bq_cap q"
    using bq_slot_bound[OF assms, of 0] byteq_tail_slot[OF assms] by simp
  from unat_size_minus[OF assms byteq_tail_def[symmetric] this] show ?thesis
    by (simp add: byteq_tailroom_def byteq_used_eq[OF assms] Let_def min_def)
qed

lemma byteq_headroom_eq:
  assumes "byteq_wf q"
  shows "byteq_headroom q = int (min (bq_cap q - bq_len q) (bq_cap q - byteq_head q))"
proof -
  have "byteq_head q \<le> bq_cap q"
    using bq_slot_bound[OF assms, of "bq_len q"] byteq_head_eq[OF assms] by simp
  from unat_size_minus[OF assms byteq_head_def[symmetric] this] show ?thesis
    by (simp add: byteq_headroom_def byteq_avail_eq[OF assms] Let_def min_def)
qed

subsection \<open>Adding at the head, removing at the tail\<close>

lemma bq_len_advance_head:
  assumes "byteq_wf q" and "bq_len q + m \<le> bq_cap q"
  shows "bq_len (q\<lparr>bq_buffer := b, bq_head := bq_head q + of_nat m\<rparr>) = bq_len q + m"
proof -
  have b: "bq_len q + m < 2 ^ 32" using assms byteq_wf_bounds(2)[OF assms(1)] by simp
  have "bq_head q + of_nat m - bq_tail q = (bq_head q - bq_tail q) + of_nat m"
    by (simp add: algebra_simps)
  then have "unat (bq_head q + of_nat m - bq_tail q) = unat ((bq_head q - bq_tail q) + of_nat m)"
    by (simp only:)
  also have "\<dots> = (bq_len q + m) mod 2 ^ 32"
    unfolding bq_len_def by (subst unat_word_ariths(1)) (simp add: unat_of_nat mod_add_right_eq)
  finally show ?thesis using b by (simp add: bq_len_def)
qed

text \<open>
  Bytes written to the slots behind the queued ones, followed by an advance of the head, are
  appended to the contents.
\<close>

lemma byteq_append:
  assumes wf: "byteq_wf q" and fit: "bq_len q + length bs \<le> bq_cap q" and len: "length b = bq_cap q"
    and old: "\<And>i. i < bq_len q \<Longrightarrow> b ! bq_slot q i = bq_buffer q ! bq_slot q i"
    and new: "\<And>i. i < length bs \<Longrightarrow> b ! bq_slot q (bq_len q + i) = bs ! i"
  defines "q' \<equiv> q\<lparr>bq_buffer := b, bq_head := bq_head q + of_nat (length bs)\<rparr>"
  shows "byteq_wf q'" and "byteq_contents q' = byteq_contents q @ bs" and "bq_cap q' = bq_cap q"
proof -
  have l: "bq_len q' = bq_len q + length bs"
    unfolding q'_def by (rule bq_len_advance_head[OF wf fit])
  show c: "bq_cap q' = bq_cap q" by (simp add: q'_def bq_cap_def)
  show "byteq_wf q'" using wf fit len l c by (simp add: byteq_wf_def q'_def)
  have sl: "bq_slot q' = bq_slot q" by (simp add: q'_def bq_slot_def bq_cap_def fun_eq_iff)
  have bb: "bq_buffer q' = b" by (simp add: q'_def)
  show "byteq_contents q' = byteq_contents q @ bs"
  proof (rule nth_equalityI)
    show "length (byteq_contents q') = length (byteq_contents q @ bs)" by (simp add: l)
    fix i assume "i < length (byteq_contents q')"
    then have i: "i < bq_len q + length bs" by (simp add: l)
    then show "byteq_contents q' ! i = (byteq_contents q @ bs) ! i"
      using old[of i] new[of "i - bq_len q"]
      by (auto simp: byteq_contents_def l sl bb nth_append)
  qed
qed

lemma byteq_drop:
  assumes wf: "byteq_wf q" and m: "m \<le> bq_len q"
  defines "q' \<equiv> q\<lparr>bq_tail := bq_tail q + of_nat m\<rparr>"
  shows "byteq_wf q'" and "byteq_contents q' = drop m (byteq_contents q)"
    and "bq_len q' = bq_len q - m" and "bq_cap q' = bq_cap q"
proof -
  have b: "m < 2 ^ 32" using m byteq_wf_bounds(2,3)[OF wf] by simp
  have "(of_nat m :: 32 word) \<le> bq_head q - bq_tail q"
    using m b by (simp add: word_le_nat_alt unat_of_nat bq_len_def)
  then have "unat (bq_head q - bq_tail q - of_nat m) = bq_len q - m"
    using b by (subst unat_sub) (simp_all add: unat_of_nat bq_len_def)
  then have "unat (bq_head q - (bq_tail q + of_nat m)) = bq_len q - m"
    by (simp only: diff_diff_eq)
  then show l: "bq_len q' = bq_len q - m" by (simp add: bq_len_def q'_def)
  show c: "bq_cap q' = bq_cap q" by (simp add: q'_def bq_cap_def)
  show "byteq_wf q'" using wf l c by (auto simp: byteq_wf_def q'_def)
  have t: "unat (bq_tail q') = (unat (bq_tail q) + m) mod 2 ^ 32"
    unfolding q'_def by (simp, subst unat_word_ariths(1)) (simp add: unat_of_nat mod_add_right_eq)
  have "bq_slot q' i = bq_slot q (m + i)" for i
  proof -
    have "bq_slot q' i = ((unat (bq_tail q) + m) mod 2 ^ 32 mod bq_cap q + i) mod bq_cap q"
      by (simp only: bq_slot_def t c mod_add_left_eq)
    also have "\<dots> = (unat (bq_tail q) + m + i) mod bq_cap q"
      by (simp only: mod_mod_cancel[OF byteq_wf_bounds(5)[OF wf]] mod_add_left_eq)
    finally show ?thesis by (simp only: bq_slot_def add.assoc)
  qed
  then show "byteq_contents q' = drop m (byteq_contents q)"
    using m l by (intro nth_equalityI) (auto simp: byteq_contents_def q'_def)
qed

subsection \<open>The operations on contents\<close>

lemma byteq_is_empty_iff: "byteq_wf q \<Longrightarrow> byteq_is_empty q \<longleftrightarrow> byteq_contents q = []"
  by (simp add: byteq_is_empty_def byteq_used_eq flip: length_0_conv)

lemma byteq_is_full_iff: "byteq_wf q \<Longrightarrow> byteq_is_full q \<longleftrightarrow> length (byteq_contents q) = bq_cap q"
  using byteq_wf_bounds(3) by (force simp: byteq_is_full_def byteq_avail_eq)

lemma byteq_put_correct:
  assumes wf: "byteq_wf q" and room: "bq_len q < bq_cap q"
  obtains q' where "byteq_put q c = Some q'" and "byteq_wf q'" and "bq_cap q' = bq_cap q"
    and "byteq_contents q' = byteq_contents q @ [c]"
proof -
  let ?b = "(bq_buffer q)[byteq_head q := c]"
  have hd: "byteq_head q < bq_cap q" using bq_slot_bound[OF wf] byteq_head_eq[OF wf] by simp
  have "?b ! bq_slot q i = bq_buffer q ! bq_slot q i" if "i < bq_len q" for i
    using bq_slot_inj[OF wf, of i "bq_len q"] that room byteq_head_eq[OF wf] by simp
  moreover have "?b ! bq_slot q (bq_len q + i) = [c] ! i" if "i < length [c]" for i
    using that hd byteq_head_eq[OF wf] byteq_wf_bounds(4)[OF wf] by simp
  ultimately have "byteq_wf (q\<lparr>bq_buffer := ?b, bq_head := bq_head q + of_nat (length [c])\<rparr>)"
    "byteq_contents (q\<lparr>bq_buffer := ?b, bq_head := bq_head q + of_nat (length [c])\<rparr>) = byteq_contents q @ [c]"
    "bq_cap (q\<lparr>bq_buffer := ?b, bq_head := bq_head q + of_nat (length [c])\<rparr>) = bq_cap q"
    using byteq_append[OF wf, of "[c]" ?b] room byteq_wf_bounds(4)[OF wf] by auto
  moreover have "\<not> byteq_is_full q" using byteq_is_full_iff[OF wf] room by simp
  ultimately show ?thesis using that by (simp add: byteq_put_def)
qed

lemma byteq_get_correct:
  assumes wf: "byteq_wf q" and ne: "byteq_contents q \<noteq> []"
  obtains q' where "byteq_get q = Some (hd (byteq_contents q), q')" and "byteq_wf q'"
    and "bq_cap q' = bq_cap q" and "byteq_contents q' = tl (byteq_contents q)"
proof -
  have l: "1 \<le> bq_len q" using ne by (cases "bq_len q") (auto simp: byteq_contents_def)
  have "hd (byteq_contents q) = bq_buffer q ! byteq_tail q"
    using l byteq_tail_slot[OF wf] by (simp add: byteq_contents_def upt_rec)
  moreover have "\<not> byteq_is_empty q" using byteq_is_empty_iff[OF wf] ne by simp
  ultimately show ?thesis
    using that byteq_drop[OF wf l] by (simp add: byteq_get_def drop_Suc)
qed

lemma nth_mem_write:
  assumes "off + length bs \<le> length buf" and "j < length buf"
  shows "mem_write buf off bs ! j =
    (if off \<le> j \<and> j < off + length bs then bs ! (j - off) else buf ! j)"
  using assms by (auto simp: mem_write_def nth_append min_def)

lemma length_mem_write: "off + length bs \<le> length buf \<Longrightarrow> length (mem_write buf off bs) = length buf"
  by (simp add: mem_write_def)

text \<open>Copying up to \<open>byteq_headroom\<close> bytes to the head and advancing it appends them.\<close>

lemma byteq_chunk_append:
  assumes wf: "byteq_wf q" and room: "int (length bs) \<le> byteq_headroom q"
  defines "q1 \<equiv> q\<lparr>bq_buffer := mem_write (bq_buffer q) (byteq_head q) bs\<rparr>"
  obtains q' where "byteq_advance_head q1 (of_nat (length bs)) = Some q'" and "byteq_wf q'"
    and "bq_cap q' = bq_cap q" and "byteq_contents q' = byteq_contents q @ bs"
proof -
  let ?n = "length bs" and ?b = "mem_write (bq_buffer q) (byteq_head q) bs"
  have n: "bq_len q + ?n \<le> bq_cap q" "byteq_head q + ?n \<le> bq_cap q"
    using room byteq_headroom_eq[OF wf] byteq_wf_bounds(3)[OF wf]
      bq_slot_bound[OF wf, of "bq_len q"] byteq_head_eq[OF wf] by auto
  have lb: "byteq_head q + ?n \<le> length (bq_buffer q)" using n(2) byteq_wf_bounds(4)[OF wf] by simp
  have slot: "bq_slot q (bq_len q + i) = byteq_head q + i" if "i < ?n" for i
    using bq_slot_add[of q "bq_len q" i] byteq_head_eq[OF wf] that n(2) by simp
  have old: "?b ! bq_slot q i = bq_buffer q ! bq_slot q i" if i: "i < bq_len q" for i
  proof -
    have "bq_slot q i \<noteq> byteq_head q + j" if "j < ?n" for j
      using slot[OF that] bq_slot_inj[OF wf, of i "bq_len q + j"] i that n(1) by auto
    then have "\<not> (byteq_head q \<le> bq_slot q i \<and> bq_slot q i < byteq_head q + ?n)"
      by (metis add_less_cancel_left le_add_diff_inverse)
    moreover have "bq_slot q i < length (bq_buffer q)"
      using bq_slot_bound[OF wf] byteq_wf_bounds(4)[OF wf] by simp
    ultimately show ?thesis by (subst nth_mem_write[OF lb]) auto
  qed
  have new: "?b ! bq_slot q (bq_len q + i) = bs ! i" if "i < ?n" for i
    using slot[OF that] that lb by (simp add: nth_mem_write[OF lb])
  have len: "length ?b = bq_cap q" using length_mem_write[OF lb] byteq_wf_bounds(4)[OF wf] by simp
  note app = byteq_append[OF wf n(1) len old new]
  have small: "?n < 2 ^ 32" using n byteq_wf_bounds(2)[OF wf] by simp
  have hr: "byteq_headroom q1 = byteq_headroom q"
    by (simp add: q1_def byteq_headroom_def byteq_avail_def byteq_used_def)
  have "(of_nat ?n :: 32 word) \<le> word_of_int (byteq_headroom q)"
  proof -
    define m where "m = min (bq_cap q - bq_len q) (bq_cap q - byteq_head q)"
    have "byteq_headroom q = int m" "m < 2 ^ 32" "?n \<le> m"
      using byteq_headroom_eq[OF wf] byteq_wf_bounds(2)[OF wf] room by (auto simp: m_def)
    then show ?thesis using small by (simp add: word_le_nat_alt unat_of_nat)
  qed
  then have "byteq_advance_head q1 (of_nat ?n) =
      Some (q\<lparr>bq_buffer := ?b, bq_head := bq_head q + of_nat ?n\<rparr>)"
    by (simp add: byteq_advance_head_def hr) (simp add: q1_def)
  then show ?thesis using that app by blast
qed

lemma byteq_headroom_pos:
  assumes "byteq_wf q" and "bq_len q < bq_cap q"
  shows "0 < byteq_headroom q"
  using byteq_headroom_eq[OF assms(1)] assms(2) bq_slot_bound[OF assms(1), of "bq_len q"]
    byteq_head_eq[OF assms(1)] by simp

lemma byteq_headroom_bounds:
  assumes "byteq_wf q"
  shows "0 \<le> byteq_headroom q" and "byteq_headroom q \<le> 2 ^ 30"
  using byteq_headroom_eq[OF assms] byteq_wf_bounds(2)[OF assms] by auto

lemma byteq_putn_loop_correct:
  "byteq_wf q \<Longrightarrow> bq_len q + length p \<le> bq_cap q \<Longrightarrow>
   \<exists>q'. byteq_putn_loop q p = Some q' \<and> byteq_wf q' \<and> bq_cap q' = bq_cap q \<and>
     byteq_contents q' = byteq_contents q @ p"
proof (induction "length p" arbitrary: q p rule: less_induct)
  case less
  note wf = less.prems(1)
  show ?case
  proof (cases "p = []")
    case True
    then show ?thesis using wf by (subst byteq_putn_loop.simps) simp
  next
    case False
    define m where "m = nat (byteq_headroom q)"
    have "bq_len q < bq_cap q" using less.prems(2) False by (cases p) auto
    then have m: "byteq_headroom q = int m" "0 < m" "m \<le> 2 ^ 30"
      using byteq_headroom_pos[OF wf] byteq_headroom_bounds[OF wf] by (auto simp: m_def)
    have pl: "length p \<le> 2 ^ 30" using less.prems(2) byteq_wf_bounds(2)[OF wf] by simp
    define chunk where "chunk = min (length p) m"
    have ch: "unat (min (of_nat (length p) :: uint64_t) (word_of_int (byteq_headroom q))) = chunk"
      using m pl by (simp add: chunk_def min_def word_le_nat_alt unat_of_nat)
    have tk: "length (take chunk p) = chunk" "int (length (take chunk p)) \<le> byteq_headroom q"
      using m(1) by (auto simp: chunk_def)
    obtain q1 where q1: "byteq_advance_head
        (q\<lparr>bq_buffer := mem_write (bq_buffer q) (byteq_head q) (take chunk p)\<rparr>) (of_nat chunk) = Some q1"
      "byteq_wf q1" "bq_cap q1 = bq_cap q" "byteq_contents q1 = byteq_contents q @ take chunk p"
      using byteq_chunk_append[OF wf tk(2)] tk(1) by metis
    have "bq_len q1 = bq_len q + chunk"
      using arg_cong[OF q1(4), of length] tk(1) by simp
    then have "bq_len q1 + length (drop chunk p) \<le> bq_cap q1"
      using less.prems(2) q1(3) by (simp add: chunk_def)
    moreover have "length (drop chunk p) < length p"
      using m(2) False by (simp add: chunk_def)
    ultimately obtain q2 where "byteq_putn_loop q1 (drop chunk p) = Some q2" "byteq_wf q2"
      "bq_cap q2 = bq_cap q1" "byteq_contents q2 = byteq_contents q1 @ drop chunk p"
      using less.hyps[OF _ q1(2)] by blast
    then show ?thesis
      using q1 False by (subst byteq_putn_loop.simps) (simp add: ch Let_def)
  qed
qed

lemma byteq_putn_correct:
  assumes wf: "byteq_wf q" and fit: "bq_len q + length p \<le> bq_cap q"
  obtains q' where "byteq_putn q p = Some q'" and "byteq_wf q'" and "bq_cap q' = bq_cap q"
    and "byteq_contents q' = byteq_contents q @ p"
proof -
  define m where "m = bq_cap q - bq_len q"
  have "byteq_avail q = int m" "m \<le> 2 ^ 30" "length p \<le> m"
    using fit byteq_wf_bounds(2)[OF wf] byteq_avail_eq[OF wf] by (auto simp: m_def)
  then have "(of_nat (length p) :: uint64_t) \<le> word_of_int (byteq_avail q)"
    by (simp add: word_le_nat_alt unat_of_nat)
  then have "byteq_putn q p = byteq_putn_loop q p" by (simp add: byteq_putn_def)
  then show ?thesis using that byteq_putn_loop_correct[OF wf fit] by metis
qed

lemma byteq_advance_tail_correct:
  assumes wf: "byteq_wf q" and n: "int n \<le> byteq_tailroom q"
  obtains q' where "byteq_advance_tail q (of_nat n) = Some q'" and "byteq_wf q'"
    and "bq_cap q' = bq_cap q" and "byteq_contents q' = drop n (byteq_contents q)"
    and "bq_len q' = bq_len q - n"
proof -
  have le: "n \<le> bq_len q" "n < 2 ^ 32" and b: "byteq_tailroom q \<le> 2 ^ 30"
    using n byteq_tailroom_eq[OF wf] byteq_wf_bounds(2,3)[OF wf] by auto
  define m where "m = min (bq_len q) (bq_cap q - byteq_tail q)"
  have "byteq_tailroom q = int m" "m < 2 ^ 32" "n \<le> m"
    using byteq_tailroom_eq[OF wf] b n by (auto simp: m_def)
  then have "(of_nat n :: 32 word) \<le> word_of_int (byteq_tailroom q)"
    using le by (simp add: word_le_nat_alt unat_of_nat)
  then show ?thesis using that byteq_drop[OF wf le(1)] by (simp add: byteq_advance_tail_def)
qed

text \<open>The contiguous run of \<open>byteq_tailroom\<close> bytes at the tail is a prefix of the contents.\<close>

lemma byteq_tail_run:
  assumes wf: "byteq_wf q"
  shows "take (nat (byteq_tailroom q)) (drop (byteq_tail q) (bq_buffer q)) =
    take (nat (byteq_tailroom q)) (byteq_contents q)"
proof -
  define m where "m = min (bq_len q) (bq_cap q - byteq_tail q)"
  have tb: "byteq_tail q < bq_cap q" using byteq_tail_slot[OF wf] bq_slot_bound[OF wf] by simp
  have "bq_buffer q ! (byteq_tail q + i) = bq_buffer q ! bq_slot q i" if "i < m" for i
  proof -
    have "i < bq_cap q - byteq_tail q" using that by (simp add: m_def)
    then have "bq_slot q 0 + i < bq_cap q" using byteq_tail_slot[OF wf] by linarith
    then show ?thesis using bq_slot_add[of q 0 i] byteq_tail_slot[OF wf] by simp
  qed
  then have "take m (drop (byteq_tail q) (bq_buffer q)) = take m (byteq_contents q)"
    using byteq_wf_bounds(4)[OF wf] tb
    by (intro nth_equalityI) (auto simp: byteq_contents_def m_def)
  then show ?thesis using byteq_tailroom_eq[OF wf] by (simp add: m_def)
qed

lemma byteq_tailroom_pos:
  assumes "byteq_wf q" and "byteq_contents q \<noteq> []"
  shows "0 < byteq_tailroom q"
proof -
  have "0 < bq_len q" using assms(2) by (cases "bq_len q") (auto simp: byteq_contents_def)
  then show ?thesis
    using byteq_tailroom_eq[OF assms(1)] bq_slot_bound[OF assms(1), of 0] byteq_tail_slot[OF assms(1)]
    by simp
qed

lemma byteq_fast_forward_correct:
  assumes wf: "byteq_wf q" and em: "byteq_contents q = []"
  obtains q' where "byteq_fast_forward q = Some q'" and "byteq_wf q'" and "byteq_contents q' = []"
    and "bq_cap q' = bq_cap q" and "byteq_headroom q' = int (bq_cap q)"
proof -
  let ?pos = "bq_head q AND (bq_size q - 1)"
  let ?h = "bq_head q + (bq_size q - ?pos)"
  define q' where "q' = (if ?pos \<noteq> 0 then q\<lparr>bq_head := ?h, bq_tail := ?h\<rparr> else q)"
  have ff: "byteq_fast_forward q = Some q'"
    using byteq_is_empty_iff[OF wf] em by (simp add: byteq_fast_forward_def q'_def Let_def)
  have l0: "bq_len q = 0" using em by (simp flip: length_byteq_contents)
  have l: "bq_len q' = 0" and c: "bq_cap q' = bq_cap q" and b: "bq_buffer q' = bq_buffer q"
    and sz: "bq_size q' = bq_size q"
    using l0 by (auto simp: q'_def bq_len_def bq_cap_def)
  have wf': "byteq_wf q'" using wf l c b by (simp add: byteq_wf_def)
  have "bq_head q' AND (bq_size q - 1) = 0"
  proof (cases "?pos = 0")
    case False
    obtain k where k: "unat (bq_size q) = 2 ^ k" "k < 31" by (rule byteq_wf_pow2[OF wf])
    have "unat (bq_head q) mod bq_cap q = unat ?pos"
      using unat_and_pow2[OF k(1)] k(2) by (simp add: bq_cap_def)
    have ps: "unat ?pos < bq_cap q"
      using bq_slot_bound[OF wf] byteq_head_eq[OF wf] by (simp add: byteq_head_def)
    then have le: "?pos \<le> bq_size q" by (simp add: bq_cap_def word_le_nat_alt)
    have "unat ?h = (unat (bq_head q) + (bq_cap q - unat ?pos)) mod 2 ^ 32"
      using le by (subst unat_word_ariths(1)) (simp add: unat_sub bq_cap_def)
    then have "unat ?h mod bq_cap q = (unat (bq_head q) + (bq_cap q - unat ?pos)) mod bq_cap q"
      by (simp only: mod_mod_cancel[OF byteq_wf_bounds(5)[OF wf]])
    also have "\<dots> = (unat (bq_head q) mod bq_cap q + (bq_cap q - unat ?pos)) mod bq_cap q"
      by (simp only: mod_add_left_eq)
    also have "\<dots> = 0" using ps \<open>unat (bq_head q) mod bq_cap q = unat ?pos\<close> by simp
    finally have "unat (?h AND (bq_size q - 1)) = 0"
      using unat_and_pow2[OF k(1), of ?h] k(2) by (simp add: bq_cap_def)
    then show ?thesis using False by (simp add: q'_def unat_eq_0)
  qed (simp add: q'_def)
  then have "byteq_head q' = 0" by (simp add: byteq_head_def sz)
  then have "byteq_headroom q' = int (bq_cap q)" using byteq_headroom_eq[OF wf'] l c by simp
  moreover have "byteq_contents q' = []" by (simp add: byteq_contents_def l)
  ultimately show ?thesis using that ff wf' c by blast
qed

subsection \<open>Descriptors\<close>

text \<open>
  What is documented of \<open>write\<close> on a non-empty request and of \<open>read\<close>: \<open>sent w\<close> are the bytes
  the other end has accepted so far, \<open>got w\<close> the bytes it has delivered so far.
\<close>

definition write_ok :: "('w \<Rightarrow> uint8_t list) \<Rightarrow> ('w \<Rightarrow> uint8_t list \<Rightarrow> io_write \<times> 'w) \<Rightarrow> bool" where
  "write_ok sent sys_write \<longleftrightarrow> (\<forall>w bs r w'. bs \<noteq> [] \<longrightarrow> sys_write w bs = (r, w') \<longrightarrow>
     (case r of Wrote n \<Rightarrow> 0 < n \<and> n \<le> length bs \<and> sent w' = sent w @ take n bs
      | WriteErr e \<Rightarrow> 0 < e \<and> sent w' = sent w))"

definition read_ok :: "('w \<Rightarrow> uint8_t list) \<Rightarrow> ('w \<Rightarrow> nat \<Rightarrow> io_read \<times> 'w) \<Rightarrow> bool" where
  "read_ok got sys_read \<longleftrightarrow> (\<forall>w n r w'. sys_read w n = (r, w') \<longrightarrow>
     (case r of Read bs \<Rightarrow> length bs \<le> n \<and> got w' = got w @ bs
      | ReadErr e \<Rightarrow> 0 < e \<and> got w' = got w))"

lemma byteq_write_correct:
  assumes ok: "write_ok sent sys_write"
  shows "byteq_wf q \<Longrightarrow> \<exists>r q' w'. byteq_write sys_write q w = Some (r, q', w') \<and> byteq_wf q' \<and>
    sent w' @ byteq_contents q' = sent w @ byteq_contents q \<and> (r = 0 \<longleftrightarrow> byteq_contents q' = [])"
proof (induction "bq_len q" arbitrary: q w rule: less_induct)
  case less
  note wf = less.prems
  show ?case
  proof (cases "byteq_contents q = []")
    case True
    then show ?thesis using wf byteq_is_empty_iff by (subst byteq_write.simps) simp
  next
    case False
    let ?m = "nat (byteq_tailroom q)"
    let ?req = "take ?m (drop (byteq_tail q) (bq_buffer q))"
    have ne: "\<not> byteq_is_empty q" using False byteq_is_empty_iff[OF wf] by simp
    have req: "?req = take ?m (byteq_contents q)" by (rule byteq_tail_run[OF wf])
    have "0 < ?m" using byteq_tailroom_pos[OF wf False] by simp
    then have rne: "?req \<noteq> []" using False req by simp
    obtain r w1 where sys: "sys_write w ?req = (r, w1)" by fastforce
    note law = ok[unfolded write_ok_def, rule_format, OF rne sys]
    show ?thesis
    proof (cases r)
      case (WriteErr e)
      then show ?thesis using ne sys law wf False by (subst byteq_write.simps) (simp add: Let_def)
    next
      case (Wrote n)
      then have n: "0 < n" "n \<le> length ?req" "sent w1 = sent w @ take n ?req" using law by auto
      have "n \<le> ?m" using n(2) req by simp
      then have "int n \<le> byteq_tailroom q"
        using byteq_tailroom_pos[OF wf False] by (simp add: le_nat_iff)
      then obtain q1 where q1: "byteq_advance_tail q (of_nat n) = Some q1" "byteq_wf q1"
        "byteq_contents q1 = drop n (byteq_contents q)" "bq_len q1 = bq_len q - n"
        using byteq_advance_tail_correct[OF wf] by metis
      have "0 < bq_len q" using False by (cases "bq_len q") (auto simp: byteq_contents_def)
      then have "bq_len q1 < bq_len q" using q1(4) n(1) by simp
      then obtain r2 q2 w2 where ih: "byteq_write sys_write q1 w1 = Some (r2, q2, w2)" "byteq_wf q2"
        "sent w2 @ byteq_contents q2 = sent w1 @ byteq_contents q1" "r2 = 0 \<longleftrightarrow> byteq_contents q2 = []"
        using less.hyps[OF _ q1(2)] by blast
      have "take n ?req = take n (byteq_contents q)" using req \<open>n \<le> ?m\<close> by (simp add: min_absorb1)
      then have "sent w1 @ byteq_contents q1 = sent w @ byteq_contents q"
        using n(3) q1(3) by simp
      then show ?thesis
        using ne sys Wrote n(1) q1(1) ih by (subst byteq_write.simps) (simp add: Let_def)
    qed
  qed
qed

lemma byteq_read_correct:
  assumes ok: "read_ok got sys_read"
  shows "byteq_wf q \<Longrightarrow> \<exists>r q' w' new. byteq_read sys_read q w = Some (r, q', w') \<and> byteq_wf q' \<and>
    bq_cap q' = bq_cap q \<and> got w' = got w @ new \<and> byteq_contents q' = byteq_contents q @ new \<and>
    (r = 0 \<longleftrightarrow> length (byteq_contents q') = bq_cap q)"
proof (induction "bq_cap q - bq_len q" arbitrary: q w rule: less_induct)
  case less
  note wf = less.prems
  show ?case
  proof (cases "bq_len q = bq_cap q")
    case True
    then show ?thesis using wf byteq_is_full_iff by (subst byteq_read.simps) simp
  next
    case False
    let ?m = "nat (byteq_headroom q)"
    have nf: "\<not> byteq_is_full q" using False byteq_is_full_iff[OF wf] by simp
    have lt: "bq_len q < bq_cap q" using False byteq_wf_bounds(3)[OF wf] by simp
    obtain r w1 where sys: "sys_read w ?m = (r, w1)" by fastforce
    note law = ok[unfolded read_ok_def, rule_format, OF sys]
    consider e where "r = ReadErr e" | "r = Read []" | bs where "r = Read bs" "bs \<noteq> []"
      by (cases r) auto
    then show ?thesis
    proof cases
      case 1
      then show ?thesis using nf sys law wf False by (subst byteq_read.simps) (simp add: Let_def)
    next
      case 2
      then show ?thesis using nf sys law wf False
        by (subst byteq_read.simps) (simp add: Let_def EOF_def)
    next
      case 3
      have "int (length bs) \<le> byteq_headroom q"
        using law 3 byteq_headroom_pos[OF wf lt] by auto
      then obtain q1 where q1: "byteq_advance_head
          (q\<lparr>bq_buffer := mem_write (bq_buffer q) (byteq_head q) bs\<rparr>) (of_nat (length bs)) = Some q1"
        "byteq_wf q1" "bq_cap q1 = bq_cap q" "byteq_contents q1 = byteq_contents q @ bs"
        using byteq_chunk_append[OF wf] by metis
      have "bq_len q1 = bq_len q + length bs" using arg_cong[OF q1(4), of length] by simp
      then have "bq_cap q1 - bq_len q1 < bq_cap q - bq_len q"
        using lt q1(3) 3(2) by (cases bs) auto
      then obtain r2 q2 w2 new where ih: "byteq_read sys_read q1 w1 = Some (r2, q2, w2)" "byteq_wf q2"
        "bq_cap q2 = bq_cap q1" "got w2 = got w1 @ new" "byteq_contents q2 = byteq_contents q1 @ new"
        "r2 = 0 \<longleftrightarrow> length (byteq_contents q2) = bq_cap q1"
        using less.hyps[OF _ q1(2)] by blast
      have "bq_len q2 = bq_len q + (length bs + length new)"
        using arg_cong[OF ih(5), of length] \<open>bq_len q1 = bq_len q + length bs\<close> by simp
      then show ?thesis
        using nf sys 3 q1 law ih by (subst byteq_read.simps) (simp add: Let_def)
    qed
  qed
qed

subsection \<open>The queue interface\<close>

text \<open>A bounded first-in first-out queue, and what a client may conclude of a run of calls.\<close>

datatype 'a fifo_op = FPut 'a | FGet

fun fifo_run :: "('q \<Rightarrow> 'a \<Rightarrow> 'q option) \<Rightarrow> ('q \<Rightarrow> ('a \<times> 'q) option) \<Rightarrow> 'q \<Rightarrow> 'a fifo_op list \<Rightarrow>
  ('a list \<times> 'q) option" where
  "fifo_run put get q [] = Some ([], q)"
| "fifo_run put get q (FPut a # ops) = Option.bind (put q a) (\<lambda>q'. fifo_run put get q' ops)"
| "fifo_run put get q (FGet # ops) =
     Option.bind (get q) (\<lambda>(a, q').
       Option.bind (fifo_run put get q' ops) (\<lambda>(out, q''). Some (a # out, q'')))"

text \<open>The bytes a run puts in, and whether it never overfills or underruns from a fill level.\<close>

fun fifo_puts :: "'a fifo_op list \<Rightarrow> 'a list" where
  "fifo_puts [] = []"
| "fifo_puts (FPut a # ops) = a # fifo_puts ops"
| "fifo_puts (FGet # ops) = fifo_puts ops"

fun fifo_fits :: "nat \<Rightarrow> nat \<Rightarrow> 'a fifo_op list \<Rightarrow> bool" where
  "fifo_fits cp n [] \<longleftrightarrow> True"
| "fifo_fits cp n (FPut a # ops) \<longleftrightarrow> n < cp \<and> fifo_fits cp (n + 1) ops"
| "fifo_fits cp n (FGet # ops) \<longleftrightarrow> 0 < n \<and> fifo_fits cp (n - 1) ops"

locale bounded_fifo =
  fixes put :: "'q \<Rightarrow> 'a \<Rightarrow> 'q option"
    and get :: "'q \<Rightarrow> ('a \<times> 'q) option"
    and items :: "'q \<Rightarrow> 'a list"
    and cap :: "'q \<Rightarrow> nat"
    and inv :: "'q \<Rightarrow> bool"
  assumes put: "inv q \<Longrightarrow> length (items q) < cap q \<Longrightarrow>
      \<exists>q'. put q a = Some q' \<and> inv q' \<and> cap q' = cap q \<and> items q' = items q @ [a]"
    and get: "inv q \<Longrightarrow> items q \<noteq> [] \<Longrightarrow>
      \<exists>q'. get q = Some (hd (items q), q') \<and> inv q' \<and> cap q' = cap q \<and> items q' = tl (items q)"
begin

lemma run_fifo:
  "inv q \<Longrightarrow> fifo_fits (cap q) (length (items q)) ops \<Longrightarrow>
   \<exists>out q'. fifo_run put get q ops = Some (out, q') \<and> inv q' \<and> cap q' = cap q \<and>
     out @ items q' = items q @ fifo_puts ops"
proof (induction ops arbitrary: q)
  case (Cons opn ops)
  show ?case
  proof (cases opn)
    case (FPut a)
    then obtain q1 where "put q a = Some q1" "inv q1" "cap q1 = cap q" "items q1 = items q @ [a]"
      using put Cons.prems by force
    then show ?thesis using Cons.IH[of q1] Cons.prems(2) FPut by simp
  next
    case FGet
    then have ne: "items q \<noteq> []" using Cons.prems(2) by auto
    then obtain q1 where q1: "get q = Some (hd (items q), q1)" "inv q1" "cap q1 = cap q"
      "items q1 = tl (items q)"
      using get Cons.prems(1) by blast
    then obtain out q' where "fifo_run put get q1 ops = Some (out, q')" "inv q'" "cap q' = cap q"
      "out @ items q' = tl (items q) @ fifo_puts ops"
      using Cons.IH[of q1] Cons.prems(2) FGet by auto
    then show ?thesis using FGet q1 ne by simp
  qed
qed simp

end

interpretation bq: bounded_fifo byteq_put byteq_get byteq_contents bq_cap byteq_wf
proof unfold_locales
  fix q :: byteq and a :: uint8_t
  assume wf: "byteq_wf q"
  show "\<exists>q'. byteq_put q a = Some q' \<and> byteq_wf q' \<and> bq_cap q' = bq_cap q \<and>
      byteq_contents q' = byteq_contents q @ [a]" if "length (byteq_contents q) < bq_cap q"
    using byteq_put_correct[OF wf, of a] that by (metis length_byteq_contents)
  show "\<exists>q'. byteq_get q = Some (hd (byteq_contents q), q') \<and> byteq_wf q' \<and> bq_cap q' = bq_cap q \<and>
      byteq_contents q' = tl (byteq_contents q)" if "byteq_contents q \<noteq> []"
    using byteq_get_correct[OF wf that] by metis
qed

subsection \<open>Initialisation\<close>

lemma nat_pow2_if_and_pred_zero:
  fixes x :: nat
  shows "0 < x \<Longrightarrow> x AND (x - 1) = 0 \<Longrightarrow> \<exists>k. x = 2 ^ k"
proof (induction x rule: less_induct)
  case (less x)
  show ?case
  proof (cases "even x")
    case True
    then have y: "0 < x div 2" "x div 2 < x" "(x - 1) div 2 = x div 2 - 1"
      using less.prems(1) by (auto elim!: evenE)
    have "x AND (x - 1) = of_bool (odd x \<and> odd (x - 1)) + 2 * ((x div 2) AND ((x - 1) div 2))"
      by (rule and_rec)
    then have "(x div 2) AND (x div 2 - 1) = 0" using less.prems(2) y(3) by simp
    then obtain k where "x div 2 = 2 ^ k" using less.IH y by blast
    then have "x = 2 ^ Suc k" using True by (metis dvd_mult_div_cancel power_Suc)
    then show ?thesis by blast
  next
    case False
    then have "(x - 1) div 2 = x div 2" by (auto elim!: oddE)
    moreover have "x AND (x - 1) = of_bool (odd x \<and> odd (x - 1)) + 2 * ((x div 2) AND ((x - 1) div 2))"
      by (rule and_rec)
    ultimately have "x div 2 = 0" using less.prems(2) by simp
    then have "x = 2 ^ 0" using False by (metis One_nat_def div_eq_0_iff even_zero less_2_cases power_0 zero_neq_numeral)
    then show ?thesis by blast
  qed
qed

lemma is_pow2_unat:
  assumes "is_pow2 x"
  shows "\<exists>k. unat x = 2 ^ k"
proof (rule nat_pow2_if_and_pred_zero)
  show "0 < unat x" using assms by (simp add: is_pow2_def unat_gt_0)
  have "unat (x AND (x - 1)) = unat x AND unat (x - 1)" by (simp add: unsigned_and_eq)
  then show "unat x AND (unat x - 1) = 0" using assms by (simp add: is_pow2_def unat_minus_one)
qed

lemma byteq_init_correct:
  assumes "byteq_init buf sz = Some q" and "unat sz = length buf" and "length buf \<le> 2 ^ 30"
  shows "byteq_wf q" and "byteq_contents q = []" and "bq_cap q = length buf"
proof -
  have q: "q = \<lparr>bq_buffer = buf, bq_size = ucast sz, bq_head = 0, bq_tail = 0\<rparr>" and p: "is_pow2 sz"
    using assms(1) by (auto simp: byteq_init_def split: if_splits)
  obtain k where k: "unat sz = 2 ^ k" using is_pow2_unat[OF p] by blast
  have "(2::nat) ^ k \<le> 2 ^ 30" using k assms(2,3) by simp
  then have k30: "k \<le> 30" using power_le_imp_le_exp[of "2::nat" k 30] by simp
  have "unat (ucast sz :: 32 word) = unat sz"
    using assms(2,3) by (simp add: unsigned_ucast_eq take_bit_nat_eq_self)
  then show c: "bq_cap q = length buf" using assms(2) by (simp add: bq_cap_def q)
  show "byteq_contents q = []" by (simp add: byteq_contents_def q bq_len_def)
  show "byteq_wf q" unfolding byteq_wf_def
    using c k k30 assms(2) by (auto simp: q bq_len_def)
qed

subsection \<open>Properties\<close>

definition byteq_sample :: byteq where
  "byteq_sample = \<lparr>bq_buffer = [1, 2, 3, 4], bq_size = 4, bq_head = 1, bq_tail = 4294967294\<rparr>"

lemma byteq_sample_wf: "byteq_wf byteq_sample"
  unfolding byteq_wf_def
  by (auto simp: byteq_sample_def bq_cap_def bq_len_def intro!: exI[of _ 2])

text \<open>
  C5: First in, first out.  A run of \<open>byteq_put\<close> and \<open>byteq_get\<close> calls that never overfills
  or underruns the queue passes every assertion, and the bytes it returns followed by the bytes
  still queued are exactly the bytes queued before followed by the bytes put in, whatever the values
  of the wrapping head and tail counters.
\<close>
theorem byteq_fifo:
  assumes "byteq_wf q" and "fifo_fits (bq_cap q) (length (byteq_contents q)) ops"
  shows "\<exists>out q'. fifo_run byteq_put byteq_get q ops = Some (out, q') \<and> byteq_wf q' \<and>
    bq_cap q' = bq_cap q \<and> out @ byteq_contents q' = byteq_contents q @ fifo_puts ops"
  by (rule bq.run_fifo[OF assms])

theorem byteq_fifo_witness:
  "byteq_wf byteq_sample \<and> byteq_contents byteq_sample = [3, 4, 1] \<and>
   (\<exists>out q'. fifo_run byteq_put byteq_get byteq_sample [FPut 9, FGet, FGet] = Some (out, q') \<and>
     out @ byteq_contents q' = [3, 4, 1, 9])"
proof -
  have c: "byteq_contents byteq_sample = [3, 4, 1]"
    by (simp add: byteq_contents_def bq_len_def bq_slot_def bq_cap_def byteq_sample_def upt_rec)
  have f: "fifo_fits (bq_cap byteq_sample) (length (byteq_contents byteq_sample))
      [FPut 9, FGet, FGet :: uint8_t fifo_op]"
    unfolding c by (simp add: bq_cap_def byteq_sample_def)
  show ?thesis using byteq_sample_wf c byteq_fifo[OF byteq_sample_wf f] by auto
qed

text \<open>
  \<open>byteq_putn\<close> of bytes that fit returns, passes its assertions and appends exactly those
  bytes, although it copies them in chunks around the end of the buffer.
\<close>
theorem byteq_putn_appends:
  assumes "byteq_wf q" and "length (byteq_contents q) + length p \<le> bq_cap q"
  shows "\<exists>q'. byteq_putn q p = Some q' \<and> byteq_wf q' \<and> bq_cap q' = bq_cap q \<and>
    byteq_contents q' = byteq_contents q @ p"
  using byteq_putn_correct[of q p] assms by (metis length_byteq_contents)

theorem byteq_putn_appends_witness:
  "\<exists>q0 q'. byteq_init [0, 0, 0, 0] 4 = Some q0 \<and> byteq_putn q0 [5, 6, 7] = Some q' \<and>
     byteq_contents q' = [5, 6, 7]"
proof -
  have i: "byteq_init [0, 0, 0, 0] 4 = Some \<lparr>bq_buffer = [0, 0, 0, 0], bq_size = 4, bq_head = 0, bq_tail = 0\<rparr>"
    by (simp add: byteq_init_def is_pow2_def)
  note c = byteq_init_correct[OF i, simplified]
  show ?thesis using i byteq_putn_appends[OF c(1), of "[5, 6, 7]"] c(2,3) by auto
qed

text \<open>
  C6: \<open>byteq_write\<close> loses and duplicates nothing: with a \<open>write\<close> that accepts a prefix of what it
  is offered or fails, it returns, the bytes sent followed by the bytes still queued are those there
  were before, and it returns 0 exactly when the queue has been drained.
\<close>
theorem byteq_write_no_loss:
  assumes "write_ok sent sys_write" and "byteq_wf q"
  shows "\<exists>r q' w'. byteq_write sys_write q w = Some (r, q', w') \<and> byteq_wf q' \<and>
    sent w' @ byteq_contents q' = sent w @ byteq_contents q \<and> (r = 0 \<longleftrightarrow> byteq_contents q' = [])"
  by (rule byteq_write_correct[OF assms])

text \<open>A descriptor that accepts two bytes per call until \<open>limit\<close> bytes are in flight.\<close>

definition pipe_write :: "nat \<Rightarrow> uint8_t list \<Rightarrow> uint8_t list \<Rightarrow> io_write \<times> uint8_t list" where
  "pipe_write limit w bs =
     (if limit < length w + 2 then (WriteErr 11, w) else (Wrote (min 2 (length bs)), w @ take 2 bs))"

lemma pipe_write_ok: "write_ok (\<lambda>w. w) (pipe_write limit)"
  by (auto simp: write_ok_def pipe_write_def min_def split: if_splits)

theorem byteq_write_no_loss_witness:
  "\<exists>r q' w'. byteq_write (pipe_write 3) byteq_sample [] = Some (r, q', w') \<and>
     w' @ byteq_contents q' = byteq_contents byteq_sample"
  using byteq_write_no_loss[OF pipe_write_ok byteq_sample_wf, of 3 "[]"] by auto

text \<open>
  \<open>byteq_read\<close> appends to the queue exactly the bytes it consumes from the descriptor, never
  overwrites a queued byte, and returns 0 exactly when the queue has become full.
\<close>
theorem byteq_read_appends:
  assumes "read_ok got sys_read" and "byteq_wf q"
  shows "\<exists>r q' w' new. byteq_read sys_read q w = Some (r, q', w') \<and> byteq_wf q' \<and>
    bq_cap q' = bq_cap q \<and> got w' = got w @ new \<and> byteq_contents q' = byteq_contents q @ new \<and>
    (r = 0 \<longleftrightarrow> length (byteq_contents q') = bq_cap q)"
  by (rule byteq_read_correct[OF assms])

text \<open>A descriptor holding a list of bytes, with the bytes already taken from it.\<close>

definition pipe_read :: "uint8_t list \<times> uint8_t list \<Rightarrow> nat \<Rightarrow> io_read \<times> (uint8_t list \<times> uint8_t list)" where
  "pipe_read w n = (Read (take n (snd w)), (fst w @ take n (snd w), drop n (snd w)))"

lemma pipe_read_ok: "read_ok fst pipe_read"
  by (auto simp: read_ok_def pipe_read_def)

theorem byteq_read_appends_witness:
  "\<exists>r q' w' new. byteq_read pipe_read byteq_sample ([], [7, 8]) = Some (r, q', w') \<and>
     fst w' = new \<and> byteq_contents q' = byteq_contents byteq_sample @ new"
  using byteq_read_appends[OF pipe_read_ok byteq_sample_wf, of "([], [7, 8])"] by auto

end
