(* ===== verification/Reconnect_Fsm.thy ===== *)
theory Reconnect_Fsm
  imports Ovs_Prelude
begin

text \<open>
  The connection management state machine of \<open>lib/reconnect.c\<close>.  Times are the \<open>long long\<close>
  milliseconds of \<open>time_msec()\<close> and are modelled as integers; the theorems bound them so that no
  sum of a time and an interval leaves the 64-bit range.  Statistics counters are 32-bit words.
  The calls of the \<open>VLOG\<close> macros are kept as a trace of events in the state.
\<close>

subsection \<open>State\<close>

datatype state = S_VOID | S_BACKOFF | S_CONNECTING | S_ACTIVE | S_IDLE | S_RECONNECT | S_LISTENING

datatype vlog_level = VLL_OFF | VLL_EMER | VLL_ERR | VLL_WARN | VLL_INFO | VLL_DBG

text \<open>The messages, with their arguments; a \<open>bool\<close> argument is \<open>passive\<close>.\<close>

datatype log_msg =
    Entering state
  | DroppedErr int | ClosedByPeer | Dropped
  | ListenErr int | ListenFailed
  | AttemptFailed bool int | AttemptTimedOut bool
  | WaitingBefore int bool | Suppressing bool
  | ListeningMsg | ConnectingMsg | ConnectedMsg
  | SendingProbe int | NoResponse int

record reconnect =
  rc_name :: string
  rc_min_backoff :: int
  rc_max_backoff :: int
  rc_probe_interval :: int
  rc_passive :: bool
  rc_info :: vlog_level
  rc_state :: state
  rc_state_entered :: int
  rc_backoff :: int
  rc_last_activity :: int
  rc_last_connected :: int
  rc_last_disconnected :: int
  rc_last_receive_attempt :: int
  rc_max_tries :: uint32_t
  rc_backoff_free_tries :: uint32_t
  rc_creation_time :: int
  rc_n_attempted_connections :: uint32_t
  rc_n_successful_connections :: uint32_t
  rc_total_connected_duration :: uint32_t
  rc_seqno :: uint32_t
  rc_log :: "(vlog_level \<times> string \<times> log_msg) list"

definition LLONG_MAX :: int where "LLONG_MAX = 9223372036854775807"
definition LLONG_MIN :: int where "LLONG_MIN = -9223372036854775808"
definition INT_MAX :: int where "INT_MAX = 2147483647"
definition UINT_MAX :: uint32_t where "UINT_MAX = 0xffffffff"

definition vlog :: "vlog_level \<Rightarrow> log_msg \<Rightarrow> reconnect \<Rightarrow> reconnect" where
  "vlog lvl m fsm = fsm\<lparr>rc_log := rc_log fsm @ [(lvl, rc_name fsm, m)]\<rparr>"

definition is_connected_state :: "state \<Rightarrow> bool" where
  "is_connected_state s \<longleftrightarrow> s = S_ACTIVE \<or> s = S_IDLE"

definition reconnect_state_name :: "state \<Rightarrow> string" where
  "reconnect_state_name s = (case s of S_VOID \<Rightarrow> ''VOID'' | S_BACKOFF \<Rightarrow> ''BACKOFF''
     | S_CONNECTING \<Rightarrow> ''CONNECTING'' | S_ACTIVE \<Rightarrow> ''ACTIVE'' | S_IDLE \<Rightarrow> ''IDLE''
     | S_RECONNECT \<Rightarrow> ''RECONNECT'' | S_LISTENING \<Rightarrow> ''LISTENING'')"

subsection \<open>Creation and configuration\<close>

definition RECONNECT_DEFAULT_MIN_BACKOFF :: int where "RECONNECT_DEFAULT_MIN_BACKOFF = 1000"
definition RECONNECT_DEFAULT_MAX_BACKOFF :: int where "RECONNECT_DEFAULT_MAX_BACKOFF = 8000"
definition RECONNECT_DEFAULT_PROBE_INTERVAL :: int where "RECONNECT_DEFAULT_PROBE_INTERVAL = 5000"

definition reconnect_create :: "int \<Rightarrow> reconnect" where
  "reconnect_create now = \<lparr>
     rc_name = ''void'',
     rc_min_backoff = RECONNECT_DEFAULT_MIN_BACKOFF,
     rc_max_backoff = RECONNECT_DEFAULT_MAX_BACKOFF,
     rc_probe_interval = RECONNECT_DEFAULT_PROBE_INTERVAL,
     rc_passive = False,
     rc_info = VLL_INFO,
     rc_state = S_VOID,
     rc_state_entered = now,
     rc_backoff = 0,
     rc_last_activity = now,
     rc_last_connected = LLONG_MAX,
     rc_last_disconnected = LLONG_MAX,
     rc_last_receive_attempt = now,
     rc_max_tries = UINT_MAX,
     rc_backoff_free_tries = 0,
     rc_creation_time = now,
     rc_n_attempted_connections = 0,
     rc_n_successful_connections = 0,
     rc_total_connected_duration = 0,
     rc_seqno = 0,
     rc_log = []\<rparr>"

definition reconnect_set_quiet :: "reconnect \<Rightarrow> bool \<Rightarrow> reconnect" where
  "reconnect_set_quiet fsm quiet = fsm\<lparr>rc_info := (if quiet then VLL_DBG else VLL_INFO)\<rparr>"

definition reconnect_get_name :: "reconnect \<Rightarrow> string" where
  "reconnect_get_name fsm = rc_name fsm"

text \<open>A null \<open>name\<close> is \<open>None\<close>.\<close>

definition reconnect_set_name :: "reconnect \<Rightarrow> string option \<Rightarrow> reconnect" where
  "reconnect_set_name fsm name = fsm\<lparr>rc_name := (case name of Some n \<Rightarrow> n | None \<Rightarrow> ''void'')\<rparr>"

definition reconnect_get_min_backoff :: "reconnect \<Rightarrow> int" where
  "reconnect_get_min_backoff fsm = rc_min_backoff fsm"

definition reconnect_get_max_backoff :: "reconnect \<Rightarrow> int" where
  "reconnect_get_max_backoff fsm = rc_max_backoff fsm"

definition reconnect_get_probe_interval :: "reconnect \<Rightarrow> int" where
  "reconnect_get_probe_interval fsm = rc_probe_interval fsm"

definition reconnect_set_max_tries :: "reconnect \<Rightarrow> uint32_t \<Rightarrow> reconnect" where
  "reconnect_set_max_tries fsm max_tries = fsm\<lparr>rc_max_tries := max_tries\<rparr>"

definition reconnect_get_max_tries :: "reconnect \<Rightarrow> uint32_t" where
  "reconnect_get_max_tries fsm = rc_max_tries fsm"

definition reconnect_set_backoff_free_tries :: "reconnect \<Rightarrow> uint32_t \<Rightarrow> reconnect" where
  "reconnect_set_backoff_free_tries fsm n = fsm\<lparr>rc_backoff_free_tries := n\<rparr>"

text \<open>The last test compares with the argument \<open>max_backoff\<close>, not with the field it set.\<close>

definition reconnect_set_backoff :: "reconnect \<Rightarrow> int \<Rightarrow> int \<Rightarrow> reconnect" where
  "reconnect_set_backoff fsm min_backoff max_backoff =
     (let fsm = fsm\<lparr>rc_min_backoff := max min_backoff 1000,
                   rc_max_backoff := (if max_backoff \<noteq> 0 then max max_backoff 1000
                                      else RECONNECT_DEFAULT_MAX_BACKOFF)\<rparr>;
          fsm = (if rc_min_backoff fsm > rc_max_backoff fsm
                 then fsm\<lparr>rc_max_backoff := rc_min_backoff fsm\<rparr> else fsm)
      in if rc_state fsm = S_BACKOFF \<and> rc_backoff fsm > max_backoff
         then fsm\<lparr>rc_backoff := max_backoff\<rparr> else fsm)"

definition reconnect_set_probe_interval :: "reconnect \<Rightarrow> int \<Rightarrow> reconnect" where
  "reconnect_set_probe_interval fsm probe_interval =
     fsm\<lparr>rc_probe_interval := (if probe_interval \<noteq> 0 then max 1000 probe_interval else 0)\<rparr>"

definition reconnect_is_passive :: "reconnect \<Rightarrow> bool" where
  "reconnect_is_passive fsm = rc_passive fsm"

subsection \<open>State transitions\<close>

definition reconnect_transition :: "reconnect \<Rightarrow> int \<Rightarrow> state \<Rightarrow> reconnect" where
  "reconnect_transition fsm now state =
     (let fsm = (if rc_state fsm = S_CONNECTING
                 then let fsm = fsm\<lparr>rc_n_attempted_connections := rc_n_attempted_connections fsm + 1\<rparr>
                      in if state = S_ACTIVE
                         then fsm\<lparr>rc_n_successful_connections := rc_n_successful_connections fsm + 1\<rparr>
                         else fsm
                 else fsm);
          fsm = (if is_connected_state (rc_state fsm) \<noteq> is_connected_state state
                 then let fsm = (if is_connected_state (rc_state fsm)
                                 then fsm\<lparr>rc_total_connected_duration :=
                                        rc_total_connected_duration fsm + word_of_int (now - rc_last_connected fsm)\<rparr>
                                 else fsm)
                      in fsm\<lparr>rc_seqno := rc_seqno fsm + 1\<rparr>
                 else fsm);
          fsm = vlog VLL_DBG (Entering state) fsm
      in fsm\<lparr>rc_state := state, rc_state_entered := now\<rparr>)"

definition reconnect_may_retry :: "reconnect \<Rightarrow> bool \<times> reconnect" where
  "reconnect_may_retry fsm =
     (let may_retry = rc_max_tries fsm > 0
      in (may_retry,
          if may_retry \<and> rc_max_tries fsm \<noteq> UINT_MAX
          then fsm\<lparr>rc_max_tries := rc_max_tries fsm - 1\<rparr> else fsm))"

text \<open>Both conditions of \<open>reconnect_set_passive\<close>; \<open>&&\<close> calls \<open>reconnect_may_retry\<close> only when listening.\<close>

definition reconnect_set_passive :: "reconnect \<Rightarrow> bool \<Rightarrow> int \<Rightarrow> reconnect" where
  "reconnect_set_passive fsm passive now =
     (if rc_passive fsm \<noteq> passive
      then let fsm = fsm\<lparr>rc_passive := passive\<rparr>;
               (c, fsm) = (if passive then (rc_state fsm \<in> {S_CONNECTING, S_RECONNECT}, fsm)
                           else if rc_state fsm = S_LISTENING then reconnect_may_retry fsm
                           else (False, fsm))
           in if c then (reconnect_transition fsm now S_BACKOFF)\<lparr>rc_backoff := 0\<rparr> else fsm
      else fsm)"

definition reconnect_is_enabled :: "reconnect \<Rightarrow> bool" where
  "reconnect_is_enabled fsm \<longleftrightarrow> rc_state fsm \<noteq> S_VOID"

definition reconnect_enable :: "reconnect \<Rightarrow> int \<Rightarrow> reconnect" where
  "reconnect_enable fsm now =
     (let (c, fsm) = (if rc_state fsm = S_VOID then reconnect_may_retry fsm else (False, fsm))
      in if c then (reconnect_transition fsm now S_BACKOFF)\<lparr>rc_backoff := 0\<rparr> else fsm)"

definition reconnect_disable :: "reconnect \<Rightarrow> int \<Rightarrow> reconnect" where
  "reconnect_disable fsm now =
     (if rc_state fsm \<noteq> S_VOID then reconnect_transition fsm now S_VOID else fsm)"

definition reconnect_force_reconnect :: "reconnect \<Rightarrow> int \<Rightarrow> reconnect" where
  "reconnect_force_reconnect fsm now =
     (if rc_state fsm \<in> {S_CONNECTING, S_ACTIVE, S_IDLE}
      then reconnect_transition fsm now S_RECONNECT else fsm)"

text \<open>The first part of \<open>reconnect_disconnected\<close>: report what happened.\<close>

definition disconnected_report :: "reconnect \<Rightarrow> int \<Rightarrow> reconnect" where
  "disconnected_report fsm error =
     (if rc_state fsm \<in> {S_ACTIVE, S_IDLE}
      then if error > 0 then vlog VLL_WARN (DroppedErr error) fsm
           else if error = -1 then vlog (rc_info fsm) ClosedByPeer fsm
           else vlog (rc_info fsm) Dropped fsm
      else if rc_state fsm = S_LISTENING
      then if error > 0 then vlog VLL_WARN (ListenErr error) fsm
           else vlog (rc_info fsm) ListenFailed fsm
      else if rc_backoff fsm < rc_max_backoff fsm
      then if error > 0 then vlog VLL_INFO (AttemptFailed (rc_passive fsm) error) fsm
           else vlog (rc_info fsm) (AttemptTimedOut (rc_passive fsm)) fsm
      else fsm)"

text \<open>The second part: choose the new back-off.\<close>

definition disconnected_back_off :: "reconnect \<Rightarrow> reconnect" where
  "disconnected_back_off fsm =
     (if rc_backoff_free_tries fsm > 1
      then fsm\<lparr>rc_backoff_free_tries := rc_backoff_free_tries fsm - 1, rc_backoff := 0\<rparr>
      else if rc_state fsm \<in> {S_ACTIVE, S_IDLE}
           \<and> (rc_last_activity fsm - rc_last_connected fsm \<ge> rc_backoff fsm \<or> rc_passive fsm)
      then fsm\<lparr>rc_backoff := (if rc_passive fsm then 0 else rc_min_backoff fsm)\<rparr>
      else if rc_backoff fsm < rc_min_backoff fsm
      then fsm\<lparr>rc_backoff := rc_min_backoff fsm\<rparr>
      else if rc_backoff fsm < c_div (rc_max_backoff fsm) 2
      then let fsm = fsm\<lparr>rc_backoff := rc_backoff fsm * 2\<rparr>
           in vlog (rc_info fsm) (WaitingBefore (rc_backoff fsm) (rc_passive fsm)) fsm
      else let fsm = (if rc_backoff fsm < rc_max_backoff fsm
                      then vlog VLL_INFO (Suppressing (rc_passive fsm)) fsm else fsm)
           in fsm\<lparr>rc_backoff := rc_max_backoff fsm\<rparr>)"

definition reconnect_disconnected :: "reconnect \<Rightarrow> int \<Rightarrow> int \<Rightarrow> reconnect" where
  "reconnect_disconnected fsm now error =
     (if rc_state fsm \<notin> {S_BACKOFF, S_VOID}
      then let fsm = disconnected_report fsm error;
               fsm = (if rc_state fsm \<in> {S_ACTIVE, S_IDLE} then fsm\<lparr>rc_last_disconnected := now\<rparr> else fsm);
               (may_retry, fsm) = reconnect_may_retry fsm
           in if \<not> may_retry then reconnect_transition fsm now S_VOID
              else reconnect_transition (disconnected_back_off fsm) now S_BACKOFF
      else fsm)"

definition reconnect_connecting :: "reconnect \<Rightarrow> int \<Rightarrow> reconnect" where
  "reconnect_connecting fsm now =
     (if rc_state fsm \<noteq> S_CONNECTING
      then let fsm = (if rc_passive fsm then vlog (rc_info fsm) ListeningMsg fsm
                      else if rc_backoff fsm < rc_max_backoff fsm then vlog (rc_info fsm) ConnectingMsg fsm
                      else fsm)
           in reconnect_transition fsm now S_CONNECTING
      else fsm)"

definition reconnect_listening :: "reconnect \<Rightarrow> int \<Rightarrow> reconnect" where
  "reconnect_listening fsm now =
     (if rc_state fsm \<noteq> S_LISTENING
      then reconnect_transition (vlog (rc_info fsm) ListeningMsg fsm) now S_LISTENING
      else fsm)"

definition reconnect_listen_error :: "reconnect \<Rightarrow> int \<Rightarrow> int \<Rightarrow> reconnect" where
  "reconnect_listen_error fsm now error =
     (if rc_state fsm = S_LISTENING then reconnect_disconnected fsm now error else fsm)"

definition reconnect_connected :: "reconnect \<Rightarrow> int \<Rightarrow> reconnect" where
  "reconnect_connected fsm now =
     (if \<not> is_connected_state (rc_state fsm)
      then let fsm = reconnect_connecting fsm now;
               fsm = vlog (rc_info fsm) ConnectedMsg fsm;
               fsm = reconnect_transition fsm now S_ACTIVE
           in fsm\<lparr>rc_last_connected := now\<rparr>
      else fsm)"

definition reconnect_connect_failed :: "reconnect \<Rightarrow> int \<Rightarrow> int \<Rightarrow> reconnect" where
  "reconnect_connect_failed fsm now error =
     reconnect_disconnected (reconnect_connecting fsm now) now error"

definition reconnect_activity :: "reconnect \<Rightarrow> int \<Rightarrow> reconnect" where
  "reconnect_activity fsm now =
     (if rc_state fsm = S_IDLE then reconnect_transition fsm now S_ACTIVE else fsm)\<lparr>rc_last_activity := now\<rparr>"

definition reconnect_receive_attempted :: "reconnect \<Rightarrow> int \<Rightarrow> reconnect" where
  "reconnect_receive_attempted fsm now = fsm\<lparr>rc_last_receive_attempt := now\<rparr>"

subsection \<open>Deadlines and actions\<close>

definition probe_deadline :: "reconnect \<Rightarrow> int \<Rightarrow> int \<Rightarrow> int" where
  "probe_deadline fsm expiration now =
     (if now < expiration \<or> rc_last_receive_attempt fsm \<ge> expiration then expiration else now + 1)"

definition reconnect_deadline :: "reconnect \<Rightarrow> int \<Rightarrow> int option" where
  "reconnect_deadline fsm now =
     Option.bind (ovs_assert (rc_state_entered fsm \<noteq> LLONG_MIN)) (\<lambda>_. Some
       (case rc_state fsm of
          S_VOID \<Rightarrow> LLONG_MAX
        | S_LISTENING \<Rightarrow> LLONG_MAX
        | S_BACKOFF \<Rightarrow> rc_state_entered fsm + rc_backoff fsm
        | S_CONNECTING \<Rightarrow> rc_state_entered fsm + max 1000 (rc_backoff fsm)
        | S_ACTIVE \<Rightarrow>
            if rc_probe_interval fsm \<noteq> 0
            then let base = max (rc_last_activity fsm) (rc_state_entered fsm);
                     expiration = base + rc_probe_interval fsm
                 in probe_deadline fsm expiration now
            else LLONG_MAX
        | S_IDLE \<Rightarrow>
            if rc_probe_interval fsm \<noteq> 0
            then let expiration = rc_state_entered fsm + rc_probe_interval fsm
                 in probe_deadline fsm expiration now
            else LLONG_MAX
        | S_RECONNECT \<Rightarrow> rc_state_entered fsm))"

text \<open>The result 0 of \<open>reconnect_run\<close> is \<open>NO_ACTION\<close>.\<close>

datatype reconnect_action = NO_ACTION | RECONNECT_CONNECT | RECONNECT_DISCONNECT | RECONNECT_PROBE

definition reconnect_run :: "reconnect \<Rightarrow> int \<Rightarrow> (reconnect_action \<times> reconnect) option" where
  "reconnect_run fsm now =
     Option.bind (reconnect_deadline fsm now) (\<lambda>deadline. Some
       (if now \<ge> deadline
        then (case rc_state fsm of
                S_VOID \<Rightarrow> (NO_ACTION, fsm)
              | S_BACKOFF \<Rightarrow> (RECONNECT_CONNECT, fsm)
              | S_CONNECTING \<Rightarrow> (RECONNECT_DISCONNECT, fsm)
              | S_ACTIVE \<Rightarrow>
                  (RECONNECT_PROBE,
                   reconnect_transition
                     (vlog VLL_DBG (SendingProbe (now - max (rc_last_activity fsm) (rc_state_entered fsm))) fsm)
                     now S_IDLE)
              | S_IDLE \<Rightarrow> (RECONNECT_DISCONNECT, vlog VLL_ERR (NoResponse (now - rc_state_entered fsm)) fsm)
              | S_RECONNECT \<Rightarrow> (RECONNECT_DISCONNECT, fsm)
              | S_LISTENING \<Rightarrow> (NO_ACTION, fsm))
        else (NO_ACTION, fsm)))"

definition reconnect_timeout :: "reconnect \<Rightarrow> int \<Rightarrow> int option" where
  "reconnect_timeout fsm now =
     Option.bind (reconnect_deadline fsm now) (\<lambda>deadline. Some
       (if deadline \<noteq> LLONG_MAX
        then let remaining = deadline - now in max 0 (min INT_MAX remaining)
        else -1))"

text \<open>The argument of the call of \<open>poll_timer_wait\<close>, if it is made.\<close>

definition reconnect_wait :: "reconnect \<Rightarrow> int \<Rightarrow> int option option" where
  "reconnect_wait fsm now =
     Option.bind (reconnect_timeout fsm now) (\<lambda>timeout. Some (if timeout \<ge> 0 then Some timeout else None))"

subsection \<open>Queries\<close>

definition reconnect_is_connected :: "reconnect \<Rightarrow> bool" where
  "reconnect_is_connected fsm = is_connected_state (rc_state fsm)"

definition reconnect_get_last_connect_elapsed :: "reconnect \<Rightarrow> int \<Rightarrow> uint32_t" where
  "reconnect_get_last_connect_elapsed fsm now =
     (if rc_last_connected fsm = LLONG_MAX then UINT_MAX else word_of_int (now - rc_last_connected fsm))"

definition reconnect_get_last_disconnect_elapsed :: "reconnect \<Rightarrow> int \<Rightarrow> uint32_t" where
  "reconnect_get_last_disconnect_elapsed fsm now =
     (if rc_last_disconnected fsm = LLONG_MAX then UINT_MAX else word_of_int (now - rc_last_disconnected fsm))"

record reconnect_stats =
  rs_creation_time :: int
  rs_last_activity :: int
  rs_last_connected :: int
  rs_last_disconnected :: int
  rs_backoff :: int
  rs_seqno :: uint32_t
  rs_is_connected :: bool
  rs_msec_since_connect :: uint32_t
  rs_msec_since_disconnect :: uint32_t
  rs_total_connected_duration :: uint32_t
  rs_n_attempted_connections :: uint32_t
  rs_n_successful_connections :: uint32_t
  rs_state :: string
  rs_state_elapsed :: uint32_t

definition reconnect_get_stats :: "reconnect \<Rightarrow> int \<Rightarrow> reconnect_stats" where
  "reconnect_get_stats fsm now = \<lparr>
     rs_creation_time = rc_creation_time fsm,
     rs_last_activity = rc_last_activity fsm,
     rs_last_connected = rc_last_connected fsm,
     rs_last_disconnected = rc_last_disconnected fsm,
     rs_backoff = rc_backoff fsm,
     rs_seqno = rc_seqno fsm,
     rs_is_connected = reconnect_is_connected fsm,
     rs_msec_since_connect = reconnect_get_last_connect_elapsed fsm now,
     rs_msec_since_disconnect = reconnect_get_last_disconnect_elapsed fsm now,
     rs_total_connected_duration = rc_total_connected_duration fsm
       + (if is_connected_state (rc_state fsm) then reconnect_get_last_connect_elapsed fsm now else 0),
     rs_n_attempted_connections = rc_n_attempted_connections fsm,
     rs_n_successful_connections = rc_n_successful_connections fsm,
     rs_state = reconnect_state_name (rc_state fsm),
     rs_state_elapsed = word_of_int (now - rc_state_entered fsm)\<rparr>"

subsection \<open>Calls\<close>

text \<open>Every call that may change the state, made at a time \<open>now\<close>.\<close>

datatype reconnect_op =
    SetQuiet bool | SetName "string option" | SetMaxTries uint32_t | SetBackoffFreeTries uint32_t
  | SetBackoff int int | SetProbeInterval int | SetPassive bool
  | Enable | Disable | ForceReconnect
  | Disconnected int | Connecting | Listening | ListenError int | Connected | ConnectFailed int
  | Activity | ReceiveAttempted int | Run

fun reconnect_step :: "int \<times> reconnect_op \<Rightarrow> reconnect \<Rightarrow> reconnect option" where
  "reconnect_step (now, SetQuiet b) fsm = Some (reconnect_set_quiet fsm b)"
| "reconnect_step (now, SetName n) fsm = Some (reconnect_set_name fsm n)"
| "reconnect_step (now, SetMaxTries n) fsm = Some (reconnect_set_max_tries fsm n)"
| "reconnect_step (now, SetBackoffFreeTries n) fsm = Some (reconnect_set_backoff_free_tries fsm n)"
| "reconnect_step (now, SetBackoff mn mx) fsm = Some (reconnect_set_backoff fsm mn mx)"
| "reconnect_step (now, SetProbeInterval p) fsm = Some (reconnect_set_probe_interval fsm p)"
| "reconnect_step (now, SetPassive b) fsm = Some (reconnect_set_passive fsm b now)"
| "reconnect_step (now, Enable) fsm = Some (reconnect_enable fsm now)"
| "reconnect_step (now, Disable) fsm = Some (reconnect_disable fsm now)"
| "reconnect_step (now, ForceReconnect) fsm = Some (reconnect_force_reconnect fsm now)"
| "reconnect_step (now, Disconnected e) fsm = Some (reconnect_disconnected fsm now e)"
| "reconnect_step (now, Connecting) fsm = Some (reconnect_connecting fsm now)"
| "reconnect_step (now, Listening) fsm = Some (reconnect_listening fsm now)"
| "reconnect_step (now, ListenError e) fsm = Some (reconnect_listen_error fsm now e)"
| "reconnect_step (now, Connected) fsm = Some (reconnect_connected fsm now)"
| "reconnect_step (now, ConnectFailed e) fsm = Some (reconnect_connect_failed fsm now e)"
| "reconnect_step (now, Activity) fsm = Some (reconnect_activity fsm now)"
| "reconnect_step (now, ReceiveAttempted t) fsm = Some (reconnect_receive_attempted fsm t)"
| "reconnect_step (now, Run) fsm = map_option snd (reconnect_run fsm now)"

text \<open>
  Times are non-negative and below \<open>2 ^ 62\<close> milliseconds, and \<open>int\<close> arguments are in range; the
  back-off limits are not negative.
\<close>

definition time_ok :: "int \<Rightarrow> bool" where
  "time_ok now \<longleftrightarrow> 0 \<le> now \<and> now < 2 ^ 62"

fun reconnect_op_ok :: "int \<times> reconnect_op \<Rightarrow> bool" where
  "reconnect_op_ok (now, SetBackoff mn mx) \<longleftrightarrow> time_ok now \<and> mn \<le> INT_MAX \<and> 0 \<le> mx \<and> mx \<le> INT_MAX"
| "reconnect_op_ok (now, SetProbeInterval p) \<longleftrightarrow> time_ok now \<and> p \<le> INT_MAX"
| "reconnect_op_ok (now, opn) \<longleftrightarrow> time_ok now"

subsection \<open>Effect of the building blocks\<close>

lemma vlog_fields [simp]:
  "rc_name (vlog l m f) = rc_name f" "rc_min_backoff (vlog l m f) = rc_min_backoff f"
  "rc_max_backoff (vlog l m f) = rc_max_backoff f" "rc_probe_interval (vlog l m f) = rc_probe_interval f"
  "rc_passive (vlog l m f) = rc_passive f" "rc_info (vlog l m f) = rc_info f"
  "rc_state (vlog l m f) = rc_state f" "rc_state_entered (vlog l m f) = rc_state_entered f"
  "rc_backoff (vlog l m f) = rc_backoff f" "rc_last_activity (vlog l m f) = rc_last_activity f"
  "rc_last_connected (vlog l m f) = rc_last_connected f"
  "rc_max_tries (vlog l m f) = rc_max_tries f"
  "rc_backoff_free_tries (vlog l m f) = rc_backoff_free_tries f"
  "rc_total_connected_duration (vlog l m f) = rc_total_connected_duration f"
  "rc_seqno (vlog l m f) = rc_seqno f"
  "rc_log (vlog l m f) = rc_log f @ [(l, rc_name f, m)]"
  by (simp_all add: vlog_def)

lemma transition_fields [simp]:
  "rc_min_backoff (reconnect_transition f now s) = rc_min_backoff f"
  "rc_max_backoff (reconnect_transition f now s) = rc_max_backoff f"
  "rc_probe_interval (reconnect_transition f now s) = rc_probe_interval f"
  "rc_passive (reconnect_transition f now s) = rc_passive f"
  "rc_info (reconnect_transition f now s) = rc_info f"
  "rc_state (reconnect_transition f now s) = s"
  "rc_state_entered (reconnect_transition f now s) = now"
  "rc_backoff (reconnect_transition f now s) = rc_backoff f"
  "rc_last_activity (reconnect_transition f now s) = rc_last_activity f"
  "rc_last_connected (reconnect_transition f now s) = rc_last_connected f"
  "rc_max_tries (reconnect_transition f now s) = rc_max_tries f"
  "rc_backoff_free_tries (reconnect_transition f now s) = rc_backoff_free_tries f"
  "rc_log (reconnect_transition f now s) = rc_log f @ [(VLL_DBG, rc_name f, Entering s)]"
  "rc_seqno (reconnect_transition f now s) =
     (if is_connected_state (rc_state f) \<noteq> is_connected_state s then rc_seqno f + 1 else rc_seqno f)"
  "rc_total_connected_duration (reconnect_transition f now s) =
     (if is_connected_state (rc_state f) \<and> \<not> is_connected_state s
      then rc_total_connected_duration f + word_of_int (now - rc_last_connected f)
      else rc_total_connected_duration f)"
  by (simp_all add: reconnect_transition_def Let_def)

lemma may_retry_fields [simp]:
  "fst (reconnect_may_retry f) \<longleftrightarrow> rc_max_tries f > 0"
  "rc_min_backoff (snd (reconnect_may_retry f)) = rc_min_backoff f"
  "rc_max_backoff (snd (reconnect_may_retry f)) = rc_max_backoff f"
  "rc_probe_interval (snd (reconnect_may_retry f)) = rc_probe_interval f"
  "rc_passive (snd (reconnect_may_retry f)) = rc_passive f"
  "rc_state (snd (reconnect_may_retry f)) = rc_state f"
  "rc_state_entered (snd (reconnect_may_retry f)) = rc_state_entered f"
  "rc_backoff (snd (reconnect_may_retry f)) = rc_backoff f"
  "rc_last_activity (snd (reconnect_may_retry f)) = rc_last_activity f"
  "rc_last_connected (snd (reconnect_may_retry f)) = rc_last_connected f"
  "rc_backoff_free_tries (snd (reconnect_may_retry f)) = rc_backoff_free_tries f"
  "rc_seqno (snd (reconnect_may_retry f)) = rc_seqno f"
  "rc_total_connected_duration (snd (reconnect_may_retry f)) = rc_total_connected_duration f"
  "rc_log (snd (reconnect_may_retry f)) = rc_log f"
  "rc_max_tries (snd (reconnect_may_retry f)) =
     (if 0 < rc_max_tries f \<and> rc_max_tries f \<noteq> UINT_MAX then rc_max_tries f - 1 else rc_max_tries f)"
  by (simp_all add: reconnect_may_retry_def Let_def)

lemma report_fields [simp]:
  "rc_min_backoff (disconnected_report f e) = rc_min_backoff f"
  "rc_max_backoff (disconnected_report f e) = rc_max_backoff f"
  "rc_probe_interval (disconnected_report f e) = rc_probe_interval f"
  "rc_passive (disconnected_report f e) = rc_passive f"
  "rc_state (disconnected_report f e) = rc_state f"
  "rc_state_entered (disconnected_report f e) = rc_state_entered f"
  "rc_backoff (disconnected_report f e) = rc_backoff f"
  "rc_last_activity (disconnected_report f e) = rc_last_activity f"
  "rc_last_connected (disconnected_report f e) = rc_last_connected f"
  "rc_max_tries (disconnected_report f e) = rc_max_tries f"
  "rc_backoff_free_tries (disconnected_report f e) = rc_backoff_free_tries f"
  "rc_seqno (disconnected_report f e) = rc_seqno f"
  "rc_total_connected_duration (disconnected_report f e) = rc_total_connected_duration f"
  by (simp_all add: disconnected_report_def)

lemma back_off_fields [simp]:
  "rc_min_backoff (disconnected_back_off f) = rc_min_backoff f"
  "rc_max_backoff (disconnected_back_off f) = rc_max_backoff f"
  "rc_probe_interval (disconnected_back_off f) = rc_probe_interval f"
  "rc_passive (disconnected_back_off f) = rc_passive f"
  "rc_state (disconnected_back_off f) = rc_state f"
  "rc_state_entered (disconnected_back_off f) = rc_state_entered f"
  "rc_last_activity (disconnected_back_off f) = rc_last_activity f"
  "rc_last_connected (disconnected_back_off f) = rc_last_connected f"
  "rc_max_tries (disconnected_back_off f) = rc_max_tries f"
  "rc_seqno (disconnected_back_off f) = rc_seqno f"
  "rc_total_connected_duration (disconnected_back_off f) = rc_total_connected_duration f"
  by (simp_all add: disconnected_back_off_def Let_def)

text \<open>The back-off chosen after a drop or a failed attempt.\<close>

lemma rc_backoff_back_off:
  "rc_backoff (disconnected_back_off f) =
     (if rc_backoff_free_tries f > 1 then 0
      else if is_connected_state (rc_state f)
           \<and> (rc_last_activity f - rc_last_connected f \<ge> rc_backoff f \<or> rc_passive f)
      then if rc_passive f then 0 else rc_min_backoff f
      else if rc_backoff f < rc_min_backoff f then rc_min_backoff f
      else if rc_backoff f < c_div (rc_max_backoff f) 2 then rc_backoff f * 2
      else rc_max_backoff f)"
  by (simp add: disconnected_back_off_def Let_def is_connected_state_def)

lemmas reconnect_ops =
  reconnect_set_quiet_def reconnect_set_name_def reconnect_set_max_tries_def
  reconnect_set_backoff_free_tries_def reconnect_set_probe_interval_def
  reconnect_enable_def reconnect_disable_def reconnect_force_reconnect_def
  reconnect_listening_def reconnect_connecting_def reconnect_connected_def
  reconnect_activity_def reconnect_receive_attempted_def

subsection \<open>Invariant\<close>

definition reconnect_inv :: "reconnect \<Rightarrow> bool" where
  "reconnect_inv f \<longleftrightarrow>
     1000 \<le> rc_min_backoff f \<and> rc_min_backoff f \<le> rc_max_backoff f \<and> rc_max_backoff f \<le> INT_MAX \<and>
     (rc_probe_interval f = 0 \<or> 1000 \<le> rc_probe_interval f) \<and> rc_probe_interval f \<le> INT_MAX \<and>
     0 \<le> rc_backoff f \<and> rc_backoff f \<le> INT_MAX \<and>
     (rc_state f = S_BACKOFF \<longrightarrow> rc_backoff f \<le> rc_max_backoff f) \<and>
     time_ok (rc_state_entered f) \<and>
     (is_connected_state (rc_state f) \<longrightarrow> time_ok (rc_last_connected f)) \<and>
     (odd (rc_seqno f) \<longleftrightarrow> is_connected_state (rc_state f))"

lemma is_connected_state_simps [simp]:
  "is_connected_state S_ACTIVE" "is_connected_state S_IDLE" "\<not> is_connected_state S_VOID"
  "\<not> is_connected_state S_BACKOFF" "\<not> is_connected_state S_CONNECTING"
  "\<not> is_connected_state S_RECONNECT" "\<not> is_connected_state S_LISTENING"
  by (simp_all add: is_connected_state_def)

text \<open>A transition keeps the invariant when the back-off suits the new state.\<close>

lemma transition_inv:
  assumes "reconnect_inv f" and "time_ok now" and "s = S_BACKOFF \<Longrightarrow> rc_backoff f \<le> rc_max_backoff f"
    and "is_connected_state s \<Longrightarrow> is_connected_state (rc_state f)"
  shows "reconnect_inv (reconnect_transition f now s)"
  using assms unfolding reconnect_inv_def by auto

lemma inv_log [simp]: "reconnect_inv (vlog l m f) = reconnect_inv f"
  by (simp add: reconnect_inv_def)

lemma inv_irrelevant [simp]:
  "reconnect_inv (f\<lparr>rc_info := a\<rparr>) = reconnect_inv f"
  "reconnect_inv (f\<lparr>rc_name := n\<rparr>) = reconnect_inv f"
  "reconnect_inv (f\<lparr>rc_max_tries := t\<rparr>) = reconnect_inv f"
  "reconnect_inv (f\<lparr>rc_backoff_free_tries := t\<rparr>) = reconnect_inv f"
  "reconnect_inv (f\<lparr>rc_passive := b\<rparr>) = reconnect_inv f"
  "reconnect_inv (f\<lparr>rc_last_activity := x\<rparr>) = reconnect_inv f"
  "reconnect_inv (f\<lparr>rc_last_disconnected := x\<rparr>) = reconnect_inv f"
  "reconnect_inv (f\<lparr>rc_last_receive_attempt := x\<rparr>) = reconnect_inv f"
  by (simp_all add: reconnect_inv_def)

lemma inv_may_retry [simp]: "reconnect_inv (snd (reconnect_may_retry f)) = reconnect_inv f"
  by (simp add: reconnect_may_retry_def Let_def)

lemma inv_report [simp]: "reconnect_inv (disconnected_report f e) = reconnect_inv f"
  by (simp add: disconnected_report_def)

lemma back_off_bounds:
  assumes "reconnect_inv f"
  shows "0 \<le> rc_backoff (disconnected_back_off f)"
    and "rc_backoff (disconnected_back_off f) \<le> rc_max_backoff f"
proof -
  have "0 \<le> rc_backoff f" "1000 \<le> rc_min_backoff f" "rc_min_backoff f \<le> rc_max_backoff f"
    using assms by (auto simp: reconnect_inv_def)
  moreover from this have "c_div (rc_max_backoff f) 2 = rc_max_backoff f div 2" by (simp add: c_div_nonneg)
  ultimately show "0 \<le> rc_backoff (disconnected_back_off f)"
    and "rc_backoff (disconnected_back_off f) \<le> rc_max_backoff f"
    by (auto simp: rc_backoff_back_off)
qed

lemma inv_back_off: "reconnect_inv f \<Longrightarrow> reconnect_inv (disconnected_back_off f)"
  using back_off_bounds[of f] by (auto simp: reconnect_inv_def)

lemma disconnected_inv:
  assumes "reconnect_inv f" and "time_ok now"
  shows "reconnect_inv (reconnect_disconnected f now e)"
proof -
  define g where "g = (if rc_state f \<in> {S_ACTIVE, S_IDLE} then (disconnected_report f e)\<lparr>rc_last_disconnected := now\<rparr>
    else disconnected_report f e)"
  have g: "reconnect_inv (snd (reconnect_may_retry g))" using assms(1) by (simp add: g_def)
  have "reconnect_inv (reconnect_transition (snd (reconnect_may_retry g)) now S_VOID)"
    by (rule transition_inv[OF g assms(2)]) simp_all
  moreover have "reconnect_inv (reconnect_transition (disconnected_back_off (snd (reconnect_may_retry g))) now S_BACKOFF)"
    using back_off_bounds(2)[OF g] by (intro transition_inv inv_back_off g assms(2)) simp_all
  moreover have "reconnect_disconnected f now e =
    (if rc_state f \<in> {S_BACKOFF, S_VOID} then f
     else if fst (reconnect_may_retry g) then reconnect_transition (disconnected_back_off (snd (reconnect_may_retry g))) now S_BACKOFF
     else reconnect_transition (snd (reconnect_may_retry g)) now S_VOID)"
    by (simp add: reconnect_disconnected_def Let_def g_def case_prod_unfold)
  ultimately show ?thesis using assms(1) by simp
qed

lemma connecting_inv:
  assumes "reconnect_inv f" and "time_ok now"
  shows "reconnect_inv (reconnect_connecting f now)"
  using assms by (auto simp: reconnect_connecting_def Let_def intro!: transition_inv)

lemma connecting_state [simp]: "rc_state (reconnect_connecting f now) = S_CONNECTING"
  by (simp add: reconnect_connecting_def Let_def)

lemma connected_inv:
  assumes "reconnect_inv f" and "time_ok now"
  shows "reconnect_inv (reconnect_connected f now)"
  using assms connecting_inv[OF assms]
  by (auto simp: reconnect_connected_def Let_def reconnect_inv_def)

lemma set_backoff_inv:
  assumes "reconnect_inv f" and "mn \<le> INT_MAX" and "0 \<le> mx" and "mx \<le> INT_MAX"
  shows "reconnect_inv (reconnect_set_backoff f mn mx)"
  using assms by (auto simp: reconnect_set_backoff_def Let_def reconnect_inv_def INT_MAX_def
      RECONNECT_DEFAULT_MAX_BACKOFF_def max_def)

lemma enter_backoff_inv:
  assumes "reconnect_inv f" and "time_ok now"
  shows "reconnect_inv ((reconnect_transition f now S_BACKOFF)\<lparr>rc_backoff := 0\<rparr>)"
  using assms by (auto simp: reconnect_inv_def)

lemma set_passive_inv:
  assumes "reconnect_inv f" and "time_ok now"
  shows "reconnect_inv (reconnect_set_passive f b now)"
  using assms by (auto simp: reconnect_set_passive_def Let_def case_prod_unfold intro!: enter_backoff_inv)

lemma enable_inv:
  assumes "reconnect_inv f" and "time_ok now"
  shows "reconnect_inv (reconnect_enable f now)"
  using assms by (auto simp: reconnect_enable_def Let_def case_prod_unfold intro!: enter_backoff_inv)

lemma time_ok_entered: "reconnect_inv f \<Longrightarrow> rc_state_entered f \<noteq> LLONG_MIN"
  by (auto simp: reconnect_inv_def time_ok_def LLONG_MIN_def)

lemma run_total: "reconnect_inv f \<Longrightarrow> \<exists>a f'. reconnect_run f now = Some (a, f')"
  using time_ok_entered[of f] by (simp add: reconnect_run_def reconnect_deadline_def split: state.split)

lemma run_inv_fsm:
  assumes "reconnect_inv f" and "time_ok now" and "reconnect_run f now = Some (a, f')"
  shows "reconnect_inv f'"
proof -
  have "f' = f \<or> (\<exists>l m. f' = vlog l m f) \<or>
    (is_connected_state (rc_state f) \<and> (\<exists>l m. f' = reconnect_transition (vlog l m f) now S_IDLE))"
    using assms(3) by (auto simp: reconnect_run_def split: bind_splits if_splits state.splits)
  then show ?thesis using assms(1,2) by (auto intro!: transition_inv)
qed

lemma reconnect_op_time: "reconnect_op_ok (now, opn) \<Longrightarrow> time_ok now"
  by (cases opn) simp_all

lemma reconnect_step_inv:
  assumes inv: "reconnect_inv f" and ok: "reconnect_op_ok p"
  shows "\<exists>f'. reconnect_step p f = Some f' \<and> reconnect_inv f'"
proof -
  obtain now opn where p: "p = (now, opn)" by fastforce
  have t: "time_ok now" using ok p reconnect_op_time by blast
  show ?thesis
  proof (cases opn)
    case Run
    then show ?thesis using run_total[OF inv, of now] run_inv_fsm[OF inv t] p by fastforce
  next
    case (SetBackoff mn mx)
    then show ?thesis using set_backoff_inv[OF inv] ok p by simp
  next
    case (SetProbeInterval x)
    then show ?thesis using inv ok p
      by (auto simp: reconnect_set_probe_interval_def reconnect_inv_def INT_MAX_def max_def)
  next
    case Activity
    then show ?thesis using inv t p by (auto simp: reconnect_activity_def intro!: transition_inv)
  next
    case (ConnectFailed e)
    then show ?thesis using disconnected_inv[OF connecting_inv[OF inv t] t] p
      by (simp add: reconnect_connect_failed_def)
  next
    case (ListenError e)
    then show ?thesis using disconnected_inv[OF inv t] inv p by (simp add: reconnect_listen_error_def)
  qed (use inv t p set_passive_inv[OF inv t] enable_inv[OF inv t] disconnected_inv[OF inv t] connecting_inv[OF inv t]
        connected_inv[OF inv t]
      in \<open>auto simp: reconnect_set_quiet_def reconnect_set_name_def reconnect_set_max_tries_def
        reconnect_set_backoff_free_tries_def reconnect_disable_def reconnect_force_reconnect_def
        reconnect_listening_def reconnect_receive_attempted_def intro!: transition_inv\<close>)
qed

lemma create_inv: "time_ok now \<Longrightarrow> reconnect_inv (reconnect_create now)"
  by (simp add: reconnect_inv_def reconnect_create_def RECONNECT_DEFAULT_MIN_BACKOFF_def
      RECONNECT_DEFAULT_MAX_BACKOFF_def RECONNECT_DEFAULT_PROBE_INTERVAL_def INT_MAX_def)

subsection \<open>Specification: being connected\<close>

text \<open>
  What a client can tell from the calls it makes: whether the connection is up, as a function of the
  last call that concerns it.
\<close>

fun connected_spec :: "int \<times> reconnect_op \<Rightarrow> bool \<Rightarrow> bool" where
  "connected_spec (now, Connected) up = True"
| "connected_spec (now, Disable) up = False"
| "connected_spec (now, ForceReconnect) up = False"
| "connected_spec (now, Disconnected e) up = False"
| "connected_spec (now, Connecting) up = False"
| "connected_spec (now, Listening) up = False"
| "connected_spec (now, ConnectFailed e) up = False"
| "connected_spec (now, opn) up = up"

lemma disconnected_state:
  "rc_state (reconnect_disconnected f now e) =
     (if rc_state f \<in> {S_BACKOFF, S_VOID} then rc_state f
      else if rc_max_tries f > 0 then S_BACKOFF else S_VOID)"
  by (simp add: reconnect_disconnected_def Let_def case_prod_unfold)

lemma run_connected:
  assumes "reconnect_run f now = Some (a, f')"
  shows "is_connected_state (rc_state f') = is_connected_state (rc_state f)"
  using assms by (auto simp: reconnect_run_def split: bind_splits if_splits state.splits)

lemma reconnect_step_connected:
  assumes "reconnect_step (now, opn) f = Some f'"
  shows "reconnect_is_connected f' = connected_spec (now, opn) (reconnect_is_connected f)"
proof (cases opn)
  case Run
  then show ?thesis using assms run_connected by (auto simp: reconnect_is_connected_def)
qed (use assms in \<open>auto simp: reconnect_is_connected_def reconnect_ops disconnected_state
  reconnect_set_backoff_def reconnect_set_passive_def reconnect_listen_error_def
  reconnect_connect_failed_def is_connected_state_def Let_def case_prod_unfold split: if_splits\<close>)

interpretation fsm: op_refinement reconnect_step reconnect_op_ok reconnect_inv reconnect_is_connected connected_spec
proof unfold_locales
  fix s opn s'
  show "reconnect_inv s \<Longrightarrow> reconnect_op_ok opn \<Longrightarrow> \<exists>s'. reconnect_step opn s = Some s' \<and> reconnect_inv s'"
    by (rule reconnect_step_inv)
  show "reconnect_step opn s = Some s' \<Longrightarrow>
    reconnect_is_connected s' = connected_spec opn (reconnect_is_connected s)"
    using reconnect_step_connected by (cases opn) blast
qed

subsection \<open>What the documentation says of being connected\<close>

fun ends_connection :: "reconnect_op \<Rightarrow> bool" where
  "ends_connection (ConnectFailed e) = True"
| "ends_connection (Disconnected e) = True"
| "ends_connection Disable = True"
| "ends_connection opn = False"

text \<open>\<open>reconnect_connected\<close> was called, and none of the three functions that end a connection since.\<close>

definition connected_most_recently :: "(int \<times> reconnect_op) list \<Rightarrow> bool" where
  "connected_most_recently ops \<longleftrightarrow>
     (\<exists>before now after. ops = before @ (now, Connected) # after \<and> (\<forall>c \<in> set after. \<not> ends_connection (snd c)))"

text \<open>No call starts another attempt, or listens, or forces a reconnection while there is a connection.\<close>

definition orderly_calls :: "(int \<times> reconnect_op) list \<Rightarrow> bool" where
  "orderly_calls ops \<longleftrightarrow>
     (\<forall>before now opn after. ops = before @ (now, opn) # after \<longrightarrow> opn \<in> {ForceReconnect, Connecting, Listening} \<longrightarrow>
        \<not> connected_most_recently before)"

lemma connected_most_recently_Nil [simp]: "\<not> connected_most_recently []"
  by (simp add: connected_most_recently_def)

lemma connected_most_recently_snoc:
  "connected_most_recently (ops @ [(now, opn)]) \<longleftrightarrow>
     opn = Connected \<or> \<not> ends_connection opn \<and> connected_most_recently ops"
proof
  assume "connected_most_recently (ops @ [(now, opn)])"
  then obtain b t a where a: "ops @ [(now, opn)] = b @ (t, Connected) # a" "\<forall>c \<in> set a. \<not> ends_connection (snd c)"
    unfolding connected_most_recently_def by blast
  then show "opn = Connected \<or> \<not> ends_connection opn \<and> connected_most_recently ops"
  proof (cases a rule: rev_cases)
    case (snoc a' c)
    then have "ops = b @ (t, Connected) # a'" "c = (now, opn)" using a(1) by simp_all
    then show ?thesis using a(2) snoc unfolding connected_most_recently_def by auto
  qed simp
next
  assume "opn = Connected \<or> \<not> ends_connection opn \<and> connected_most_recently ops"
  then show "connected_most_recently (ops @ [(now, opn)])"
  proof (elim disjE conjE)
    assume "opn = Connected"
    then show ?thesis unfolding connected_most_recently_def by (intro exI[of _ ops] exI[of _ now] exI[of _ "[]"]) simp
  next
    assume e: "\<not> ends_connection opn" and "connected_most_recently ops"
    then obtain b t a where "ops = b @ (t, Connected) # a" "\<forall>c \<in> set a. \<not> ends_connection (snd c)"
      unfolding connected_most_recently_def by blast
    then show ?thesis using e unfolding connected_most_recently_def
      by (intro exI[of _ b] exI[of _ t] exI[of _ "a @ [(now, opn)]"]) auto
  qed
qed

lemma orderly_calls_Nil [simp]: "orderly_calls []"
  by (simp add: orderly_calls_def)

lemma orderly_calls_snoc:
  "orderly_calls (ops @ [(now, opn)]) \<longleftrightarrow>
     orderly_calls ops \<and> (opn \<in> {ForceReconnect, Connecting, Listening} \<longrightarrow> \<not> connected_most_recently ops)"
proof -
  have "ops @ [(now, opn)] = b @ (t, p) # a \<longleftrightarrow> (\<exists>a'. a = a' @ [(now, opn)] \<and> ops = b @ (t, p) # a') \<or> (a = [] \<and> b = ops \<and> t = now \<and> p = opn)"
    for b t p a by (cases a rule: rev_cases) auto
  then show ?thesis unfolding orderly_calls_def by auto
qed

lemma connected_spec_documented: "orderly_calls ops \<Longrightarrow> fold connected_spec ops False = connected_most_recently ops"
proof (induction ops rule: rev_induct)
  case (snoc c ops)
  obtain now opn where "c = (now, opn)" by fastforce
  then show ?case using snoc by (cases opn) (simp_all add: connected_most_recently_snoc orderly_calls_snoc)
qed simp

subsection \<open>Limited tries\<close>

text \<open>The number of times the back-off state was entered, from the trace.\<close>

definition backoff_entries :: "reconnect \<Rightarrow> nat" where
  "backoff_entries f = length (filter (\<lambda>(l, n, m). m = Entering S_BACKOFF) (rc_log f))"

lemma entries_vlog [simp]:
  "backoff_entries (vlog l m f) = backoff_entries f + (if m = Entering S_BACKOFF then 1 else 0)"
  by (simp add: backoff_entries_def)

lemma entries_transition [simp]:
  "backoff_entries (reconnect_transition f now s) = backoff_entries f + (if s = S_BACKOFF then 1 else 0)"
  by (simp add: backoff_entries_def)

lemma entries_may_retry [simp]: "backoff_entries (snd (reconnect_may_retry f)) = backoff_entries f"
  by (simp add: backoff_entries_def)

lemma entries_update [simp]:
  "backoff_entries (f\<lparr>rc_info := a\<rparr>) = backoff_entries f"
  "backoff_entries (f\<lparr>rc_name := n\<rparr>) = backoff_entries f"
  "backoff_entries (f\<lparr>rc_backoff := x\<rparr>) = backoff_entries f"
  "backoff_entries (f\<lparr>rc_min_backoff := x\<rparr>) = backoff_entries f"
  "backoff_entries (f\<lparr>rc_max_backoff := x\<rparr>) = backoff_entries f"
  "backoff_entries (f\<lparr>rc_probe_interval := x\<rparr>) = backoff_entries f"
  "backoff_entries (f\<lparr>rc_backoff_free_tries := t\<rparr>) = backoff_entries f"
  "backoff_entries (f\<lparr>rc_last_activity := x\<rparr>) = backoff_entries f"
  "backoff_entries (f\<lparr>rc_last_connected := x\<rparr>) = backoff_entries f"
  "backoff_entries (f\<lparr>rc_last_disconnected := x\<rparr>) = backoff_entries f"
  "backoff_entries (f\<lparr>rc_last_receive_attempt := x\<rparr>) = backoff_entries f"
  by (simp_all add: backoff_entries_def)

lemma entries_report [simp]: "backoff_entries (disconnected_report f e) = backoff_entries f"
  by (simp add: disconnected_report_def)

lemma entries_back_off [simp]: "backoff_entries (disconnected_back_off f) = backoff_entries f"
  by (simp add: disconnected_back_off_def Let_def)

lemma entries_connecting [simp]: "backoff_entries (reconnect_connecting f now) = backoff_entries f"
  by (simp add: reconnect_connecting_def Let_def)

lemma tries_connecting [simp]: "rc_max_tries (reconnect_connecting f now) = rc_max_tries f"
  by (simp add: reconnect_connecting_def Let_def)

text \<open>\<open>k\<close> entries into the back-off state used no try.\<close>

definition tries_slack :: "nat \<Rightarrow> reconnect \<Rightarrow> reconnect \<Rightarrow> bool" where
  "tries_slack k f f' \<longleftrightarrow> rc_max_tries f' \<noteq> UINT_MAX \<and>
     unat (rc_max_tries f') + backoff_entries f' = unat (rc_max_tries f) + backoff_entries f + k"

abbreviation tries_balance :: "reconnect \<Rightarrow> reconnect \<Rightarrow> bool" where
  "tries_balance \<equiv> tries_slack 0"

lemma unat_pred: "0 < x \<Longrightarrow> Suc (unat (x - 1)) = unat x" for x :: uint32_t
  by (simp add: unat_minus_one unat_gt_0 word_gt_0)

lemma pred_not_UINT_MAX: "0 < x \<Longrightarrow> x - 1 \<noteq> UINT_MAX"
  using word_gt_0[of x] by (auto simp: UINT_MAX_def diff_eq_eq)

lemma disconnected_tries:
  assumes "rc_max_tries f \<noteq> UINT_MAX"
  shows "tries_balance f (reconnect_disconnected f now e)"
  using assms unat_pred[of "rc_max_tries f"] pred_not_UINT_MAX[of "rc_max_tries f"]
  by (auto simp: tries_slack_def reconnect_disconnected_def Let_def case_prod_unfold)

lemma tries_balance_same:
  assumes "rc_max_tries f \<noteq> UINT_MAX" and "rc_max_tries f' = rc_max_tries f"
    and "backoff_entries f' = backoff_entries f"
  shows "tries_balance f f'"
  using assms by (simp add: tries_slack_def)

text \<open>Only switching a client that is connecting, or about to reconnect, to passive mode backs off for free.\<close>

fun passive_call :: "int \<times> reconnect_op \<Rightarrow> bool" where
  "passive_call (now, SetPassive True) = True"
| "passive_call (now, opn) = False"

fun keeps_tries :: "int \<times> reconnect_op \<Rightarrow> bool" where
  "keeps_tries (now, SetMaxTries n) = False"
| "keeps_tries (now, opn) = True"

lemma set_passive_tries:
  assumes "rc_max_tries f \<noteq> UINT_MAX"
  shows "\<exists>k \<le> (if b then 1 else 0). tries_slack k f (reconnect_set_passive f b now)"
proof (cases "rc_passive f \<noteq> b \<and> b \<and> rc_state f \<in> {S_CONNECTING, S_RECONNECT}")
  case True
  then have "tries_slack 1 f (reconnect_set_passive f b now)"
    using assms by (auto simp: tries_slack_def reconnect_set_passive_def Let_def backoff_entries_def)
  then show ?thesis using True by auto
next
  case False
  then have "tries_slack 0 f (reconnect_set_passive f b now)"
    using assms unat_pred[of "rc_max_tries f"] pred_not_UINT_MAX[of "rc_max_tries f"]
    by (auto simp: tries_slack_def reconnect_set_passive_def Let_def case_prod_unfold backoff_entries_def)
  then show ?thesis by auto
qed

lemma run_tries:
  assumes "reconnect_run f now = Some (a, f')"
  shows "rc_max_tries f' = rc_max_tries f" and "backoff_entries f' = backoff_entries f"
  using assms by (auto simp: reconnect_run_def split: bind_splits if_splits state.splits)

lemma reconnect_step_tries:
  assumes fin: "rc_max_tries f \<noteq> UINT_MAX" and op: "keeps_tries (now, opn)"
    and step: "reconnect_step (now, opn) f = Some f'"
  shows "\<exists>k \<le> (if passive_call (now, opn) then 1 else 0). tries_slack k f f'"
proof (cases "\<exists>b. opn = SetPassive b")
  case True
  then obtain b where b: "opn = SetPassive b" by blast
  then show ?thesis using step set_passive_tries[OF fin, of b now] by (cases b) auto
next
  case False
  have "tries_balance f f'"
  proof (cases opn)
    case (Disconnected e)
    then show ?thesis using step disconnected_tries[OF fin, of now e] by auto
  next
    case (ConnectFailed e)
    then show ?thesis using step disconnected_tries[of "reconnect_connecting f now" now e] fin
      by (simp add: reconnect_connect_failed_def tries_slack_def)
  next
    case (ListenError e)
    then show ?thesis using step disconnected_tries[OF fin, of now e] fin
      by (auto simp: reconnect_listen_error_def tries_slack_def split: if_splits)
  next
    case Enable
    then show ?thesis using step fin unat_pred[of "rc_max_tries f"] pred_not_UINT_MAX[of "rc_max_tries f"]
      by (auto simp: tries_slack_def reconnect_enable_def Let_def case_prod_unfold split: if_splits)
  next
    case Run
    then show ?thesis using step run_tries[of f now] by (auto intro!: tries_balance_same fin)
  qed (use step op False in \<open>auto simp: reconnect_ops reconnect_set_backoff_def Let_def intro!: tries_balance_same fin\<close>)
  then show ?thesis by auto
qed

lemma reconnect_run_tries:
  assumes "rc_max_tries f \<noteq> UINT_MAX" and "list_all keeps_tries ops" and "run_ops reconnect_step ops f = Some f'"
  shows "\<exists>k \<le> length (filter passive_call ops). tries_slack k f f'"
  using assms
proof (induction ops arbitrary: f)
  case (Cons p ops)
  obtain now opn where p: "p = (now, opn)" by fastforce
  obtain f1 where f1: "reconnect_step p f = Some f1" "run_ops reconnect_step ops f1 = Some f'"
    using Cons.prems(3) by (auto split: bind_splits)
  obtain k where k: "k \<le> (if passive_call p then 1 else 0)" "tries_slack k f f1"
    using reconnect_step_tries[of f now opn f1] Cons.prems(1,2) f1(1) p by auto
  then obtain l where l: "l \<le> length (filter passive_call ops)" "tries_slack l f1 f'"
    using Cons.IH[of f1] Cons.prems(2) f1(2) by (auto simp: tries_slack_def)
  have "tries_slack (k + l) f f'" using k(2) l(2) by (simp add: tries_slack_def)
  then show ?case using k(1) l(1) by (intro exI[of _ "k + l"]) auto
qed (simp add: tries_slack_def)

subsection \<open>Connected time\<close>

text \<open>The time a client has been connected by \<open>tend\<close>, from the calls it made since \<open>t\<close>.\<close>

fun connected_ms :: "bool \<Rightarrow> int \<Rightarrow> (int \<times> reconnect_op) list \<Rightarrow> int \<Rightarrow> int" where
  "connected_ms up t [] tend = (if up then tend - t else 0)"
| "connected_ms up t ((now, opn) # ops) tend =
     (if up then now - t else 0) + connected_ms (connected_spec (now, opn) up) now ops tend"

definition total_at :: "reconnect \<Rightarrow> int \<Rightarrow> uint32_t" where
  "total_at f now = rs_total_connected_duration (reconnect_get_stats f now)"

lemma total_at_eq:
  assumes "reconnect_inv f"
  shows "total_at f now = rc_total_connected_duration f
    + (if is_connected_state (rc_state f) then word_of_int (now - rc_last_connected f) else 0)"
  using assms by (auto simp: total_at_def reconnect_get_stats_def reconnect_get_last_connect_elapsed_def
      reconnect_inv_def time_ok_def LLONG_MAX_def)

lemma total_at_shift:
  assumes "reconnect_inv f"
  shows "total_at f t' = total_at f t + word_of_int (if reconnect_is_connected f then t' - t else 0)"
  by (simp add: total_at_eq[OF assms] reconnect_is_connected_def flip: wi_hom_add)

lemma connecting_total:
  "rc_total_connected_duration (reconnect_connecting f now) = rc_total_connected_duration f
    + (if is_connected_state (rc_state f) then word_of_int (now - rc_last_connected f) else 0)"
  by (auto simp: reconnect_connecting_def Let_def)

lemma disconnected_total:
  "rc_total_connected_duration (reconnect_disconnected f now e) = rc_total_connected_duration f
    + (if is_connected_state (rc_state f) then word_of_int (now - rc_last_connected f) else 0)"
  by (auto simp: reconnect_disconnected_def Let_def case_prod_unfold is_connected_state_def)

lemma run_total_duration:
  assumes "reconnect_run f now = Some (a, f')"
  shows "rc_total_connected_duration f' = rc_total_connected_duration f"
    and "rc_last_connected f' = rc_last_connected f"
  using assms by (auto simp: reconnect_run_def split: bind_splits if_splits state.splits)

lemma total_at_step:
  assumes inv: "reconnect_inv f" and ok: "reconnect_op_ok (now, opn)"
    and step: "reconnect_step (now, opn) f = Some f'"
  shows "total_at f' now = total_at f now"
proof -
  have inv': "reconnect_inv f'" using reconnect_step_inv[OF inv ok] step by simp
  have c: "is_connected_state (rc_state f') = connected_spec (now, opn) (is_connected_state (rc_state f))"
    using reconnect_step_connected[OF step] by (simp add: reconnect_is_connected_def)
  show ?thesis unfolding total_at_eq[OF inv] total_at_eq[OF inv']
  proof (cases opn)
    case Run
    then show "rc_total_connected_duration f' + (if is_connected_state (rc_state f')
        then word_of_int (now - rc_last_connected f') else 0) = rc_total_connected_duration f +
      (if is_connected_state (rc_state f) then word_of_int (now - rc_last_connected f) else 0)"
      using step run_total_duration[of f now] c by auto
  qed (use step c in \<open>auto simp: reconnect_set_quiet_def reconnect_set_name_def reconnect_set_max_tries_def
      reconnect_set_backoff_free_tries_def reconnect_set_probe_interval_def reconnect_enable_def
      reconnect_disable_def reconnect_force_reconnect_def reconnect_listening_def reconnect_connected_def
      reconnect_activity_def reconnect_receive_attempted_def reconnect_set_backoff_def
      reconnect_set_passive_def reconnect_listen_error_def reconnect_connect_failed_def connecting_total
      disconnected_total Let_def case_prod_unfold is_connected_state_def split: if_splits\<close>)
qed

lemma total_at_run:
  assumes "reconnect_inv f" and "list_all reconnect_op_ok ops" and "run_ops reconnect_step ops f = Some f'"
  shows "total_at f' tend = total_at f t + word_of_int (connected_ms (reconnect_is_connected f) t ops tend)"
  using assms
proof (induction ops arbitrary: f t)
  case Nil
  then show ?case using total_at_shift[of f tend t] by simp
next
  case (Cons p ops)
  obtain now opn where p: "p = (now, opn)" by fastforce
  have ok: "reconnect_op_ok (now, opn)" using Cons.prems(2) p by simp
  obtain f1 where f1: "reconnect_step (now, opn) f = Some f1" "run_ops reconnect_step ops f1 = Some f'"
    using Cons.prems(3) p by (auto split: bind_splits)
  have inv1: "reconnect_inv f1" using reconnect_step_inv[OF Cons.prems(1) ok] f1(1) by simp
  have "total_at f' tend = total_at f1 now + word_of_int (connected_ms (reconnect_is_connected f1) now ops tend)"
    using Cons.IH[OF inv1] Cons.prems(2) f1(2) by simp
  then show ?case
    using total_at_step[OF Cons.prems(1) ok f1(1)] total_at_shift[OF Cons.prems(1), of now t]
      reconnect_step_connected[OF f1(1)] p by (simp add: add.assoc flip: wi_hom_add)
qed

subsection \<open>Back-off after consecutive failures\<close>

definition fail_attempts :: "(int \<times> int) list \<Rightarrow> reconnect \<Rightarrow> reconnect" where
  "fail_attempts ts f = fold (\<lambda>(now, e) f. reconnect_connect_failed f now e) ts f"

text \<open>The back-off after the first failure and \<open>n\<close> more.\<close>

definition backoff_after :: "int \<Rightarrow> int \<Rightarrow> nat \<Rightarrow> int" where
  "backoff_after mn mx n = (if n = 0 \<or> mn * 2 ^ (n - 1) < mx div 2 then mn * 2 ^ n else mx)"

lemma backoff_after_Suc:
  assumes "0 < mn" and "mn \<le> mx"
  shows "backoff_after mn mx (Suc n) =
    (if backoff_after mn mx n < mx div 2 then backoff_after mn mx n * 2 else mx)"
proof (cases n)
  case (Suc k)
  have "mn * 2 ^ k \<le> mn * 2 ^ Suc k" using assms by simp
  then show ?thesis using Suc assms by (auto simp: backoff_after_def)
qed (simp add: backoff_after_def)

lemma connect_failed_fields:
  assumes "rc_max_tries f \<noteq> 0"
  shows "rc_backoff (reconnect_connect_failed f now e) =
      (if rc_backoff_free_tries f > 1 then 0
       else if rc_backoff f < rc_min_backoff f then rc_min_backoff f
       else if rc_backoff f < c_div (rc_max_backoff f) 2 then rc_backoff f * 2 else rc_max_backoff f)"
    and "rc_max_tries (reconnect_connect_failed f now e) = (if rc_max_tries f = UINT_MAX then UINT_MAX else rc_max_tries f - 1)"
    and "rc_backoff_free_tries (reconnect_connect_failed f now e) =
      (if rc_backoff_free_tries f > 1 then rc_backoff_free_tries f - 1 else rc_backoff_free_tries f)"
    and "rc_min_backoff (reconnect_connect_failed f now e) = rc_min_backoff f"
    and "rc_max_backoff (reconnect_connect_failed f now e) = rc_max_backoff f"
    and "rc_state (reconnect_connect_failed f now e) = S_BACKOFF"
proof -
  let ?g = "reconnect_connecting f now"
  have g: "rc_max_tries ?g = rc_max_tries f" "rc_backoff_free_tries ?g = rc_backoff_free_tries f"
    "rc_min_backoff ?g = rc_min_backoff f" "rc_max_backoff ?g = rc_max_backoff f" "rc_backoff ?g = rc_backoff f"
    "rc_state ?g = S_CONNECTING"
    by (auto simp: reconnect_connecting_def Let_def)
  have "rc_max_tries f > 0" using assms by (simp add: word_gt_0)
  then have d: "reconnect_connect_failed f now e =
      reconnect_transition (disconnected_back_off (snd (reconnect_may_retry (disconnected_report ?g e)))) now S_BACKOFF"
    using g(1) by (simp add: reconnect_connect_failed_def reconnect_disconnected_def Let_def case_prod_unfold)
  show "rc_backoff (reconnect_connect_failed f now e) =
      (if rc_backoff_free_tries f > 1 then 0
       else if rc_backoff f < rc_min_backoff f then rc_min_backoff f
       else if rc_backoff f < c_div (rc_max_backoff f) 2 then rc_backoff f * 2 else rc_max_backoff f)"
    unfolding d using g by (simp add: rc_backoff_back_off)
  show "rc_max_tries (reconnect_connect_failed f now e) = (if rc_max_tries f = UINT_MAX then UINT_MAX else rc_max_tries f - 1)"
    unfolding d using g assms by (simp add: reconnect_may_retry_def word_gt_0)
  show "rc_backoff_free_tries (reconnect_connect_failed f now e) =
      (if rc_backoff_free_tries f > 1 then rc_backoff_free_tries f - 1 else rc_backoff_free_tries f)"
    unfolding d using g(2) by (simp add: disconnected_back_off_def Let_def)
  show "rc_min_backoff (reconnect_connect_failed f now e) = rc_min_backoff f"
    and "rc_max_backoff (reconnect_connect_failed f now e) = rc_max_backoff f"
    and "rc_state (reconnect_connect_failed f now e) = S_BACKOFF"
    unfolding d using g by simp_all
qed

text \<open>The failures after which there is no wait: all but the last of the back-off-free tries.\<close>

definition free_failures :: "reconnect \<Rightarrow> nat" where
  "free_failures f = unat (rc_backoff_free_tries f) - 1"

definition backoff_schedule :: "reconnect \<Rightarrow> nat \<Rightarrow> int" where
  "backoff_schedule f n =
     (if n \<le> free_failures f then 0 else backoff_after (rc_min_backoff f) (rc_max_backoff f) (n - free_failures f - 1))"

text \<open>\<open>g\<close> is \<open>f\<close> after \<open>n\<close> failed attempts.\<close>

definition failed_times :: "reconnect \<Rightarrow> nat \<Rightarrow> reconnect \<Rightarrow> bool" where
  "failed_times f n g \<longleftrightarrow> free_failures g = free_failures f - n \<and>
     rc_min_backoff g = rc_min_backoff f \<and> rc_max_backoff g = rc_max_backoff f \<and>
     (if rc_max_tries f = UINT_MAX then rc_max_tries g = UINT_MAX
      else rc_max_tries g \<noteq> UINT_MAX \<and> unat (rc_max_tries g) = unat (rc_max_tries f) - n) \<and>
     (if n \<le> free_failures f then rc_backoff g < rc_min_backoff f else True) \<and>
     (if n = 0 then True else rc_backoff g = backoff_schedule f n)"

lemma backoff_after_ge:
  assumes "0 < mn" and "mn \<le> mx"
  shows "mn \<le> backoff_after mn mx n"
proof -
  have "mn * 1 \<le> mn * 2 ^ n" using assms(1) by (intro mult_left_mono) simp_all
  then show ?thesis using assms(2) by (simp add: backoff_after_def)
qed

lemma connect_failed_once:
  assumes lim: "0 < rc_min_backoff f" "rc_min_backoff f \<le> rc_max_backoff f"
    and g: "failed_times f n g" and tries: "rc_max_tries f = UINT_MAX \<or> n < unat (rc_max_tries f)"
  shows "failed_times f (Suc n) (reconnect_connect_failed g now e)"
proof -
  have nz: "rc_max_tries g \<noteq> 0" using g tries by (auto simp: failed_times_def UINT_MAX_def split: if_splits)
  note c = connect_failed_fields[OF nz, of now e]
  have gt: "rc_backoff_free_tries g > 1 \<longleftrightarrow> n < free_failures f"
    using g by (auto simp: failed_times_def free_failures_def word_less_nat_alt)
  have fg: "free_failures g = free_failures f - n" using g by (simp add: failed_times_def)
  have free: "free_failures (reconnect_connect_failed g now e) = free_failures f - Suc n"
  proof (cases "rc_backoff_free_tries g > 1")
    case True
    then have "rc_backoff_free_tries g \<noteq> 0" by auto
    then show ?thesis using True fg unat_minus_one[of "rc_backoff_free_tries g"] by (simp add: free_failures_def c(3))
  next
    case False
    then show ?thesis using gt fg by (simp add: free_failures_def c(3))
  qed
  have tr: "if rc_max_tries f = UINT_MAX then rc_max_tries (reconnect_connect_failed g now e) = UINT_MAX
      else rc_max_tries (reconnect_connect_failed g now e) \<noteq> UINT_MAX \<and>
        unat (rc_max_tries (reconnect_connect_failed g now e)) = unat (rc_max_tries f) - Suc n"
    using g nz pred_not_UINT_MAX[of "rc_max_tries g"] unat_minus_one[OF nz] unfolding c(2)
    by (auto simp: failed_times_def word_gt_0)
  have bo: "rc_backoff (reconnect_connect_failed g now e) = backoff_schedule f (Suc n)"
  proof (cases "n \<le> free_failures f")
    case True
    then have "rc_backoff g < rc_min_backoff g" using g by (simp add: failed_times_def)
    then show ?thesis using True gt g unfolding c(1)
      by (auto simp: backoff_schedule_def failed_times_def backoff_after_def)
  next
    case False
    let ?k = "n - free_failures f - 1"
    have k: "Suc n - free_failures f - 1 = Suc ?k" using False by simp
    have b: "rc_backoff g = backoff_after (rc_min_backoff f) (rc_max_backoff f) ?k"
      using g False by (simp add: failed_times_def backoff_schedule_def)
    then have "\<not> rc_backoff g < rc_min_backoff g"
      using backoff_after_ge[OF lim, of ?k] g by (simp add: failed_times_def)
    then show ?thesis using False gt g b backoff_after_Suc[OF lim, of ?k] lim k unfolding c(1)
      by (auto simp: backoff_schedule_def failed_times_def c_div_nonneg)
  qed
  have "rc_backoff (reconnect_connect_failed g now e) < rc_min_backoff f" if "Suc n \<le> free_failures f"
    using bo that lim(1) by (simp add: backoff_schedule_def)
  then show ?thesis using free tr bo c(4,5) g by (simp add: failed_times_def)
qed

lemma fail_attempts_times:
  assumes "0 < rc_min_backoff f" "rc_min_backoff f \<le> rc_max_backoff f" "rc_backoff f < rc_min_backoff f"
    and "rc_max_tries f = UINT_MAX \<or> length ts \<le> unat (rc_max_tries f)"
  shows "failed_times f (length ts) (fail_attempts ts f)"
  using assms(4)
proof (induction ts rule: rev_induct)
  case Nil
  then show ?case using assms(3) by (simp add: failed_times_def fail_attempts_def)
next
  case (snoc t ts)
  then have "failed_times f (length ts) (fail_attempts ts f)" by auto
  from connect_failed_once[OF assms(1,2) this, of "fst t" "snd t"] snoc.prems show ?case
    by (auto simp: fail_attempts_def case_prod_unfold)
qed

subsection \<open>Timers\<close>

lemma deadline_Some:
  assumes "reconnect_inv f"
  obtains d where "reconnect_deadline f now = Some d"
  using assms time_ok_entered[OF assms] by (auto simp: reconnect_deadline_def)

lemma run_before_deadline:
  assumes "reconnect_deadline f now = Some d" and "now < d"
  shows "reconnect_run f now = Some (NO_ACTION, f)"
  using assms by (simp add: reconnect_run_def)

text \<open>Up to the deadline computed at an earlier time nothing is due.\<close>

lemma deadline_stable:
  assumes "reconnect_deadline f now = Some d" and "now \<le> now'" and "now' < d"
  shows "\<exists>d'. reconnect_deadline f now' = Some d' \<and> now' < d'"
  using assms by (auto simp: reconnect_deadline_def probe_deadline_def Let_def split: if_splits state.splits)

lemma run_at_deadline:
  assumes "reconnect_deadline f now = Some d" and "rc_state f \<notin> {S_VOID, S_LISTENING}" and "d \<le> now"
  shows "\<exists>a f'. reconnect_run f now = Some (a, f') \<and> a \<noteq> NO_ACTION"
  using assms by (cases "rc_state f") (simp_all add: reconnect_run_def)

lemma deadline_reached:
  assumes "reconnect_deadline f now = Some d" and "d \<noteq> LLONG_MAX" and "now' = now + max 0 (d - now)"
  shows "(\<exists>d'. reconnect_deadline f now' = Some d' \<and> d' \<le> now') \<longleftrightarrow>
      rc_state f \<notin> {S_ACTIVE, S_IDLE} \<or> d \<le> now \<or> rc_last_receive_attempt f \<ge> now'"
    and "rc_state f \<notin> {S_VOID, S_LISTENING}"
  using assms by (auto simp: reconnect_deadline_def probe_deadline_def Let_def max_def split: if_splits state.splits)

lemma due_at_deadline:
  assumes "reconnect_deadline f now = Some d" and "d \<noteq> LLONG_MAX"
  shows "(\<exists>a f'. reconnect_run f (now + max 0 (d - now)) = Some (a, f') \<and> a \<noteq> NO_ACTION) \<longleftrightarrow>
    rc_state f \<notin> {S_ACTIVE, S_IDLE} \<or> max 0 (d - now) = 0 \<or> rc_last_receive_attempt f \<ge> now + max 0 (d - now)"
proof -
  let ?n = "now + max 0 (d - now)"
  note r = deadline_reached[OF assms refl]
  have "(\<exists>a f'. reconnect_run f ?n = Some (a, f') \<and> a \<noteq> NO_ACTION) \<longleftrightarrow> (\<exists>d'. reconnect_deadline f ?n = Some d' \<and> d' \<le> ?n)"
  proof (cases "reconnect_deadline f ?n")
    case None
    then show ?thesis by (simp add: reconnect_run_def)
  next
    case (Some d')
    then show ?thesis using run_at_deadline[OF Some r(2)] run_before_deadline[OF Some] by (cases "d' \<le> ?n") auto
  qed
  then show ?thesis using r(1) by auto
qed

text \<open>
  Asking for the default limits while backing off cancels the current back-off: the clamp uses the
  argument 0 instead of the default maximum it stands for.
\<close>

lemma set_backoff_default_cancels_backoff:
  assumes "rc_state f = S_BACKOFF" and "0 < rc_backoff f"
  shows "rc_backoff (reconnect_set_backoff f 0 0) = 0"
    and "rc_max_backoff (reconnect_set_backoff f 0 0) = RECONNECT_DEFAULT_MAX_BACKOFF"
  using assms by (simp_all add: reconnect_set_backoff_def Let_def RECONNECT_DEFAULT_MAX_BACKOFF_def)

subsection \<open>Properties\<close>

text \<open>
  C7: Safety of every client.  From \<open>reconnect_create\<close>, any sequence of calls at valid times passes
  the assertion on \<open>state_entered\<close>, keeps 1000 \<open>\<le>\<close> \<open>min_backoff\<close> \<open>\<le>\<close> \<open>max_backoff\<close>, keeps the probe
  interval 0 or at least 1000, and never waits in \<open>S_BACKOFF\<close> for longer than \<open>max_backoff\<close>.
\<close>
theorem reconnect_always_bounded:
  assumes "time_ok t0" and "list_all reconnect_op_ok ops"
  shows "\<exists>f. run_ops reconnect_step ops (reconnect_create t0) = Some f \<and>
    1000 \<le> reconnect_get_min_backoff f \<and> reconnect_get_min_backoff f \<le> reconnect_get_max_backoff f \<and>
    (reconnect_get_probe_interval f = 0 \<or> 1000 \<le> reconnect_get_probe_interval f) \<and>
    0 \<le> rc_backoff f \<and> (rc_state f = S_BACKOFF \<longrightarrow> rc_backoff f \<le> reconnect_get_max_backoff f)"
  using fsm.run_inv[OF create_inv[OF assms(1)] assms(2)]
  by (auto simp: reconnect_inv_def reconnect_get_min_backoff_def reconnect_get_max_backoff_def
      reconnect_get_probe_interval_def)

theorem reconnect_always_bounded_witness:
  "\<exists>f. run_ops reconnect_step [(5, Enable), (6, ConnectFailed 111), (9, SetBackoff 0 0)] (reconnect_create 5) = Some f \<and>
     1000 \<le> reconnect_get_min_backoff f"
  using reconnect_always_bounded[of 5 "[(5, Enable), (6, ConnectFailed 111), (9, SetBackoff 0 0)]"]
  by (auto simp: time_ok_def INT_MAX_def)

text \<open>
  C8: \<open>reconnect_is_connected\<close> is what its comment says, true exactly if \<open>reconnect_connected\<close> was called
  more recently than \<open>reconnect_connect_failed\<close>, \<open>reconnect_disconnected\<close> and \<open>reconnect_disable\<close>, after
  every sequence of calls at valid times in which a client that is connected in this sense does not call
  \<open>reconnect_force_reconnect\<close>, \<open>reconnect_connecting\<close> or \<open>reconnect_listening\<close>; and \<open>seqno\<close>, which
  counts connections and disconnections and may wrap, is odd exactly while connected.
\<close>
theorem reconnect_connected_as_documented:
  assumes "time_ok t0" and "list_all reconnect_op_ok ops" and "orderly_calls ops"
  shows "\<exists>f. run_ops reconnect_step ops (reconnect_create t0) = Some f \<and>
    (reconnect_is_connected f \<longleftrightarrow> connected_most_recently ops) \<and>
    (odd (rs_seqno (reconnect_get_stats f now)) \<longleftrightarrow> connected_most_recently ops)"
proof -
  have "reconnect_is_connected (reconnect_create t0) = False"
    by (simp add: reconnect_is_connected_def reconnect_create_def)
  then show ?thesis
    using fsm.run_abs[OF create_inv[OF assms(1)] assms(2)] connected_spec_documented[OF assms(3)]
    by (auto simp: reconnect_inv_def reconnect_get_stats_def reconnect_is_connected_def)
qed

theorem reconnect_connected_as_documented_witness:
  "\<exists>f. run_ops reconnect_step [(5, Enable), (5, Connecting), (6, Connected), (9, Activity)] (reconnect_create 5) = Some f \<and>
     reconnect_is_connected f \<and> odd (rs_seqno (reconnect_get_stats f 10))"
proof -
  let ?ops = "[(5, Enable), (5, Connecting), (6, Connected), (9, Activity)] :: (int \<times> reconnect_op) list"
  have "connected_most_recently (((([] @ [(5, Enable)]) @ [(5, Connecting)]) @ [(6, Connected)]) @ [(9, Activity)])"
    "orderly_calls (((([] @ [(5, Enable)]) @ [(5, Connecting)]) @ [(6, Connected)]) @ [(9, Activity)])"
    unfolding connected_most_recently_snoc orderly_calls_snoc by simp_all
  then have "connected_most_recently ?ops" "orderly_calls ?ops" by simp_all
  moreover have "time_ok 5" "list_all reconnect_op_ok ?ops" by (simp_all add: time_ok_def)
  ultimately show ?thesis using reconnect_connected_as_documented[of 5 ?ops 10] by metis
qed

text \<open>
  C9: Exponential back-off.  Starting from a back-off below the minimum, while tries remain, the back-off
  after a number of consecutive failed attempts is 0 as long as there are back-off-free tries, and from
  then on \<open>min_backoff\<close> after one failure and \<open>min_backoff\<close> times \<open>2 ^ k\<close> after \<open>k\<close> more, until the doubling
  of a back-off that is not below half of the maximum, which gives \<open>max_backoff\<close> from then on.
\<close>
theorem reconnect_backoff_doubles:
  assumes "reconnect_inv f" and "rc_backoff f < rc_min_backoff f" and "ts \<noteq> []"
    and "rc_max_tries f = UINT_MAX \<or> length ts \<le> unat (rc_max_tries f)"
    and "free = unat (rc_backoff_free_tries f) - 1" and "k = length ts - free - 1"
  shows "rc_backoff (fail_attempts ts f) =
    (if length ts \<le> free then 0
     else if k = 0 \<or> rc_min_backoff f * 2 ^ (k - 1) < rc_max_backoff f div 2
     then rc_min_backoff f * 2 ^ k else rc_max_backoff f)"
proof -
  have "0 < rc_min_backoff f" "rc_min_backoff f \<le> rc_max_backoff f" using assms(1) by (simp_all add: reconnect_inv_def)
  from fail_attempts_times[OF this assms(2,4)] show ?thesis
    using assms(3,5,6) by (simp add: failed_times_def backoff_schedule_def backoff_after_def free_failures_def)
qed

theorem reconnect_backoff_doubles_witness:
  "rc_backoff (fail_attempts [(1, 0), (2, 0)] (reconnect_set_backoff_free_tries (reconnect_create 0) 3)) = 0 \<and>
   rc_backoff (fail_attempts [(1, 0), (2, 0), (3, 0), (4, 0)] (reconnect_set_backoff_free_tries (reconnect_create 0) 3)) = 2000"
proof -
  let ?f = "reconnect_set_backoff_free_tries (reconnect_create 0) 3"
  have "reconnect_inv (reconnect_create 0)" by (rule create_inv) (simp add: time_ok_def)
  then have i: "reconnect_inv ?f" by (simp add: reconnect_set_backoff_free_tries_def reconnect_inv_def)
  have c: "rc_max_tries ?f = UINT_MAX" "rc_backoff_free_tries ?f = 3" "rc_backoff ?f < rc_min_backoff ?f"
    "rc_min_backoff ?f = 1000" "rc_max_backoff ?f = 8000"
    by (simp_all add: reconnect_set_backoff_free_tries_def reconnect_create_def RECONNECT_DEFAULT_MIN_BACKOFF_def
        RECONNECT_DEFAULT_MAX_BACKOFF_def)
  show ?thesis
    using reconnect_backoff_doubles[OF i c(3), of "[(1, 0), (2, 0)]" 2 0]
      reconnect_backoff_doubles[OF i c(3), of "[(1, 0), (2, 0), (3, 0), (4, 0)]" 2 1] c by simp
qed

text \<open>
  C10: The timeout is exact.  Nothing is due and nothing changes before \<open>reconnect_timeout\<close>
  expires, a negative timeout means that nothing will become due, and when a timeout that was not
  clipped to \<open>INT_MAX\<close> expires an action is due, except exactly for a connected client whose timeout was
  positive and that has not attempted to receive by then.
\<close>
theorem reconnect_timeout_exact:
  assumes "reconnect_inv f" and "reconnect_timeout f now = Some t"
  shows "(now \<le> now' \<and> now' < now + t \<longrightarrow> reconnect_run f now' = Some (NO_ACTION, f)) \<and>
    (t < 0 \<and> now \<le> now' \<and> now' < LLONG_MAX \<longrightarrow> reconnect_run f now' = Some (NO_ACTION, f)) \<and>
    (0 \<le> t \<and> t < INT_MAX \<longrightarrow>
      ((\<exists>a f'. reconnect_run f (now + t) = Some (a, f') \<and> a \<noteq> NO_ACTION) \<longleftrightarrow>
        rc_state f \<notin> {S_ACTIVE, S_IDLE} \<or> t = 0 \<or> rc_last_receive_attempt f \<ge> now + t))"
proof -
  obtain d where d: "reconnect_deadline f now = Some d" using deadline_Some assms(1) by blast
  have t: "t = (if d \<noteq> LLONG_MAX then max 0 (min INT_MAX (d - now)) else -1)"
    using assms(2) d by (auto simp: reconnect_timeout_def Let_def)
  have quiet: "now \<le> now' \<Longrightarrow> now' < d \<Longrightarrow> reconnect_run f now' = Some (NO_ACTION, f)"
    using deadline_stable[OF d] run_before_deadline by blast
  have 1: "now \<le> now' \<and> now' < now + t \<longrightarrow> reconnect_run f now' = Some (NO_ACTION, f)"
    using quiet t by (auto split: if_splits)
  have 2: "t < 0 \<and> now \<le> now' \<and> now' < LLONG_MAX \<longrightarrow> reconnect_run f now' = Some (NO_ACTION, f)"
    using quiet t by (auto split: if_splits)
  have 3: "(\<exists>a f'. reconnect_run f (now + t) = Some (a, f') \<and> a \<noteq> NO_ACTION) \<longleftrightarrow>
      rc_state f \<notin> {S_ACTIVE, S_IDLE} \<or> t = 0 \<or> rc_last_receive_attempt f \<ge> now + t"
    if h: "0 \<le> t" "t < INT_MAX"
  proof -
    have m: "d \<noteq> LLONG_MAX" "t = max 0 (d - now)" using t h by (auto split: if_splits)
    show ?thesis using due_at_deadline[OF d m(1)] m(2) by simp
  qed
  show ?thesis using 1 2 3 by blast
qed

definition fsm_backoff :: reconnect where
  "fsm_backoff = reconnect_connect_failed (reconnect_create 0) 50 111"

lemma fsm_backoff_fields:
  "reconnect_inv fsm_backoff" "rc_state fsm_backoff = S_BACKOFF" "rc_state_entered fsm_backoff = 50"
  "rc_backoff fsm_backoff = 1000"
proof -
  have t: "time_ok 0" "time_ok 50" by (simp_all add: time_ok_def)
  show "reconnect_inv fsm_backoff" unfolding fsm_backoff_def reconnect_connect_failed_def
    by (intro disconnected_inv connecting_inv create_inv t)
  show "rc_state fsm_backoff = S_BACKOFF" "rc_backoff fsm_backoff = 1000"
    unfolding fsm_backoff_def
    using connect_failed_fields(1,6)[of "reconnect_create 0" 50 111]
    by (simp_all add: reconnect_create_def RECONNECT_DEFAULT_MIN_BACKOFF_def UINT_MAX_def)
  show "rc_state_entered fsm_backoff = 50"
    by (simp add: fsm_backoff_def reconnect_connect_failed_def reconnect_disconnected_def Let_def case_prod_unfold)
qed

theorem reconnect_timeout_exact_witness:
  "reconnect_timeout fsm_backoff 60 = Some 990 \<and> reconnect_run fsm_backoff 1049 = Some (NO_ACTION, fsm_backoff) \<and>
   (\<exists>a f'. reconnect_run fsm_backoff 1050 = Some (a, f') \<and> a \<noteq> NO_ACTION)"
proof -
  have t: "reconnect_timeout fsm_backoff 60 = Some 990"
    using fsm_backoff_fields by (simp add: reconnect_timeout_def reconnect_deadline_def LLONG_MIN_def LLONG_MAX_def INT_MAX_def)
  show ?thesis using reconnect_timeout_exact[OF fsm_backoff_fields(1) t, of 1049] t fsm_backoff_fields(2)
    by (simp add: INT_MAX_def)
qed

text \<open>
  C11: Keepalive.  With a probe interval \<open>p\<close>, an active connection is probed by a run exactly when
  \<open>p\<close> has passed since the last activity and a receive was attempted after that; the connection is
  then idle, activity makes it active again, and without activity the next run after another \<open>p\<close>,
  and no run before it, asks to disconnect.
\<close>
theorem reconnect_keepalive:
  assumes "reconnect_inv f" and "rc_state f = S_ACTIVE" and "rc_probe_interval f = p" and "0 < p"
    and "e = max (rc_last_activity f) (rc_state_entered f) + p"
  shows "((\<exists>f'. reconnect_run f now = Some (RECONNECT_PROBE, f')) \<longleftrightarrow> e \<le> now \<and> e \<le> rc_last_receive_attempt f) \<and>
    (\<forall>f'. reconnect_run f now = Some (RECONNECT_PROBE, f') \<longrightarrow>
      rc_state f' = S_IDLE \<and> rc_state (reconnect_activity f' t) = S_ACTIVE \<and>
      (\<forall>r t. fst (the (reconnect_run (reconnect_receive_attempted f' r) t)) =
        (if now + p \<le> t \<and> now + p \<le> r then RECONNECT_DISCONNECT else NO_ACTION)))"
proof -
  have "rc_state_entered f \<noteq> LLONG_MIN" using time_ok_entered[OF assms(1)] .
  then have r: "reconnect_run f now =
    Some (if e \<le> now \<and> e \<le> rc_last_receive_attempt f
          then (RECONNECT_PROBE, reconnect_transition (vlog VLL_DBG (SendingProbe (now - (e - p))) f) now S_IDLE)
          else (NO_ACTION, f))"
    using assms by (auto simp: reconnect_run_def reconnect_deadline_def probe_deadline_def Let_def)
  have nx: "now \<noteq> LLONG_MIN" if "e \<le> now"
    using that assms by (auto simp: reconnect_inv_def time_ok_def LLONG_MIN_def)
  have idle: "fst (the (reconnect_run (reconnect_receive_attempted g r) t)) =
      (if now + p \<le> t \<and> now + p \<le> r then RECONNECT_DISCONNECT else NO_ACTION)"
    if "rc_state g = S_IDLE" "rc_state_entered g = now" "rc_probe_interval g = p" "e \<le> now" for g r t
    using that nx assms(4)
    by (auto simp: reconnect_run_def reconnect_deadline_def probe_deadline_def Let_def reconnect_receive_attempted_def)
  show ?thesis unfolding r using idle assms(3) by (auto simp: reconnect_activity_def split: if_splits)
qed

definition fsm_active :: reconnect where
  "fsm_active = reconnect_receive_attempted (reconnect_connected (reconnect_create 0) 50) 6000"

theorem reconnect_keepalive_witness:
  "(\<exists>f'. reconnect_run fsm_active 5050 = Some (RECONNECT_PROBE, f')) \<and>
   \<not> (\<exists>f'. reconnect_run fsm_active 5049 = Some (RECONNECT_PROBE, f'))"
proof -
  have t: "time_ok 0" "time_ok 50" by (simp_all add: time_ok_def)
  have i: "reconnect_inv fsm_active" unfolding fsm_active_def reconnect_receive_attempted_def
    using connected_inv[OF create_inv[OF t(1)] t(2)] by simp
  have f: "rc_state fsm_active = S_ACTIVE" "rc_probe_interval fsm_active = 5000"
    "rc_last_activity fsm_active = 0" "rc_state_entered fsm_active = 50" "rc_last_receive_attempt fsm_active = 6000"
    by (simp_all add: fsm_active_def reconnect_receive_attempted_def reconnect_connected_def
        reconnect_connecting_def reconnect_create_def RECONNECT_DEFAULT_PROBE_INTERVAL_def Let_def)
  show ?thesis using reconnect_keepalive[OF i f(1,2), of 5050] f by simp
qed

text \<open>
  C12: \<open>max_tries\<close> bounds the attempts.  From a finite number of tries, calls other than
  \<open>reconnect_set_max_tries\<close> enter the back-off state, from which alone \<open>reconnect_run\<close> asks for a new
  connection, once for every try they use up and at most once more for every call that sets passive mode.
\<close>
theorem reconnect_tries_bound:
  assumes "rc_max_tries f \<noteq> UINT_MAX" and "list_all keeps_tries ops" and "run_ops reconnect_step ops f = Some f'"
  shows "(\<exists>k \<le> length (filter passive_call ops).
      unat (reconnect_get_max_tries f') + backoff_entries f' = unat (reconnect_get_max_tries f) + backoff_entries f + k) \<and>
    (reconnect_run f' now = Some (RECONNECT_CONNECT, f'') \<longrightarrow> rc_state f' = S_BACKOFF)"
proof
  show "\<exists>k \<le> length (filter passive_call ops).
      unat (reconnect_get_max_tries f') + backoff_entries f' = unat (reconnect_get_max_tries f) + backoff_entries f + k"
    using reconnect_run_tries[OF assms] by (auto simp: tries_slack_def reconnect_get_max_tries_def)
  show "reconnect_run f' now = Some (RECONNECT_CONNECT, f'') \<longrightarrow> rc_state f' = S_BACKOFF"
    by (auto simp: reconnect_run_def split: bind_splits if_splits state.splits)
qed

theorem reconnect_tries_bound_witness:
  "\<exists>f'. run_ops reconnect_step [(1, Enable), (2, ConnectFailed 0), (3, ConnectFailed 0)]
      (reconnect_set_max_tries (reconnect_create 0) 2) = Some f' \<and>
    unat (reconnect_get_max_tries f') + backoff_entries f' = 2"
proof -
  let ?f = "reconnect_set_max_tries (reconnect_create 0) 2"
  let ?ops = "[(1, Enable), (2, ConnectFailed 0), (3, ConnectFailed 0)]"
  have "rc_max_tries ?f \<noteq> UINT_MAX" by (simp add: reconnect_set_max_tries_def UINT_MAX_def)
  moreover have "list_all keeps_tries ?ops" by simp
  moreover obtain f' where "run_ops reconnect_step ?ops ?f = Some f'" by simp
  moreover have "unat (reconnect_get_max_tries ?f) + backoff_entries ?f = 2"
    by (simp add: reconnect_get_max_tries_def reconnect_set_max_tries_def backoff_entries_def reconnect_create_def)
  ultimately show ?thesis using reconnect_tries_bound[of ?f ?ops f'] by auto
qed

text \<open>
  C13: \<open>total_connected_duration\<close> reported by \<open>reconnect_get_stats\<close> is, modulo \<open>2 ^ 32\<close>, the time
  during which the client was connected according to the specification \<open>connected_spec\<close>.
\<close>
theorem reconnect_stats_connected_time:
  assumes "time_ok t0" and "list_all reconnect_op_ok ops"
  shows "\<exists>f. run_ops reconnect_step ops (reconnect_create t0) = Some f \<and>
    rs_total_connected_duration (reconnect_get_stats f now) = word_of_int (connected_ms False t0 ops now)"
proof -
  have c: "\<not> reconnect_is_connected (reconnect_create t0)" "total_at (reconnect_create t0) t0 = 0"
    by (simp_all add: reconnect_is_connected_def total_at_def reconnect_get_stats_def reconnect_create_def)
  obtain f where f: "run_ops reconnect_step ops (reconnect_create t0) = Some f"
    using fsm.run_inv[OF create_inv[OF assms(1)] assms(2)] by blast
  then show ?thesis
    using total_at_run[OF create_inv[OF assms(1)] assms(2) f, of now t0] c by (simp add: total_at_def)
qed

theorem reconnect_stats_connected_time_witness:
  "\<exists>f. run_ops reconnect_step [(100, Connected), (350, Disconnected 0), (400, Connected)] (reconnect_create 0) = Some f \<and>
    rs_total_connected_duration (reconnect_get_stats f 500) = 350"
  using reconnect_stats_connected_time[of 0 "[(100, Connected), (350, Disconnected 0), (400, Connected)]" 500]
  by (simp add: time_ok_def)

end
