(* ===== verification/Stp_Bridge.thy ===== *)
theory Stp_Bridge
  imports Ovs_Prelude
begin

text \<open>
  The IEEE 802.1D-1998 spanning tree bridge of \<open>lib/stp.c\<close>.  A \<open>struct stp_port *\<close> is the index of
  the port in its bridge, \<open>p->stp\<close> is the bridge that is passed along, and \<open>ARRAY_SIZE(stp->ports)\<close>
  is the length of the port list (\<open>STP_MAX_PORTS\<close> for a bridge made by \<open>stp_create\<close>).  The recursive
  mutex makes every public call atomic.  A call of the \<open>send_bpdu\<close> callback appends its arguments to
  \<open>st_out\<close>; \<open>seq_change(connectivity_seq_get())\<close> increments \<open>st_seq\<close>.  Log messages are left out.
\<close>

subsection \<open>Constants and data\<close>

type_synonym stp_identifier = uint64_t

definition STP_DEFAULT_BRIDGE_PRIORITY :: uint64_t where "STP_DEFAULT_BRIDGE_PRIORITY = 32768"
definition STP_DEFAULT_PORT_PRIORITY :: uint16_t where "STP_DEFAULT_PORT_PRIORITY = 128"
definition STP_DEFAULT_MAX_AGE :: int where "STP_DEFAULT_MAX_AGE = 20000"
definition STP_DEFAULT_HELLO_TIME :: int where "STP_DEFAULT_HELLO_TIME = 2000"
definition STP_DEFAULT_FWD_DELAY :: int where "STP_DEFAULT_FWD_DELAY = 15000"
definition STP_MAX_PORTS :: nat where "STP_MAX_PORTS = 255"

definition STP_PROTOCOL_ID :: uint16_t where "STP_PROTOCOL_ID = 0"
definition STP_PROTOCOL_VERSION :: uint8_t where "STP_PROTOCOL_VERSION = 0"
definition STP_TYPE_CONFIG :: uint8_t where "STP_TYPE_CONFIG = 0"
definition STP_TYPE_TCN :: uint8_t where "STP_TYPE_TCN = 0x80"
definition STP_CONFIG_TOPOLOGY_CHANGE_ACK :: uint8_t where "STP_CONFIG_TOPOLOGY_CHANGE_ACK = 0x80"
definition STP_CONFIG_TOPOLOGY_CHANGE :: uint8_t where "STP_CONFIG_TOPOLOGY_CHANGE = 0x01"
definition MESSAGE_AGE_INCREMENT :: int where "MESSAGE_AGE_INCREMENT = 1"

text \<open>\<open>STP_UNSET\<close> is the zero that \<open>xzalloc\<close> leaves in a port's state before it is initialised.\<close>

datatype stp_state = STP_UNSET | STP_DISABLED | STP_LISTENING | STP_LEARNING | STP_FORWARDING | STP_BLOCKING

datatype stp_role = STP_ROLE_ROOT | STP_ROLE_DESIGNATED | STP_ROLE_ALTERNATE | STP_ROLE_DISABLED

record stp_bpdu_header =
  bh_protocol_id :: uint16_t
  bh_protocol_version :: uint8_t
  bh_bpdu_type :: uint8_t

text \<open>The fields of a configuration BPDU after the header, in host byte order.\<close>

record stp_config_bpdu =
  cb_header :: stp_bpdu_header
  cb_flags :: uint8_t
  cb_root_id :: uint64_t
  cb_root_path_cost :: uint32_t
  cb_bridge_id :: uint64_t
  cb_port_id :: uint16_t
  cb_message_age :: uint16_t
  cb_max_age :: uint16_t
  cb_hello_time :: uint16_t
  cb_forward_delay :: uint16_t

record stp_timer =
  tm_active :: bool
  tm_value :: int

text \<open>
  \<open>designated_cost\<close> is an \<open>int\<close> that holds the 32 bits of a received cost: it is kept as these bits and
  read as signed or unsigned as each expression of the code does.  Port identifiers are \<open>int\<close>
  variables that only ever hold 16-bit values.
\<close>

record stp_port =
  sp_port_name :: "string option"
  sp_aux :: nat
  sp_port_id :: uint16_t
  sp_state :: stp_state
  sp_path_cost :: int
  sp_designated_root :: stp_identifier
  sp_designated_cost :: uint32_t
  sp_designated_bridge :: stp_identifier
  sp_designated_port :: uint16_t
  sp_topology_change_ack :: bool
  sp_config_pending :: bool
  sp_change_detection_enabled :: bool
  sp_message_age_timer :: stp_timer
  sp_forward_delay_timer :: stp_timer
  sp_hold_timer :: stp_timer
  sp_tx_count :: int
  sp_rx_count :: int
  sp_error_count :: int
  sp_state_changed :: bool

record stp =
  st_name :: string
  st_bridge_id :: stp_identifier
  st_max_age :: int
  st_hello_time :: int
  st_forward_delay :: int
  st_bridge_max_age :: int
  st_bridge_hello_time :: int
  st_bridge_forward_delay :: int
  st_rq_max_age :: int
  st_rq_hello_time :: int
  st_rq_forward_delay :: int
  st_elapsed_remainder :: int
  st_designated_root :: stp_identifier
  st_root_path_cost :: uint32_t
  st_root_port :: "nat option"
  st_topology_change_detected :: bool
  st_topology_change :: bool
  st_hello_timer :: stp_timer
  st_tcn_timer :: stp_timer
  st_topology_change_timer :: stp_timer
  st_ports :: "stp_port list"
  st_fdb_needs_flush :: bool
  st_first_changed_port :: nat
  st_aux :: nat
  st_ref_cnt :: nat
  st_out :: "(uint8_t list \<times> nat \<times> nat) list"
  st_seq :: nat

abbreviation port :: "stp \<Rightarrow> nat \<Rightarrow> stp_port" where
  "port s i \<equiv> st_ports s ! i"

definition upd_port :: "nat \<Rightarrow> (stp_port \<Rightarrow> stp_port) \<Rightarrow> stp \<Rightarrow> stp" where
  "upd_port i f s = s\<lparr>st_ports := (st_ports s)[i := f (port s i)]\<rparr>"

definition seq_change :: "stp \<Rightarrow> stp" where
  "seq_change s = s\<lparr>st_seq := Suc (st_seq s)\<rparr>"

definition enabled_port :: "stp \<Rightarrow> nat \<Rightarrow> bool" where
  "enabled_port s i \<longleftrightarrow> i < length (st_ports s) \<and> sp_state (port s i) \<noteq> STP_DISABLED"

definition stp_next_enabled_port :: "stp \<Rightarrow> nat \<Rightarrow> nat option" where
  "stp_next_enabled_port s i = find (\<lambda>j. sp_state (port s j) \<noteq> STP_DISABLED) [i..<length (st_ports s)]"

text \<open>
  \<open>FOR_EACH_ENABLED_PORT\<close>: the state of each port is tested when the loop reaches it.  A loop whose
  body changes no port state visits \<open>enabled_ports\<close>.
\<close>

definition for_each_enabled_port :: "(nat \<Rightarrow> stp \<Rightarrow> stp) \<Rightarrow> stp \<Rightarrow> stp" where
  "for_each_enabled_port f s =
     fold (\<lambda>i s. if sp_state (port s i) \<noteq> STP_DISABLED then f i s else s) [0..<length (st_ports s)] s"

definition enabled_ports :: "stp \<Rightarrow> nat list" where
  "enabled_ports s = filter (\<lambda>i. sp_state (port s i) \<noteq> STP_DISABLED) [0..<length (st_ports s)]"

subsection \<open>Timers and conversions\<close>

definition stp_start_timer :: "int \<Rightarrow> stp_timer \<Rightarrow> stp_timer" where
  "stp_start_timer value t = t\<lparr>tm_value := value, tm_active := True\<rparr>"

definition stp_stop_timer :: "stp_timer \<Rightarrow> stp_timer" where
  "stp_stop_timer t = t\<lparr>tm_active := False\<rparr>"

definition stp_timer_expired :: "stp_timer \<Rightarrow> int \<Rightarrow> int \<Rightarrow> bool \<times> stp_timer" where
  "stp_timer_expired t elapsed timeout =
     (if tm_active t
      then let t = t\<lparr>tm_value := s32 (tm_value t + elapsed)\<rparr>
           in if tm_value t \<ge> timeout then (True, t\<lparr>tm_active := False\<rparr>) else (False, t)
      else (False, t))"

text \<open>The products are computed in \<open>int\<close>; \<open>s32\<close> is what a two's complement machine gives when they overflow.\<close>

definition ms_to_timer :: "int \<Rightarrow> int" where
  "ms_to_timer ms = c_div (s32 (ms * 0x100)) 1000"

definition timer_to_ms :: "int \<Rightarrow> int" where
  "timer_to_ms timer = c_div (s32 (timer * 1000)) 0x100"

definition clamp :: "int \<Rightarrow> int \<Rightarrow> int \<Rightarrow> int" where
  "clamp x mn mx = (if x < mn then mn else if x > mx then mx else x)"

definition stp_is_root_bridge :: "stp \<Rightarrow> bool" where
  "stp_is_root_bridge s \<longleftrightarrow> st_bridge_id s = st_designated_root s"

definition use_bridge_timers :: "stp \<Rightarrow> stp" where
  "use_bridge_timers s = s\<lparr>st_max_age := st_bridge_max_age s, st_hello_time := st_bridge_hello_time s,
     st_forward_delay := st_bridge_forward_delay s\<rparr>"

definition stp_update_bridge_timers :: "stp \<Rightarrow> stp" where
  "stp_update_bridge_timers s =
     (let ht = clamp (st_rq_hello_time s) 1000 10000;
          ma = clamp (st_rq_max_age s) (max (2 * (ht + 1000)) 6000) 40000;
          fd = clamp (st_rq_forward_delay s) (c_div ma 2 + 1000) 30000;
          s = s\<lparr>st_bridge_hello_time := ms_to_timer ht, st_bridge_max_age := ms_to_timer ma,
                st_bridge_forward_delay := ms_to_timer fd\<rparr>
      in if stp_is_root_bridge s then use_bridge_timers s else s)"

subsection \<open>Frames\<close>

definition stp_header_bytes :: "stp_bpdu_header \<Rightarrow> uint8_t list" where
  "stp_header_bytes h = be16_bytes (bh_protocol_id h) @ [bh_protocol_version h, bh_bpdu_type h]"

definition stp_config_bytes :: "stp_config_bpdu \<Rightarrow> uint8_t list" where
  "stp_config_bytes c = stp_header_bytes (cb_header c) @ [cb_flags c] @ be64_bytes (cb_root_id c)
     @ be32_bytes (cb_root_path_cost c) @ be64_bytes (cb_bridge_id c) @ be16_bytes (cb_port_id c)
     @ be16_bytes (cb_message_age c) @ be16_bytes (cb_max_age c) @ be16_bytes (cb_hello_time c)
     @ be16_bytes (cb_forward_delay c)"

definition bytes_at :: "uint8_t list \<Rightarrow> nat \<Rightarrow> nat \<Rightarrow> uint8_t list" where
  "bytes_at bs off n = take n (drop off bs)"

definition stp_parse_header :: "uint8_t list \<Rightarrow> stp_bpdu_header" where
  "stp_parse_header bs = \<lparr>bh_protocol_id = be_value (bytes_at bs 0 2),
     bh_protocol_version = bs ! 2, bh_bpdu_type = bs ! 3\<rparr>"

text \<open>The packed structure laid over the received bytes.\<close>

definition stp_parse_config :: "uint8_t list \<Rightarrow> stp_config_bpdu" where
  "stp_parse_config bs = \<lparr>cb_header = stp_parse_header bs,
     cb_flags = bs ! 4,
     cb_root_id = be_value (bytes_at bs 5 8),
     cb_root_path_cost = be_value (bytes_at bs 13 4),
     cb_bridge_id = be_value (bytes_at bs 17 8),
     cb_port_id = be_value (bytes_at bs 25 2),
     cb_message_age = be_value (bytes_at bs 27 2),
     cb_max_age = be_value (bytes_at bs 29 2),
     cb_hello_time = be_value (bytes_at bs 31 2),
     cb_forward_delay = be_value (bytes_at bs 33 2)\<rparr>"

definition eth_addr_stp :: "uint8_t list" where
  "eth_addr_stp = [0x01, 0x80, 0xC2, 0x00, 0x00, 0x00]"

definition STP_LLC_SSAP :: uint8_t where "STP_LLC_SSAP = 0x42"
definition STP_LLC_DSAP :: uint8_t where "STP_LLC_DSAP = 0x42"
definition STP_LLC_CNTL :: uint8_t where "STP_LLC_CNTL = 0x03"

text \<open>
  The frame: destination, a zero source that the callback fills in, the length of LLC header and BPDU
  in the type field, the LLC header and the BPDU.
\<close>

definition stp_frame :: "uint8_t list \<Rightarrow> uint8_t list" where
  "stp_frame bpdu = eth_addr_stp @ replicate 6 0 @ be16_bytes (of_nat (3 + length bpdu))
     @ [STP_LLC_DSAP, STP_LLC_SSAP, STP_LLC_CNTL] @ bpdu"

definition stp_send_bpdu :: "stp \<Rightarrow> nat \<Rightarrow> uint8_t list \<Rightarrow> stp" where
  "stp_send_bpdu s p bpdu =
     upd_port p (\<lambda>q. q\<lparr>sp_tx_count := sp_tx_count q + 1\<rparr>)
       (s\<lparr>st_out := st_out s @ [(stp_frame bpdu, p, st_aux s)]\<rparr>)"

subsection \<open>Configuration messages\<close>

definition stp_config_of :: "stp \<Rightarrow> nat \<Rightarrow> stp_config_bpdu" where
  "stp_config_of s p = \<lparr>
     cb_header = \<lparr>bh_protocol_id = STP_PROTOCOL_ID, bh_protocol_version = STP_PROTOCOL_VERSION,
                 bh_bpdu_type = STP_TYPE_CONFIG\<rparr>,
     cb_flags = (if sp_topology_change_ack (port s p) then STP_CONFIG_TOPOLOGY_CHANGE_ACK else 0)
       OR (if st_topology_change s then STP_CONFIG_TOPOLOGY_CHANGE else 0),
     cb_root_id = st_designated_root s,
     cb_root_path_cost = st_root_path_cost s,
     cb_bridge_id = st_bridge_id s,
     cb_port_id = sp_port_id (port s p),
     cb_message_age = (if stp_is_root_bridge s then 0
       else word_of_int (tm_value (sp_message_age_timer (port s (the (st_root_port s)))) + MESSAGE_AGE_INCREMENT)),
     cb_max_age = word_of_int (st_max_age s),
     cb_hello_time = word_of_int (st_hello_time s),
     cb_forward_delay = word_of_int (st_forward_delay s)\<rparr>"

definition stp_transmit_config :: "stp \<Rightarrow> nat \<Rightarrow> stp" where
  "stp_transmit_config s p =
     (if \<not> stp_is_root_bridge s \<and> st_root_port s = None then s
      else if tm_active (sp_hold_timer (port s p))
      then upd_port p (\<lambda>q. q\<lparr>sp_config_pending := True\<rparr>) s
      else let config = stp_config_of s p
           in if int (unat (cb_message_age config)) < st_max_age s
              then let s = upd_port p (\<lambda>q. q\<lparr>sp_topology_change_ack := False, sp_config_pending := False\<rparr>) s;
                       s = stp_send_bpdu s p (stp_config_bytes config)
                   in upd_port p (\<lambda>q. q\<lparr>sp_hold_timer := stp_start_timer 0 (sp_hold_timer q)\<rparr>) s
              else s)"

definition stp_supersedes_port_info :: "stp \<Rightarrow> nat \<Rightarrow> stp_config_bpdu \<Rightarrow> bool" where
  "stp_supersedes_port_info s i config =
     (let p = port s i
      in if cb_root_id config \<noteq> sp_designated_root p then cb_root_id config < sp_designated_root p
         else if cb_root_path_cost config \<noteq> sp_designated_cost p
         then cb_root_path_cost config < sp_designated_cost p
         else if cb_bridge_id config \<noteq> sp_designated_bridge p
         then cb_bridge_id config < sp_designated_bridge p
         else cb_bridge_id config \<noteq> st_bridge_id s \<or> cb_port_id config \<le> sp_designated_port p)"

definition stp_record_config_information :: "stp \<Rightarrow> nat \<Rightarrow> stp_config_bpdu \<Rightarrow> stp" where
  "stp_record_config_information s i config =
     upd_port i (\<lambda>p. p\<lparr>sp_designated_root := cb_root_id config,
       sp_designated_cost := cb_root_path_cost config,
       sp_designated_bridge := cb_bridge_id config,
       sp_designated_port := cb_port_id config,
       sp_message_age_timer := stp_start_timer (int (unat (cb_message_age config))) (sp_message_age_timer p)\<rparr>) s"

definition stp_record_config_timeout_values :: "stp \<Rightarrow> stp_config_bpdu \<Rightarrow> stp" where
  "stp_record_config_timeout_values s config =
     s\<lparr>st_max_age := int (unat (cb_max_age config)), st_hello_time := int (unat (cb_hello_time config)),
       st_forward_delay := int (unat (cb_forward_delay config)),
       st_topology_change := (cb_flags config AND STP_CONFIG_TOPOLOGY_CHANGE \<noteq> 0)\<rparr>"

definition stp_is_designated_port :: "stp \<Rightarrow> nat \<Rightarrow> bool" where
  "stp_is_designated_port s i \<longleftrightarrow>
     sp_designated_bridge (port s i) = st_bridge_id s \<and> sp_designated_port (port s i) = sp_port_id (port s i)"

definition stp_config_bpdu_generation :: "stp \<Rightarrow> stp" where
  "stp_config_bpdu_generation =
     for_each_enabled_port (\<lambda>p s. if stp_is_designated_port s p then stp_transmit_config s p else s)"

definition stp_tcn_bytes :: "uint8_t list" where
  "stp_tcn_bytes = stp_header_bytes \<lparr>bh_protocol_id = STP_PROTOCOL_ID,
     bh_protocol_version = STP_PROTOCOL_VERSION, bh_bpdu_type = STP_TYPE_TCN\<rparr>"

definition stp_transmit_tcn :: "stp \<Rightarrow> stp" where
  "stp_transmit_tcn s = (case st_root_port s of None \<Rightarrow> s | Some p \<Rightarrow> stp_send_bpdu s p stp_tcn_bytes)"

subsection \<open>Root and port selection\<close>

text \<open>The costs are added as \<open>int\<close>.\<close>

definition port_cost :: "stp_port \<Rightarrow> uint32_t" where
  "port_cost p = sp_designated_cost p + word_of_int (sp_path_cost p)"

definition stp_supersedes_root :: "stp_port \<Rightarrow> stp_port \<Rightarrow> bool" where
  "stp_supersedes_root root p =
     (let p_cost = sint (port_cost p); root_cost = sint (port_cost root)
      in if sp_designated_root p \<noteq> sp_designated_root root
         then sp_designated_root p < sp_designated_root root
         else if p_cost \<noteq> root_cost then p_cost < root_cost
         else if sp_designated_bridge p \<noteq> sp_designated_bridge root
         then sp_designated_bridge p < sp_designated_bridge root
         else if sp_designated_port p \<noteq> sp_designated_port root
         then sp_designated_port p < sp_designated_port root
         else sp_port_id p < sp_port_id root)"

text \<open>The loop body of \<open>stp_root_selection\<close> on its variable \<open>root\<close>.\<close>

definition stp_root_candidate :: "stp \<Rightarrow> nat \<Rightarrow> nat option \<Rightarrow> nat option" where
  "stp_root_candidate s p root =
     (if stp_is_designated_port s p \<or> sp_designated_root (port s p) \<ge> st_bridge_id s then root
      else (case root of
              Some r \<Rightarrow> if \<not> stp_supersedes_root (port s r) (port s p) then root else Some p
            | None \<Rightarrow> Some p))"

definition stp_root_selection :: "stp \<Rightarrow> stp" where
  "stp_root_selection s =
     (let root = fold (stp_root_candidate s) (enabled_ports s) None;
          s = s\<lparr>st_root_port := root\<rparr>
      in case root of
           None \<Rightarrow> s\<lparr>st_designated_root := st_bridge_id s, st_root_path_cost := 0\<rparr>
         | Some r \<Rightarrow> s\<lparr>st_designated_root := sp_designated_root (port s r),
                       st_root_path_cost := port_cost (port s r)\<rparr>)"

definition stp_become_designated_port :: "nat \<Rightarrow> stp \<Rightarrow> stp" where
  "stp_become_designated_port i s =
     upd_port i (\<lambda>p. p\<lparr>sp_designated_root := st_designated_root s, sp_designated_cost := st_root_path_cost s,
       sp_designated_bridge := st_bridge_id s, sp_designated_port := sp_port_id p\<rparr>) s"

definition stp_designated_test :: "stp \<Rightarrow> nat \<Rightarrow> bool" where
  "stp_designated_test s i \<longleftrightarrow>
     (let p = port s i
      in stp_is_designated_port s i
         \<or> sp_designated_root p \<noteq> st_designated_root s
         \<or> st_root_path_cost s < sp_designated_cost p
         \<or> (st_root_path_cost s = sp_designated_cost p
            \<and> (st_bridge_id s < sp_designated_bridge p
               \<or> (st_bridge_id s = sp_designated_bridge p \<and> sp_port_id p \<le> sp_designated_port p))))"

definition stp_designated_port_selection :: "stp \<Rightarrow> stp" where
  "stp_designated_port_selection =
     for_each_enabled_port (\<lambda>i s. if stp_designated_test s i then stp_become_designated_port i s else s)"

definition stp_configuration_update :: "stp \<Rightarrow> stp" where
  "stp_configuration_update s = seq_change (stp_designated_port_selection (stp_root_selection s))"

subsection \<open>Port states and topology changes\<close>

definition stp_set_port_state :: "nat \<Rightarrow> stp_state \<Rightarrow> stp \<Rightarrow> stp" where
  "stp_set_port_state i state s =
     upd_port i (\<lambda>p. p\<lparr>sp_state := state\<rparr>)
       (if state \<noteq> sp_state (port s i) \<and> \<not> sp_state_changed (port s i)
        then let s = upd_port i (\<lambda>p. p\<lparr>sp_state_changed := True\<rparr>) s;
                 s = (if i < st_first_changed_port s then s\<lparr>st_first_changed_port := i\<rparr> else s)
             in seq_change s
        else s)"

definition stp_topology_change_detection :: "stp \<Rightarrow> stp" where
  "stp_topology_change_detection s =
     (let s = (if stp_is_root_bridge s
               then s\<lparr>st_topology_change := True,
                      st_topology_change_timer := stp_start_timer 0 (st_topology_change_timer s)\<rparr>
               else if \<not> st_topology_change_detected s
               then let s = stp_transmit_tcn s in s\<lparr>st_tcn_timer := stp_start_timer 0 (st_tcn_timer s)\<rparr>
               else s)
      in seq_change (s\<lparr>st_fdb_needs_flush := True, st_topology_change_detected := True\<rparr>))"

definition stp_make_forwarding :: "nat \<Rightarrow> stp \<Rightarrow> stp" where
  "stp_make_forwarding i s =
     (if sp_state (port s i) = STP_BLOCKING
      then upd_port i (\<lambda>p. p\<lparr>sp_forward_delay_timer := stp_start_timer 0 (sp_forward_delay_timer p)\<rparr>)
             (stp_set_port_state i STP_LISTENING s)
      else s)"

definition stp_make_blocking :: "nat \<Rightarrow> stp \<Rightarrow> stp" where
  "stp_make_blocking i s =
     (if sp_state (port s i) \<notin> {STP_DISABLED, STP_BLOCKING}
      then let s = (if sp_state (port s i) \<in> {STP_FORWARDING, STP_LEARNING}
                       \<and> sp_change_detection_enabled (port s i)
                    then stp_topology_change_detection s else s);
               s = stp_set_port_state i STP_BLOCKING s
           in upd_port i (\<lambda>p. p\<lparr>sp_forward_delay_timer := stp_stop_timer (sp_forward_delay_timer p)\<rparr>) s
      else s)"

definition stp_select_port_state :: "nat \<Rightarrow> stp \<Rightarrow> stp" where
  "stp_select_port_state i s =
     (if st_root_port s = Some i
      then stp_make_forwarding i
             (upd_port i (\<lambda>p. p\<lparr>sp_config_pending := False, sp_topology_change_ack := False\<rparr>) s)
      else if stp_is_designated_port s i
      then stp_make_forwarding i
             (upd_port i (\<lambda>p. p\<lparr>sp_message_age_timer := stp_stop_timer (sp_message_age_timer p)\<rparr>) s)
      else stp_make_blocking i
             (upd_port i (\<lambda>p. p\<lparr>sp_config_pending := False, sp_topology_change_ack := False\<rparr>) s))"

definition stp_port_state_selection :: "stp \<Rightarrow> stp" where
  "stp_port_state_selection = for_each_enabled_port stp_select_port_state"

definition stp_topology_change_acknowledged :: "stp \<Rightarrow> stp" where
  "stp_topology_change_acknowledged s =
     s\<lparr>st_topology_change_detected := False, st_tcn_timer := stp_stop_timer (st_tcn_timer s)\<rparr>"

definition stp_acknowledge_topology_change :: "stp \<Rightarrow> nat \<Rightarrow> stp" where
  "stp_acknowledge_topology_change s i =
     stp_transmit_config (upd_port i (\<lambda>p. p\<lparr>sp_topology_change_ack := True\<rparr>) s) i"

definition stp_become_root_bridge :: "stp \<Rightarrow> stp" where
  "stp_become_root_bridge s =
     (let s = stp_topology_change_detection (use_bridge_timers s);
          s = stp_config_bpdu_generation (s\<lparr>st_tcn_timer := stp_stop_timer (st_tcn_timer s)\<rparr>)
      in s\<lparr>st_hello_timer := stp_start_timer 0 (st_hello_timer s)\<rparr>)"

text \<open>
  The two calls that recompute everything, as \<open>set_bridge_id\<close>, \<open>stp_port_disable\<close>,
  \<open>stp_port_set_path_cost\<close>, \<open>stp_received_config_bpdu\<close> and \<open>stp_message_age_timer_expiry\<close> make them.
\<close>

abbreviation stp_recompute :: "stp \<Rightarrow> stp" where
  "stp_recompute s \<equiv> stp_port_state_selection (stp_configuration_update s)"

subsection \<open>Received messages\<close>

definition stp_received_config_bpdu :: "stp \<Rightarrow> nat \<Rightarrow> stp_config_bpdu \<Rightarrow> stp" where
  "stp_received_config_bpdu s p config =
     (if cb_message_age config \<ge> cb_max_age config then s
      else if sp_state (port s p) \<noteq> STP_DISABLED
      then let root = stp_is_root_bridge s
           in if stp_supersedes_port_info s p config
              then let s = stp_recompute (stp_record_config_information s p config);
                       s = (if \<not> stp_is_root_bridge s \<and> root
                            then let s = s\<lparr>st_hello_timer := stp_stop_timer (st_hello_timer s)\<rparr>
                                 in if st_topology_change_detected s
                                    then let s = stp_transmit_tcn
                                               (s\<lparr>st_topology_change_timer := stp_stop_timer (st_topology_change_timer s)\<rparr>)
                                         in s\<lparr>st_tcn_timer := stp_start_timer 0 (st_tcn_timer s)\<rparr>
                                    else s
                            else s)
                   in if st_root_port s = Some p
                      then let s = stp_config_bpdu_generation (stp_record_config_timeout_values s config);
                               s = (if cb_flags config AND STP_CONFIG_TOPOLOGY_CHANGE_ACK \<noteq> 0
                                    then stp_topology_change_acknowledged s else s)
                           in if cb_flags config AND STP_CONFIG_TOPOLOGY_CHANGE \<noteq> 0
                              then s\<lparr>st_fdb_needs_flush := True\<rparr> else s
                      else s
              else if stp_is_designated_port s p then stp_transmit_config s p
              else s
      else s)"

definition stp_received_tcn_bpdu :: "stp \<Rightarrow> nat \<Rightarrow> stp" where
  "stp_received_tcn_bpdu s p =
     (if sp_state (port s p) \<noteq> STP_DISABLED
      then if stp_is_designated_port s p
           then stp_acknowledge_topology_change (stp_topology_change_detection s) p
           else s
      else s)"

definition count_error :: "nat \<Rightarrow> stp \<Rightarrow> stp" where
  "count_error p s = upd_port p (\<lambda>q. q\<lparr>sp_error_count := sp_error_count q + 1\<rparr>) s"

definition count_rx :: "nat \<Rightarrow> stp \<Rightarrow> stp" where
  "count_rx p s = upd_port p (\<lambda>q. q\<lparr>sp_rx_count := sp_rx_count q + 1\<rparr>) s"

definition stp_received_bpdu :: "stp \<Rightarrow> nat \<Rightarrow> uint8_t list \<Rightarrow> stp" where
  "stp_received_bpdu s p bpdu =
     (if sp_state (port s p) = STP_DISABLED then s
      else if length bpdu < 4 then count_error p s
      else let header = stp_parse_header bpdu
           in if bh_protocol_id header \<noteq> STP_PROTOCOL_ID then count_error p s
              else if bh_bpdu_type header = STP_TYPE_CONFIG
              then if length bpdu < 35 then count_error p s
                   else count_rx p (stp_received_config_bpdu s p (stp_parse_config bpdu))
              else if bh_bpdu_type header = STP_TYPE_TCN
              then if length bpdu \<noteq> 4 then count_error p s
                   else count_rx p (stp_received_tcn_bpdu s p)
              else count_error p s)"

subsection \<open>Timers expiring\<close>

definition stp_hello_timer_expiry :: "stp \<Rightarrow> stp" where
  "stp_hello_timer_expiry s =
     (let s = stp_config_bpdu_generation s in s\<lparr>st_hello_timer := stp_start_timer 0 (st_hello_timer s)\<rparr>)"

definition stp_message_age_timer_expiry :: "stp \<Rightarrow> nat \<Rightarrow> stp" where
  "stp_message_age_timer_expiry s p =
     (let root = stp_is_root_bridge s;
          s = stp_recompute (stp_become_designated_port p s)
      in if stp_is_root_bridge s \<and> \<not> root
         then let s = stp_topology_change_detection (use_bridge_timers s);
                  s = stp_config_bpdu_generation (s\<lparr>st_tcn_timer := stp_stop_timer (st_tcn_timer s)\<rparr>)
              in s\<lparr>st_hello_timer := stp_start_timer 0 (st_hello_timer s)\<rparr>
         else s)"

definition stp_is_designated_for_some_port :: "stp \<Rightarrow> bool" where
  "stp_is_designated_for_some_port s \<longleftrightarrow>
     list_ex (\<lambda>i. sp_designated_bridge (port s i) = st_bridge_id s) (enabled_ports s)"

definition stp_forward_delay_timer_expiry :: "stp \<Rightarrow> nat \<Rightarrow> stp" where
  "stp_forward_delay_timer_expiry s i =
     (if sp_state (port s i) = STP_LISTENING
      then upd_port i (\<lambda>p. p\<lparr>sp_forward_delay_timer := stp_start_timer 0 (sp_forward_delay_timer p)\<rparr>)
             (stp_set_port_state i STP_LEARNING s)
      else if sp_state (port s i) = STP_LEARNING
      then let s = stp_set_port_state i STP_FORWARDING s
           in if stp_is_designated_for_some_port s \<and> sp_change_detection_enabled (port s i)
              then stp_topology_change_detection s else s
      else s)"

definition stp_tcn_timer_expiry :: "stp \<Rightarrow> stp" where
  "stp_tcn_timer_expiry s =
     (let s = stp_transmit_tcn s in s\<lparr>st_tcn_timer := stp_start_timer 0 (st_tcn_timer s)\<rparr>)"

definition stp_topology_change_timer_expiry :: "stp \<Rightarrow> stp" where
  "stp_topology_change_timer_expiry s = s\<lparr>st_topology_change_detected := False, st_topology_change := False\<rparr>"

definition stp_hold_timer_expiry :: "stp \<Rightarrow> nat \<Rightarrow> stp" where
  "stp_hold_timer_expiry s p = (if sp_config_pending (port s p) then stp_transmit_config s p else s)"

text \<open>The parts of \<open>stp_tick\<close>: the bridge timers, and the bodies of its two loops over the ports.\<close>

definition tick_bridge_timers :: "int \<Rightarrow> stp \<Rightarrow> stp" where
  "tick_bridge_timers elapsed s =
     (let (e, t) = stp_timer_expired (st_hello_timer s) elapsed (st_hello_time s);
          s = s\<lparr>st_hello_timer := t\<rparr>;
          s = (if e then stp_hello_timer_expiry s else s);
          (e, t) = stp_timer_expired (st_tcn_timer s) elapsed (st_bridge_hello_time s);
          s = s\<lparr>st_tcn_timer := t\<rparr>;
          s = (if e then stp_tcn_timer_expiry s else s);
          (e, t) = stp_timer_expired (st_topology_change_timer s) elapsed (st_max_age s + st_forward_delay s);
          s = s\<lparr>st_topology_change_timer := t\<rparr>
      in if e then stp_topology_change_timer_expiry s else s)"

definition tick_message_age :: "int \<Rightarrow> nat \<Rightarrow> stp \<Rightarrow> stp" where
  "tick_message_age elapsed i s =
     (let (e, t) = stp_timer_expired (sp_message_age_timer (port s i)) elapsed (st_max_age s);
          s = upd_port i (\<lambda>p. p\<lparr>sp_message_age_timer := t\<rparr>) s
      in if e then stp_message_age_timer_expiry s i else s)"

definition tick_forward_delay :: "int \<Rightarrow> nat \<Rightarrow> stp \<Rightarrow> stp" where
  "tick_forward_delay elapsed i s =
     (let (e, t) = stp_timer_expired (sp_forward_delay_timer (port s i)) elapsed (st_forward_delay s);
          s = upd_port i (\<lambda>p. p\<lparr>sp_forward_delay_timer := t\<rparr>) s
      in if e then stp_forward_delay_timer_expiry s i else s)"

definition tick_hold :: "int \<Rightarrow> nat \<Rightarrow> stp \<Rightarrow> stp" where
  "tick_hold elapsed i s =
     (let (e, t) = stp_timer_expired (sp_hold_timer (port s i)) elapsed (ms_to_timer 1000);
          s = upd_port i (\<lambda>p. p\<lparr>sp_hold_timer := t\<rparr>) s
      in if e then stp_hold_timer_expiry s i else s)"

definition INT_MAX_minus_1000 :: int where "INT_MAX_minus_1000 = 2147483647 - 1000"

definition stp_tick :: "stp \<Rightarrow> int \<Rightarrow> stp" where
  "stp_tick s ms =
     (let ms = clamp ms 0 INT_MAX_minus_1000 + st_elapsed_remainder s;
          elapsed = ms_to_timer ms;
          s = s\<lparr>st_elapsed_remainder := ms - timer_to_ms elapsed\<rparr>
      in if elapsed = 0 then s
         else let s = tick_bridge_timers elapsed s;
                  s = for_each_enabled_port (tick_message_age elapsed) s
              in for_each_enabled_port (\<lambda>i s. tick_hold elapsed i (tick_forward_delay elapsed i s)) s)"

subsection \<open>Bridge configuration\<close>

definition stp_initialize_port :: "nat \<Rightarrow> stp_state \<Rightarrow> stp \<Rightarrow> stp option" where
  "stp_initialize_port i state s =
     Option.bind (ovs_assert (state \<in> {STP_DISABLED, STP_BLOCKING})) (\<lambda>_. Some
       (let s = stp_become_designated_port i s;
            s = (if sp_state (port s i) = STP_UNSET \<and> state = STP_DISABLED
                 then upd_port i (\<lambda>p. p\<lparr>sp_state := state\<rparr>) s
                 else stp_set_port_state i state s)
        in upd_port i (\<lambda>p. p\<lparr>sp_topology_change_ack := False, sp_config_pending := False,
             sp_change_detection_enabled := True, sp_aux := 0,
             sp_message_age_timer := stp_stop_timer (sp_message_age_timer p),
             sp_forward_delay_timer := stp_stop_timer (sp_forward_delay_timer p),
             sp_hold_timer := stp_stop_timer (sp_hold_timer p),
             sp_tx_count := 0, sp_rx_count := 0, sp_error_count := 0\<rparr>) s))"

definition zero_timer :: stp_timer where
  "zero_timer = \<lparr>tm_active = False, tm_value = 0\<rparr>"

definition zero_port :: stp_port where
  "zero_port = \<lparr>sp_port_name = None, sp_aux = 0, sp_port_id = 0, sp_state = STP_UNSET, sp_path_cost = 0,
     sp_designated_root = 0, sp_designated_cost = 0, sp_designated_bridge = 0, sp_designated_port = 0,
     sp_topology_change_ack = False, sp_config_pending = False, sp_change_detection_enabled = False,
     sp_message_age_timer = zero_timer, sp_forward_delay_timer = zero_timer, sp_hold_timer = zero_timer,
     sp_tx_count = 0, sp_rx_count = 0, sp_error_count = 0, sp_state_changed = False\<rparr>"

definition zero_stp :: "nat \<Rightarrow> stp" where
  "zero_stp n = \<lparr>st_name = [], st_bridge_id = 0, st_max_age = 0, st_hello_time = 0, st_forward_delay = 0,
     st_bridge_max_age = 0, st_bridge_hello_time = 0, st_bridge_forward_delay = 0, st_rq_max_age = 0,
     st_rq_hello_time = 0, st_rq_forward_delay = 0, st_elapsed_remainder = 0, st_designated_root = 0,
     st_root_path_cost = 0, st_root_port = None, st_topology_change_detected = False,
     st_topology_change = False, st_hello_timer = zero_timer, st_tcn_timer = zero_timer,
     st_topology_change_timer = zero_timer, st_ports = replicate n zero_port, st_fdb_needs_flush = False,
     st_first_changed_port = 0, st_aux = 0, st_ref_cnt = 0, st_out = [], st_seq = 0\<rparr>"

text \<open>
  \<open>stp_create\<close> up to the loop over the ports, and the body of that loop.  The number of ports is a
  parameter; \<open>stp_create\<close> passes \<open>STP_MAX_PORTS\<close>.
\<close>

definition stp_create_bridge :: "nat \<Rightarrow> string \<Rightarrow> stp_identifier \<Rightarrow> nat \<Rightarrow> stp" where
  "stp_create_bridge n name bridge_id aux =
     (let s = (zero_stp n)\<lparr>st_name := name, st_bridge_id := bridge_id\<rparr>;
          s = (if drop_bit 48 (st_bridge_id s) = 0
               then s\<lparr>st_bridge_id := st_bridge_id s OR push_bit 48 STP_DEFAULT_BRIDGE_PRIORITY\<rparr> else s);
          s = s\<lparr>st_rq_max_age := STP_DEFAULT_MAX_AGE, st_rq_hello_time := STP_DEFAULT_HELLO_TIME,
                st_rq_forward_delay := STP_DEFAULT_FWD_DELAY\<rparr>;
          s = use_bridge_timers (stp_update_bridge_timers s);
          s = s\<lparr>st_designated_root := st_bridge_id s, st_root_path_cost := 0, st_root_port := None,
                st_topology_change_detected := False, st_topology_change := False,
                st_tcn_timer := stp_stop_timer (st_tcn_timer s),
                st_topology_change_timer := stp_stop_timer (st_topology_change_timer s),
                st_hello_timer := stp_start_timer (st_hello_time s) (st_hello_timer s)\<rparr>
      in s\<lparr>st_aux := aux, st_first_changed_port := length (st_ports s)\<rparr>)"

definition stp_create_port :: "nat \<Rightarrow> stp \<Rightarrow> stp option" where
  "stp_create_port i s =
     stp_initialize_port i STP_DISABLED
       (upd_port i (\<lambda>p. p\<lparr>sp_port_id := of_nat (i + 1) OR push_bit 8 STP_DEFAULT_PORT_PRIORITY,
                          sp_path_cost := 2\<rparr>) s)"

definition stp_create_n :: "nat \<Rightarrow> string \<Rightarrow> stp_identifier \<Rightarrow> nat \<Rightarrow> stp option" where
  "stp_create_n n name bridge_id aux =
     map_option (\<lambda>s. s\<lparr>st_ref_cnt := 1\<rparr>)
       (run_ops stp_create_port [0..<n] (stp_create_bridge n name bridge_id aux))"

definition stp_create :: "stp list \<Rightarrow> string \<Rightarrow> stp_identifier \<Rightarrow> nat \<Rightarrow> stp list option" where
  "stp_create all_stps name bridge_id aux =
     map_option (\<lambda>s. all_stps @ [s]) (stp_create_n STP_MAX_PORTS name bridge_id aux)"

text \<open>\<open>stp_ref\<close> and \<open>stp_unref\<close> on the \<open>k\<close>-th bridge of \<open>all_stps\<close>; the last reference removes it.\<close>

definition stp_ref :: "stp list \<Rightarrow> nat \<Rightarrow> stp list" where
  "stp_ref all_stps k = all_stps[k := (all_stps ! k)\<lparr>st_ref_cnt := Suc (st_ref_cnt (all_stps ! k))\<rparr>]"

definition stp_unref :: "stp list \<Rightarrow> nat \<Rightarrow> stp list option" where
  "stp_unref all_stps k =
     (let old = st_ref_cnt (all_stps ! k)
      in Option.bind (ovs_assert (old > 0)) (\<lambda>_. Some
           (if old = 1 then take k all_stps @ drop (Suc k) all_stps
            else all_stps[k := (all_stps ! k)\<lparr>st_ref_cnt := old - 1\<rparr>])))"

definition set_bridge_id :: "stp \<Rightarrow> stp_identifier \<Rightarrow> stp" where
  "set_bridge_id s new_bridge_id =
     (if new_bridge_id \<noteq> st_bridge_id s
      then let root = stp_is_root_bridge s;
               s = for_each_enabled_port (\<lambda>p s. if stp_is_designated_port s p
                     then upd_port p (\<lambda>q. q\<lparr>sp_designated_bridge := new_bridge_id\<rparr>) s else s) s;
               s = stp_recompute (s\<lparr>st_bridge_id := new_bridge_id\<rparr>)
           in if stp_is_root_bridge s \<and> \<not> root then stp_become_root_bridge s else s
      else s)"

definition mac_bits :: uint64_t where
  "mac_bits = push_bit 48 1 - 1"

definition stp_set_bridge_id :: "stp \<Rightarrow> stp_identifier \<Rightarrow> stp" where
  "stp_set_bridge_id s bridge_id =
     set_bridge_id s ((st_bridge_id s AND NOT mac_bits) OR (bridge_id AND mac_bits))"

definition stp_set_bridge_priority :: "stp \<Rightarrow> uint16_t \<Rightarrow> stp" where
  "stp_set_bridge_priority s new_priority =
     set_bridge_id s ((st_bridge_id s AND mac_bits) OR push_bit 48 (ucast new_priority))"

definition stp_set_hello_time :: "stp \<Rightarrow> int \<Rightarrow> stp" where
  "stp_set_hello_time s ms = stp_update_bridge_timers (s\<lparr>st_rq_hello_time := ms\<rparr>)"

definition stp_set_max_age :: "stp \<Rightarrow> int \<Rightarrow> stp" where
  "stp_set_max_age s ms = stp_update_bridge_timers (s\<lparr>st_rq_max_age := ms\<rparr>)"

definition stp_set_forward_delay :: "stp \<Rightarrow> int \<Rightarrow> stp" where
  "stp_set_forward_delay s ms = stp_update_bridge_timers (s\<lparr>st_rq_forward_delay := ms\<rparr>)"

subsection \<open>Queries\<close>

definition stp_get_name :: "stp \<Rightarrow> string" where "stp_get_name s = st_name s"
definition stp_get_bridge_id :: "stp \<Rightarrow> stp_identifier" where "stp_get_bridge_id s = st_bridge_id s"
definition stp_get_designated_root :: "stp \<Rightarrow> stp_identifier" where "stp_get_designated_root s = st_designated_root s"
definition stp_get_root_path_cost :: "stp \<Rightarrow> int" where "stp_get_root_path_cost s = sint (st_root_path_cost s)"
definition stp_get_hello_time :: "stp \<Rightarrow> int" where "stp_get_hello_time s = timer_to_ms (st_bridge_hello_time s)"
definition stp_get_max_age :: "stp \<Rightarrow> int" where "stp_get_max_age s = timer_to_ms (st_bridge_max_age s)"
definition stp_get_forward_delay :: "stp \<Rightarrow> int" where "stp_get_forward_delay s = timer_to_ms (st_bridge_forward_delay s)"

definition stp_check_and_reset_fdb_flush :: "stp \<Rightarrow> bool \<times> stp" where
  "stp_check_and_reset_fdb_flush s = (st_fdb_needs_flush s, s\<lparr>st_fdb_needs_flush := False\<rparr>)"

definition stp_get_port :: "stp \<Rightarrow> int \<Rightarrow> nat option" where
  "stp_get_port s port_no =
     Option.bind (ovs_assert (port_no \<ge> 0 \<and> port_no < int (length (st_ports s)))) (\<lambda>_. Some (nat port_no))"

definition stp_get_root_port :: "stp \<Rightarrow> nat option" where
  "stp_get_root_port s = st_root_port s"

definition stp_get_changed_port :: "stp \<Rightarrow> nat option \<times> stp" where
  "stp_get_changed_port s =
     (case find (\<lambda>i. sp_state_changed (port s i)) [st_first_changed_port s..<length (st_ports s)] of
        Some i \<Rightarrow> (Some i, (upd_port i (\<lambda>p. p\<lparr>sp_state_changed := False\<rparr>) s)\<lparr>st_first_changed_port := i + 1\<rparr>)
      | None \<Rightarrow> (None, s\<lparr>st_first_changed_port := length (st_ports s)\<rparr>))"

fun stp_state_name :: "stp_state \<Rightarrow> string option" where
  "stp_state_name STP_DISABLED = Some ''disabled''"
| "stp_state_name STP_LISTENING = Some ''listening''"
| "stp_state_name STP_LEARNING = Some ''learning''"
| "stp_state_name STP_FORWARDING = Some ''forwarding''"
| "stp_state_name STP_BLOCKING = Some ''blocking''"
| "stp_state_name STP_UNSET = None"

definition stp_forward_in_state :: "stp_state \<Rightarrow> bool" where
  "stp_forward_in_state state \<longleftrightarrow> state \<in> {STP_FORWARDING}"

definition stp_learn_in_state :: "stp_state \<Rightarrow> bool" where
  "stp_learn_in_state state \<longleftrightarrow> state \<in> {STP_LEARNING, STP_FORWARDING}"

definition stp_should_forward_bpdu :: "stp_state \<Rightarrow> bool" where
  "stp_should_forward_bpdu state \<longleftrightarrow> state \<in> {STP_DISABLED, STP_LISTENING, STP_LEARNING, STP_FORWARDING}"

fun stp_role_name :: "stp_role \<Rightarrow> string" where
  "stp_role_name STP_ROLE_ROOT = ''root''"
| "stp_role_name STP_ROLE_DESIGNATED = ''designated''"
| "stp_role_name STP_ROLE_ALTERNATE = ''alternate''"
| "stp_role_name STP_ROLE_DISABLED = ''disabled''"

subsection \<open>Ports\<close>

definition stp_port_set_name :: "stp \<Rightarrow> nat \<Rightarrow> string \<Rightarrow> stp" where
  "stp_port_set_name s i name = upd_port i (\<lambda>p. p\<lparr>sp_port_name := Some name\<rparr>) s"

definition stp_port_set_aux :: "stp \<Rightarrow> nat \<Rightarrow> nat \<Rightarrow> stp" where
  "stp_port_set_aux s i aux = upd_port i (\<lambda>p. p\<lparr>sp_aux := aux\<rparr>) s"

definition stp_port_get_aux :: "stp \<Rightarrow> nat \<Rightarrow> nat" where
  "stp_port_get_aux s i = sp_aux (port s i)"

definition stp_port_no :: "stp \<Rightarrow> nat \<Rightarrow> nat option" where
  "stp_port_no s i = Option.bind (ovs_assert (i < length (st_ports s))) (\<lambda>_. Some i)"

definition stp_port_get_state :: "stp \<Rightarrow> nat \<Rightarrow> stp_state" where
  "stp_port_get_state s i = sp_state (port s i)"

definition stp_port_get_role :: "stp \<Rightarrow> nat \<Rightarrow> stp_role" where
  "stp_port_get_role s i =
     (if st_root_port s \<noteq> None \<and> sp_port_id (port s (the (st_root_port s))) = sp_port_id (port s i)
      then STP_ROLE_ROOT
      else if stp_is_designated_port s i then STP_ROLE_DESIGNATED
      else if sp_state (port s i) = STP_DISABLED then STP_ROLE_DISABLED
      else STP_ROLE_ALTERNATE)"

definition stp_port_get_counts :: "stp \<Rightarrow> nat \<Rightarrow> int \<times> int \<times> int" where
  "stp_port_get_counts s i = (sp_tx_count (port s i), sp_rx_count (port s i), sp_error_count (port s i))"

definition stp_port_get_status :: "stp \<Rightarrow> nat \<Rightarrow> uint16_t \<times> stp_state \<times> stp_role" where
  "stp_port_get_status s i = (sp_port_id (port s i), sp_state (port s i), stp_port_get_role s i)"

definition stp_port_disable :: "stp \<Rightarrow> nat \<Rightarrow> stp" where
  "stp_port_disable s i =
     (if sp_state (port s i) \<noteq> STP_DISABLED
      then let root = stp_is_root_bridge s;
               s = stp_set_port_state i STP_DISABLED (stp_become_designated_port i s);
               s = upd_port i (\<lambda>p. p\<lparr>sp_topology_change_ack := False, sp_config_pending := False,
                     sp_message_age_timer := stp_stop_timer (sp_message_age_timer p),
                     sp_forward_delay_timer := stp_stop_timer (sp_forward_delay_timer p)\<rparr>) s;
               s = stp_recompute s;
               s = (if stp_is_root_bridge s \<and> \<not> root then stp_become_root_bridge s else s)
           in upd_port i (\<lambda>p. p\<lparr>sp_aux := 0\<rparr>) s
      else s)"

definition stp_port_enable :: "stp \<Rightarrow> nat \<Rightarrow> stp option" where
  "stp_port_enable s i =
     (if sp_state (port s i) = STP_DISABLED
      then map_option stp_port_state_selection (stp_initialize_port i STP_BLOCKING s)
      else Some s)"

definition stp_port_set_priority :: "stp \<Rightarrow> nat \<Rightarrow> uint8_t \<Rightarrow> stp" where
  "stp_port_set_priority s i new_priority =
     (let new_port_id = (sp_port_id (port s i) AND 0xff) OR push_bit 8 (ucast new_priority)
      in if sp_port_id (port s i) \<noteq> new_port_id
         then let s = (if stp_is_designated_port s i
                       then upd_port i (\<lambda>p. p\<lparr>sp_designated_port := new_port_id\<rparr>) s else s);
                  s = upd_port i (\<lambda>p. p\<lparr>sp_port_id := new_port_id\<rparr>) s
              in if st_bridge_id s = sp_designated_bridge (port s i)
                    \<and> sp_port_id (port s i) < sp_designated_port (port s i)
                 then stp_port_state_selection (stp_become_designated_port i s)
                 else s
         else s)"

definition stp_convert_speed_to_cost :: "uint32_t \<Rightarrow> uint16_t" where
  "stp_convert_speed_to_cost speed =
     (if speed \<ge> 10000 then 2 else if speed \<ge> 1000 then 4 else if speed \<ge> 100 then 19
      else if speed \<ge> 16 then 62 else if speed \<ge> 10 then 100 else if speed \<ge> 4 then 250 else 2)"

definition stp_port_set_path_cost :: "stp \<Rightarrow> nat \<Rightarrow> uint16_t \<Rightarrow> stp" where
  "stp_port_set_path_cost s i path_cost =
     (if sp_path_cost (port s i) \<noteq> int (unat path_cost)
      then stp_recompute (upd_port i (\<lambda>p. p\<lparr>sp_path_cost := int (unat path_cost)\<rparr>) s)
      else s)"

definition stp_port_set_speed :: "stp \<Rightarrow> nat \<Rightarrow> uint32_t \<Rightarrow> stp" where
  "stp_port_set_speed s i speed = stp_port_set_path_cost s i (stp_convert_speed_to_cost speed)"

definition stp_port_enable_change_detection :: "stp \<Rightarrow> nat \<Rightarrow> stp" where
  "stp_port_enable_change_detection s i = upd_port i (\<lambda>p. p\<lparr>sp_change_detection_enabled := True\<rparr>) s"

definition stp_port_disable_change_detection :: "stp \<Rightarrow> nat \<Rightarrow> stp" where
  "stp_port_disable_change_detection s i = upd_port i (\<lambda>p. p\<lparr>sp_change_detection_enabled := False\<rparr>) s"

subsection \<open>Control commands\<close>

definition stp_find :: "stp list \<Rightarrow> string \<Rightarrow> nat option" where
  "stp_find all_stps name = find (\<lambda>k. st_name (all_stps ! k) = name) [0..<length all_stps]"

text \<open>\<open>stp/tcn [bridge]\<close>: \<open>Inl\<close> is an error reply.\<close>

definition stp_unixctl_tcn :: "stp list \<Rightarrow> string option \<Rightarrow> (string + string) \<times> stp list" where
  "stp_unixctl_tcn all_stps arg =
     (case arg of
        Some name \<Rightarrow>
          (case stp_find all_stps name of
             None \<Rightarrow> (Inl ''no such stp object'', all_stps)
           | Some k \<Rightarrow> (Inr ''OK'', all_stps[k := stp_topology_change_detection (all_stps ! k)]))
      | None \<Rightarrow> (Inr ''OK'', map stp_topology_change_detection all_stps))"

end
