(* ===== verification/Stp_Props.thy ===== *)
theory Stp_Props
  imports Stp_Bridge "HOL-Library.Product_Lexorder"
begin

text \<open>
  Correctness of the spanning tree bridge: which part of the state each operation touches, the
  optimality of the root selection, the invariant that every call keeps, and the properties.
\<close>

subsection \<open>Views of the state\<close>

text \<open>
  The spanning tree information of a port and of a bridge (\<open>pinfo\<close>, \<open>stp_info\<close>), and the same with the
  port states (\<open>pcore\<close>, \<open>stp_core\<close>).  Everything else is timers, flags, counters and output.
\<close>

definition pinfo :: "stp_port \<Rightarrow> uint16_t \<times> int \<times> stp_identifier \<times> uint32_t \<times> stp_identifier \<times> uint16_t" where
  "pinfo p = (sp_port_id p, sp_path_cost p, sp_designated_root p, sp_designated_cost p,
     sp_designated_bridge p, sp_designated_port p)"

definition pcore where
  "pcore p = (pinfo p, sp_state p, sp_state_changed p)"

definition bridge_info :: "stp \<Rightarrow> stp_identifier \<times> stp_identifier \<times> uint32_t \<times> nat option" where
  "bridge_info s = (st_bridge_id s, st_designated_root s, st_root_path_cost s, st_root_port s)"

definition stp_info where
  "stp_info s = (bridge_info s, map pinfo (st_ports s))"

definition stp_core where
  "stp_core s = (bridge_info s, st_first_changed_port s, map pcore (st_ports s))"

lemma upd_port_fields [simp]:
  "st_bridge_id (upd_port i f s) = st_bridge_id s" "st_designated_root (upd_port i f s) = st_designated_root s"
  "st_root_path_cost (upd_port i f s) = st_root_path_cost s" "st_root_port (upd_port i f s) = st_root_port s"
  "st_first_changed_port (upd_port i f s) = st_first_changed_port s"
  "length (st_ports (upd_port i f s)) = length (st_ports s)"
  "st_elapsed_remainder (upd_port i f s) = st_elapsed_remainder s"
  "bridge_info (upd_port i f s) = bridge_info s"
  by (simp_all add: upd_port_def bridge_info_def)

lemma port_upd_port [simp]:
  "i < length (st_ports s) \<Longrightarrow> port (upd_port i f s) j = (if i = j then f (port s i) else port s j)"
  by (simp add: upd_port_def)

lemma upd_port_info [simp]: "(\<And>p. pinfo (f p) = pinfo p) \<Longrightarrow> stp_info (upd_port i f s) = stp_info s"
  by (cases "i < length (st_ports s)")
    (auto simp: stp_info_def upd_port_def map_update bridge_info_def list_update_same_conv list_update_beyond)

lemma upd_port_core [simp]: "(\<And>p. pcore (f p) = pcore p) \<Longrightarrow> stp_core (upd_port i f s) = stp_core s"
  by (cases "i < length (st_ports s)")
    (auto simp: stp_core_def upd_port_def map_update bridge_info_def list_update_same_conv list_update_beyond)

lemma seq_change_fields [simp]:
  "stp_core (seq_change s) = stp_core s" "stp_info (seq_change s) = stp_info s"
  "st_ports (seq_change s) = st_ports s" "bridge_info (seq_change s) = bridge_info s"
  "st_first_changed_port (seq_change s) = st_first_changed_port s"
  by (simp_all add: seq_change_def stp_core_def stp_info_def bridge_info_def)

lemma core_info: "stp_core s = stp_core t \<Longrightarrow> stp_info s = stp_info t"
proof -
  assume a: "stp_core s = stp_core t"
  have m: "map pinfo (st_ports u) = map fst (map pcore (st_ports u))" for u
    by (simp add: pcore_def comp_def)
  have "map pcore (st_ports s) = map pcore (st_ports t)" "bridge_info s = bridge_info t"
    using a by (simp_all add: stp_core_def)
  then show ?thesis unfolding stp_info_def m by (simp only:)
qed

lemma info_bridge:
  assumes "stp_info s = stp_info t"
  shows "st_bridge_id s = st_bridge_id t" "st_designated_root s = st_designated_root t"
    "st_root_path_cost s = st_root_path_cost t" "st_root_port s = st_root_port t"
    "length (st_ports s) = length (st_ports t)"
  using assms by (auto simp: stp_info_def bridge_info_def dest: map_eq_imp_length_eq)

lemma info_port:
  assumes "stp_info s = stp_info t" and "i < length (st_ports s)"
  shows "pinfo (port s i) = pinfo (port t i)"
proof -
  have "map pinfo (st_ports s) ! i = map pinfo (st_ports t) ! i" "i < length (st_ports t)"
    using assms info_bridge(5)[OF assms(1)] by (simp_all add: stp_info_def)
  then show ?thesis using assms(2) by simp
qed

lemma core_port:
  assumes "stp_core s = stp_core t" and "i < length (st_ports s)"
  shows "pcore (port s i) = pcore (port t i)"
proof -
  have "map pcore (st_ports s) ! i = map pcore (st_ports t) ! i" "i < length (st_ports t)"
    using assms info_bridge(5)[OF core_info[OF assms(1)]] by (simp_all add: stp_core_def)
  then show ?thesis using assms(2) by simp
qed

lemma info_designated:
  assumes "stp_info s = stp_info t" and "i < length (st_ports s)"
  shows "stp_is_designated_port s i = stp_is_designated_port t i"
  using info_port[OF assms] info_bridge(1)[OF assms(1)] by (simp add: stp_is_designated_port_def pinfo_def)

subsection \<open>Loops over the enabled ports\<close>

text \<open>The loop written with \<open>stp_next_enabled_port\<close>, as the macro does.\<close>

lemma for_each_via_next:
  assumes "\<And>j t. length (st_ports (f j t)) = length (st_ports t)" and "i \<le> length (st_ports s)"
  shows "fold (\<lambda>i s. if sp_state (port s i) \<noteq> STP_DISABLED then f i s else s) [i..<length (st_ports s)] s =
    (case stp_next_enabled_port s i of
       None \<Rightarrow> s
     | Some j \<Rightarrow> fold (\<lambda>i s. if sp_state (port s i) \<noteq> STP_DISABLED then f i s else s)
                   [Suc j..<length (st_ports (f j s))] (f j s))"
  using assms(2)
proof (induction "length (st_ports s) - i" arbitrary: i)
  case 0
  then show ?case by (simp add: stp_next_enabled_port_def)
next
  case (Suc n)
  then have i: "i < length (st_ports s)" "[i..<length (st_ports s)] = i # [Suc i..<length (st_ports s)]"
    using upt_conv_Cons by auto
  show ?case
  proof (cases "sp_state (port s i) = STP_DISABLED")
    case True
    then have "stp_next_enabled_port s i = stp_next_enabled_port s (Suc i)"
      using i by (simp add: stp_next_enabled_port_def)
    then show ?thesis using True i Suc by simp
  next
    case False
    then have "stp_next_enabled_port s i = Some i" using i by (simp add: stp_next_enabled_port_def)
    then show ?thesis using False i assms(1) by simp
  qed
qed

lemma for_each_rule:
  assumes "I 0 s"
    and "\<And>k t. k < length (st_ports s) \<Longrightarrow> I k t \<Longrightarrow> sp_state (port t k) \<noteq> STP_DISABLED \<Longrightarrow> I (Suc k) (f k t)"
    and "\<And>k t. k < length (st_ports s) \<Longrightarrow> I k t \<Longrightarrow> sp_state (port t k) = STP_DISABLED \<Longrightarrow> I (Suc k) t"
  shows "I (length (st_ports s)) (for_each_enabled_port f s)"
proof -
  let ?g = "\<lambda>i s. if sp_state (port s i) \<noteq> STP_DISABLED then f i s else s"
  have "I m (fold ?g [0..<m] s)" if "m \<le> length (st_ports s)" for m
    using that by (induction m) (use assms in auto)
  then show ?thesis unfolding for_each_enabled_port_def by simp
qed

lemma for_each_preserves:
  assumes "P s" and "\<And>k t. k < length (st_ports s) \<Longrightarrow> P t \<Longrightarrow> sp_state (port t k) \<noteq> STP_DISABLED \<Longrightarrow> P (f k t)"
  shows "P (for_each_enabled_port f s)"
  by (rule for_each_rule[of "\<lambda>k. P"]) (use assms in auto)

lemma set_enabled_ports: "i \<in> set (enabled_ports s) \<longleftrightarrow> enabled_port s i"
  by (auto simp: enabled_ports_def enabled_port_def)

subsection \<open>Operations that only send, count and time\<close>

lemma send_bpdu_core [simp]: "stp_core (stp_send_bpdu s p b) = stp_core s"
proof -
  have "stp_core (s\<lparr>st_out := x\<rparr>) = stp_core s" for x by (simp add: stp_core_def bridge_info_def)
  then show ?thesis by (simp add: stp_send_bpdu_def pcore_def pinfo_def)
qed

lemma transmit_config_core [simp]: "stp_core (stp_transmit_config s p) = stp_core s"
  by (simp add: stp_transmit_config_def Let_def pcore_def pinfo_def)

lemma bpdu_generation_core [simp]: "stp_core (stp_config_bpdu_generation s) = stp_core s"
  unfolding stp_config_bpdu_generation_def by (rule for_each_preserves) simp_all

lemma transmit_tcn_core [simp]: "stp_core (stp_transmit_tcn s) = stp_core s"
  by (simp add: stp_transmit_tcn_def split: option.split)

lemma core_updates [simp]:
  "stp_core (s\<lparr>st_max_age := a\<rparr>) = stp_core s" "stp_core (s\<lparr>st_hello_time := a\<rparr>) = stp_core s"
  "stp_core (s\<lparr>st_forward_delay := a\<rparr>) = stp_core s" "stp_core (s\<lparr>st_elapsed_remainder := a\<rparr>) = stp_core s"
  "stp_core (s\<lparr>st_topology_change_detected := b\<rparr>) = stp_core s" "stp_core (s\<lparr>st_topology_change := b\<rparr>) = stp_core s"
  "stp_core (s\<lparr>st_hello_timer := t\<rparr>) = stp_core s" "stp_core (s\<lparr>st_tcn_timer := t\<rparr>) = stp_core s"
  "stp_core (s\<lparr>st_topology_change_timer := t\<rparr>) = stp_core s" "stp_core (s\<lparr>st_fdb_needs_flush := b\<rparr>) = stp_core s"
  "stp_core (s\<lparr>st_bridge_max_age := a\<rparr>) = stp_core s" "stp_core (s\<lparr>st_bridge_hello_time := a\<rparr>) = stp_core s"
  "stp_core (s\<lparr>st_bridge_forward_delay := a\<rparr>) = stp_core s" "stp_core (s\<lparr>st_rq_max_age := a\<rparr>) = stp_core s"
  "stp_core (s\<lparr>st_rq_hello_time := a\<rparr>) = stp_core s" "stp_core (s\<lparr>st_rq_forward_delay := a\<rparr>) = stp_core s"
  "stp_core (s\<lparr>st_ref_cnt := n\<rparr>) = stp_core s" "stp_core (s\<lparr>st_aux := n\<rparr>) = stp_core s"
  by (simp_all add: stp_core_def bridge_info_def)

lemma use_bridge_timers_core [simp]: "stp_core (use_bridge_timers s) = stp_core s"
  by (simp add: use_bridge_timers_def)

lemma update_bridge_timers_core [simp]: "stp_core (stp_update_bridge_timers s) = stp_core s"
  by (simp add: stp_update_bridge_timers_def Let_def)

lemma topology_change_detection_core [simp]: "stp_core (stp_topology_change_detection s) = stp_core s"
  by (simp add: stp_topology_change_detection_def Let_def)

lemma become_root_bridge_core [simp]: "stp_core (stp_become_root_bridge s) = stp_core s"
  by (simp add: stp_become_root_bridge_def Let_def)

lemma topology_change_acknowledged_core [simp]: "stp_core (stp_topology_change_acknowledged s) = stp_core s"
  by (simp add: stp_topology_change_acknowledged_def)

lemma acknowledge_topology_change_core [simp]: "stp_core (stp_acknowledge_topology_change s p) = stp_core s"
  by (simp add: stp_acknowledge_topology_change_def pcore_def pinfo_def)

lemma count_core [simp]: "stp_core (count_error p s) = stp_core s" "stp_core (count_rx p s) = stp_core s"
  by (simp_all add: count_error_def count_rx_def pcore_def pinfo_def)

lemma record_timeout_core [simp]: "stp_core (stp_record_config_timeout_values s c) = stp_core s"
  by (simp add: stp_record_config_timeout_values_def)

lemma tick_bridge_timers_core [simp]: "stp_core (tick_bridge_timers e s) = stp_core s"
  by (simp add: tick_bridge_timers_def stp_hello_timer_expiry_def stp_tcn_timer_expiry_def
      stp_topology_change_timer_expiry_def Let_def case_prod_unfold)

lemma hold_expiry_core [simp]: "stp_core (stp_hold_timer_expiry s p) = stp_core s"
  by (simp add: stp_hold_timer_expiry_def)

subsection \<open>Root selection\<close>

text \<open>\<open>stp_supersedes_root\<close> is a lexicographic comparison of priority vectors.\<close>

definition root_key :: "stp_port \<Rightarrow> stp_identifier \<times> int \<times> stp_identifier \<times> uint16_t \<times> uint16_t" where
  "root_key p = (sp_designated_root p, sint (port_cost p), sp_designated_bridge p, sp_designated_port p, sp_port_id p)"

lemma supersedes_root_key: "stp_supersedes_root root p \<longleftrightarrow> root_key p < root_key root"
  by (auto simp: stp_supersedes_root_def root_key_def less_prod_def Let_def)

text \<open>The ports that may lead to the root.\<close>

definition root_eligible :: "stp \<Rightarrow> nat \<Rightarrow> bool" where
  "root_eligible s i \<longleftrightarrow> enabled_port s i \<and> \<not> stp_is_designated_port s i \<and> sp_designated_root (port s i) < st_bridge_id s"

definition root_best :: "stp \<Rightarrow> nat list \<Rightarrow> nat option \<Rightarrow> bool" where
  "root_best s is x = (case x of
     None \<Rightarrow> \<forall>i \<in> set is. stp_is_designated_port s i \<or> sp_designated_root (port s i) \<ge> st_bridge_id s
   | Some r \<Rightarrow> r \<in> set is \<and> \<not> stp_is_designated_port s r \<and> sp_designated_root (port s r) < st_bridge_id s \<and>
       (\<forall>i \<in> set is. \<not> stp_is_designated_port s i \<and> sp_designated_root (port s i) < st_bridge_id s \<longrightarrow>
          root_key (port s r) \<le> root_key (port s i)))"

lemma root_candidate_step:
  assumes "root_best s is x"
  shows "root_best s (is @ [i]) (stp_root_candidate s i x)"
proof (cases "stp_is_designated_port s i \<or> sp_designated_root (port s i) \<ge> st_bridge_id s")
  case True
  then have "stp_root_candidate s i x = x" by (auto simp: stp_root_candidate_def)
  then show ?thesis using True assms by (cases x) (auto simp: root_best_def)
next
  case False
  show ?thesis
  proof (cases x)
    case None
    then have "stp_root_candidate s i x = Some i" using False by (auto simp: stp_root_candidate_def)
    then show ?thesis using False assms None by (auto simp: root_best_def)
  next
    case (Some r)
    then have c: "stp_root_candidate s i x = (if root_key (port s i) < root_key (port s r) then Some i else Some r)"
      using False by (auto simp: stp_root_candidate_def supersedes_root_key)
    show ?thesis
    proof (cases "root_key (port s i) < root_key (port s r)")
      case True
      then have "\<And>k. root_key (port s r) \<le> k \<Longrightarrow> root_key (port s i) \<le> k" by (meson order.trans less_imp_le)
      then show ?thesis using True c False assms Some by (auto simp: root_best_def)
    next
      case ge: False
      then show ?thesis using c False assms Some by (auto simp: root_best_def)
    qed
  qed
qed

lemma root_candidate_fold: "root_best s is (fold (stp_root_candidate s) is None)"
proof (induction "is" rule: rev_induct)
  case (snoc i "is")
  then show ?case using root_candidate_step by simp
qed (simp add: root_best_def)

lemma root_port_selected: "root_best s (enabled_ports s) (st_root_port (stp_root_selection s))"
  using root_candidate_fold[of s "enabled_ports s"]
  by (auto simp: stp_root_selection_def Let_def split: option.split)

lemma root_selection_fields [simp]:
  "st_ports (stp_root_selection s) = st_ports s" "st_bridge_id (stp_root_selection s) = st_bridge_id s"
  "st_first_changed_port (stp_root_selection s) = st_first_changed_port s"
  by (simp_all add: stp_root_selection_def Let_def split: option.split)

lemma root_selection_None:
  assumes "st_root_port (stp_root_selection s) = None"
  shows "st_designated_root (stp_root_selection s) = st_bridge_id s"
    and "st_root_path_cost (stp_root_selection s) = 0" and "\<not> root_eligible s i"
proof -
  show "st_designated_root (stp_root_selection s) = st_bridge_id s"
    and "st_root_path_cost (stp_root_selection s) = 0"
    using assms by (simp_all add: stp_root_selection_def Let_def split: option.splits)
  show "\<not> root_eligible s i" using root_port_selected[of s] assms
    by (auto simp: root_best_def root_eligible_def simp flip: set_enabled_ports)
qed

lemma root_selection_Some:
  assumes "st_root_port (stp_root_selection s) = Some r"
  shows "root_eligible s r" and "root_eligible s i \<Longrightarrow> root_key (port s r) \<le> root_key (port s i)"
    and "st_designated_root (stp_root_selection s) = sp_designated_root (port s r)"
    and "st_root_path_cost (stp_root_selection s) = port_cost (port s r)"
proof -
  note best = root_port_selected[of s, unfolded assms root_best_def option.case]
  show "root_eligible s r" using best by (simp add: root_eligible_def flip: set_enabled_ports)
  show "root_eligible s i \<Longrightarrow> root_key (port s r) \<le> root_key (port s i)"
    using best by (simp add: root_eligible_def flip: set_enabled_ports)
  show "st_designated_root (stp_root_selection s) = sp_designated_root (port s r)"
    and "st_root_path_cost (stp_root_selection s) = port_cost (port s r)"
    using assms by (simp_all add: stp_root_selection_def Let_def split: option.splits)
qed

subsection \<open>Designated ports\<close>

lemma become_designated_port:
  assumes "i < length (st_ports s)"
  shows "sp_designated_root (port (stp_become_designated_port i s) i) = st_designated_root s"
    and "stp_is_designated_port (stp_become_designated_port i s) i"
    and "sp_state (port (stp_become_designated_port i s) j) = sp_state (port s j)"
    and "sp_state_changed (port (stp_become_designated_port i s) j) = sp_state_changed (port s j)"
    and "j \<noteq> i \<Longrightarrow> port (stp_become_designated_port i s) j = port s j"
    and "bridge_info (stp_become_designated_port i s) = bridge_info s"
  using assms by (auto simp: stp_become_designated_port_def stp_is_designated_port_def)

lemma become_designated_fields [simp]:
  "st_first_changed_port (stp_become_designated_port i s) = st_first_changed_port s"
  "length (st_ports (stp_become_designated_port i s)) = length (st_ports s)"
  by (simp_all add: stp_become_designated_port_def)

text \<open>What the selection of designated ports leaves alone.\<close>

definition same_states :: "stp \<Rightarrow> stp \<Rightarrow> bool" where
  "same_states s t \<longleftrightarrow> st_first_changed_port s = st_first_changed_port t \<and>
     length (st_ports s) = length (st_ports t) \<and>
     (\<forall>i < length (st_ports s). sp_state (port s i) = sp_state (port t i) \<and>
        sp_state_changed (port s i) = sp_state_changed (port t i))"

lemma same_states_trans: "same_states s t \<Longrightarrow> same_states t u \<Longrightarrow> same_states s u"
  by (auto simp: same_states_def)

lemma become_designated_states: "same_states (stp_become_designated_port i s) s"
proof (cases "i < length (st_ports s)")
  case True
  then show ?thesis using become_designated_port(3,4)[of i s] by (simp add: same_states_def)
qed (simp add: same_states_def stp_become_designated_port_def upd_port_def)

text \<open>
  After the loop every enabled port agrees with the bridge on the root, and an enabled port that is
  not designated holds information that is better than what the bridge would send on it.
\<close>

definition port_settled :: "stp \<Rightarrow> nat \<Rightarrow> bool" where
  "port_settled s i \<longleftrightarrow> (enabled_port s i \<longrightarrow> sp_designated_root (port s i) = st_designated_root s \<and>
     (stp_is_designated_port s i \<or> \<not> stp_designated_test s i))"

lemma port_settled_cong:
  assumes "port s i = port t i" and "bridge_info s = bridge_info t" and "length (st_ports s) = length (st_ports t)"
  shows "port_settled s i = port_settled t i"
  using assms by (simp add: port_settled_def enabled_port_def stp_is_designated_port_def stp_designated_test_def
      bridge_info_def Let_def)

lemma designated_port_selection:
  shows "bridge_info (stp_designated_port_selection s) = bridge_info s"
    and "same_states (stp_designated_port_selection s) s"
    and "i < length (st_ports s) \<Longrightarrow> port_settled (stp_designated_port_selection s) i"
proof -
  let ?I = "\<lambda>k t. bridge_info t = bridge_info s \<and> same_states t s \<and> (\<forall>j < k. port_settled t j)"
  have "?I (length (st_ports s)) (stp_designated_port_selection s)"
    unfolding stp_designated_port_selection_def
  proof (rule for_each_rule[of ?I])
    fix k t assume k: "k < length (st_ports s)" and I: "?I k t" and en: "sp_state (port t k) \<noteq> STP_DISABLED"
    let ?u = "stp_become_designated_port k t"
    have kt: "k < length (st_ports t)" using k I by (simp add: same_states_def)
    note b = become_designated_port[OF kt]
    have old: "port_settled ?u j" if "j < k" for j
      using that I b(5)[of j] b(6) port_settled_cong[of ?u j t] by simp
    show "?I (Suc k) (if stp_designated_test t k then ?u else t)"
    proof (cases "stp_designated_test t k")
      case True
      have "port_settled ?u k" using b(1,2,6) by (simp add: port_settled_def bridge_info_def)
      then show ?thesis using True old I b(6) same_states_trans[OF become_designated_states]
        by (auto simp: less_Suc_eq)
    next
      case False
      then have "port_settled t k" by (auto simp: port_settled_def stp_designated_test_def Let_def)
      then show ?thesis using False I by (auto simp: less_Suc_eq)
    qed
  next
    fix k t assume k: "k < length (st_ports s)" and I: "?I k t" and "sp_state (port t k) = STP_DISABLED"
    then have "port_settled t k" by (simp add: port_settled_def enabled_port_def)
    then show "?I (Suc k) t" using I by (auto simp: less_Suc_eq)
  qed (simp add: same_states_def)
  then show "bridge_info (stp_designated_port_selection s) = bridge_info s"
    and "same_states (stp_designated_port_selection s) s"
    and "i < length (st_ports s) \<Longrightarrow> port_settled (stp_designated_port_selection s) i" by auto
qed

text \<open>
  The priority vectors of the standard: what a port holds, and what the bridge would send on it; a
  smaller vector is better.
\<close>

definition port_vector :: "stp_port \<Rightarrow> uint32_t \<times> stp_identifier \<times> uint16_t" where
  "port_vector p = (sp_designated_cost p, sp_designated_bridge p, sp_designated_port p)"

definition own_vector :: "stp \<Rightarrow> nat \<Rightarrow> uint32_t \<times> stp_identifier \<times> uint16_t" where
  "own_vector s i = (st_root_path_cost s, st_bridge_id s, sp_port_id (port s i))"

lemma designated_test_vector:
  "stp_designated_test s i \<longleftrightarrow> stp_is_designated_port s i \<or> sp_designated_root (port s i) \<noteq> st_designated_root s \<or>
     own_vector s i \<le> port_vector (port s i)"
  by (auto simp: stp_designated_test_def own_vector_def port_vector_def less_eq_prod_def Let_def)

text \<open>What the loop makes of one port.\<close>

definition designated_port :: "stp \<Rightarrow> nat \<Rightarrow> stp_port" where
  "designated_port s i =
     (if sp_state (port s i) \<noteq> STP_DISABLED \<and> stp_designated_test s i then port (stp_become_designated_port i s) i else port s i)"

lemma designated_port_selection_port:
  assumes "i < length (st_ports s)"
  shows "port (stp_designated_port_selection s) i = designated_port s i"
proof -
  let ?I = "\<lambda>k t. bridge_info t = bridge_info s \<and> length (st_ports t) = length (st_ports s) \<and>
    (\<forall>j < length (st_ports s). port t j = (if j < k then designated_port s j else port s j))"
  have "?I (length (st_ports s)) (stp_designated_port_selection s)"
    unfolding stp_designated_port_selection_def
  proof (rule for_each_rule[of ?I])
    fix k t assume k: "k < length (st_ports s)" and I: "?I k t" and en: "sp_state (port t k) \<noteq> STP_DISABLED"
    let ?u = "stp_become_designated_port k t"
    have kt: "k < length (st_ports t)" and pk: "port t k = port s k" using k I by simp_all
    have test: "stp_designated_test t k = stp_designated_test s k"
      using I pk by (simp add: stp_designated_test_def stp_is_designated_port_def bridge_info_def)
    have new: "port ?u k = port (stp_become_designated_port k s) k"
      using I pk k by (simp add: stp_become_designated_port_def bridge_info_def)
    note b = become_designated_port(5,6)[OF kt]
    show "?I (Suc k) (if stp_designated_test t k then ?u else t)"
      using I pk test new en b(2) b(1) by (auto simp: designated_port_def less_Suc_eq)
  next
    fix k t assume k: "k < length (st_ports s)" and I: "?I k t" and "sp_state (port t k) = STP_DISABLED"
    then show "?I (Suc k) t" by (auto simp: designated_port_def less_Suc_eq)
  qed simp
  then show ?thesis using assms by simp
qed

subsection \<open>Port states\<close>

definition changed_ok :: "stp \<Rightarrow> bool" where
  "changed_ok s \<longleftrightarrow> (\<forall>i < length (st_ports s). sp_state_changed (port s i) \<longrightarrow> st_first_changed_port s \<le> i)"

lemma changed_ok_core: "stp_core s = stp_core t \<Longrightarrow> changed_ok s = changed_ok t"
  using core_port[of s t] info_bridge(5)[OF core_info, of s t]
  by (simp add: changed_ok_def pcore_def stp_core_def)

lemma changed_ok_states: "same_states s t \<Longrightarrow> changed_ok s = changed_ok t"
  by (simp add: changed_ok_def same_states_def)

lemma set_port_state_fields [simp]:
  "bridge_info (stp_set_port_state i st s) = bridge_info s"
  "length (st_ports (stp_set_port_state i st s)) = length (st_ports s)"
  by (simp_all add: stp_set_port_state_def Let_def bridge_info_def seq_change_def)

lemma first_changed_info [simp]: "stp_info (s\<lparr>st_first_changed_port := x\<rparr>) = stp_info s"
  by (simp add: stp_info_def bridge_info_def)

lemma set_port_state_info [simp]: "stp_info (stp_set_port_state i st s) = stp_info s"
  by (simp add: stp_set_port_state_def Let_def pinfo_def)

lemma set_port_state_port:
  assumes "i < length (st_ports s)"
  shows "sp_state (port (stp_set_port_state i st s) j) = (if i = j then st else sp_state (port s j))"
  using assms by (simp add: stp_set_port_state_def Let_def)

lemma set_port_state_changed:
  assumes "i < length (st_ports s)" and "changed_ok s"
  shows "changed_ok (stp_set_port_state i st s)"
  using assms by (auto simp: stp_set_port_state_def Let_def changed_ok_def split: if_splits)

text \<open>The states an enabled port may have after the selection, by its role.\<close>

definition role_state :: "stp \<Rightarrow> nat \<Rightarrow> stp_state \<Rightarrow> bool" where
  "role_state s i st \<longleftrightarrow>
     (if st_root_port s = Some i \<or> stp_is_designated_port s i then st \<noteq> STP_BLOCKING else st = STP_BLOCKING)"

lemma role_state_info:
  assumes "stp_info s = stp_info t" and "i < length (st_ports s)"
  shows "role_state s i = role_state t i"
  using info_designated[OF assms] info_bridge(4)[OF assms(1)] by (simp add: role_state_def fun_eq_iff)

text \<open>One round of the loop: it only changes the state of its port, and chooses one that suits its role.\<close>

definition step_at :: "nat \<Rightarrow> stp \<Rightarrow> stp \<Rightarrow> bool" where
  "step_at i s t \<longleftrightarrow> stp_info t = stp_info s \<and> (changed_ok s \<longrightarrow> changed_ok t) \<and>
     (\<forall>j < length (st_ports s). j \<noteq> i \<longrightarrow> sp_state (port t j) = sp_state (port s j))"

lemma step_at_trans: "step_at i s t \<Longrightarrow> step_at i t u \<Longrightarrow> step_at i s u"
  using info_bridge(5)[of t s] by (auto simp: step_at_def)

lemma step_at_core: "stp_core t = stp_core s \<Longrightarrow> step_at i s t"
  using core_info[of t s] changed_ok_core[of t s] core_port[of t s] info_bridge(5)[of t s]
  by (simp add: step_at_def pcore_def)

lemma step_at_set_port_state: "i < length (st_ports s) \<Longrightarrow> step_at i s (stp_set_port_state i st s)"
  using set_port_state_changed set_port_state_port by (simp add: step_at_def)

lemma core_state: "stp_core t = stp_core s \<Longrightarrow> j < length (st_ports s) \<Longrightarrow> sp_state (port t j) = sp_state (port s j)"
  using core_port[of t s j] info_bridge(5)[OF core_info, of t s] by (simp add: pcore_def)

lemma core_length: "stp_core t = stp_core s \<Longrightarrow> length (st_ports t) = length (st_ports s)"
  by (rule info_bridge(5)[OF core_info])

lemma make_forwarding_step:
  assumes "i < length (st_ports s)"
  shows "step_at i s (stp_make_forwarding i s)"
    and "sp_state (port (stp_make_forwarding i s) i) =
      (if sp_state (port s i) = STP_BLOCKING then STP_LISTENING else sp_state (port s i))"
proof -
  let ?u = "stp_set_port_state i STP_LISTENING s"
  let ?v = "upd_port i (\<lambda>p. p\<lparr>sp_forward_delay_timer := stp_start_timer 0 (sp_forward_delay_timer p)\<rparr>) ?u"
  have "step_at i ?u ?v" by (rule step_at_core) (simp add: pcore_def pinfo_def)
  then have "step_at i s ?v" by (rule step_at_trans[OF step_at_set_port_state[OF assms]])
  then show "step_at i s (stp_make_forwarding i s)"
    using step_at_core[of s s] by (simp add: stp_make_forwarding_def)
  show "sp_state (port (stp_make_forwarding i s) i) =
      (if sp_state (port s i) = STP_BLOCKING then STP_LISTENING else sp_state (port s i))"
    using assms set_port_state_port[OF assms] by (simp add: stp_make_forwarding_def)
qed

lemma make_blocking_step:
  assumes "i < length (st_ports s)" and "sp_state (port s i) \<noteq> STP_DISABLED"
  shows "step_at i s (stp_make_blocking i s)" and "sp_state (port (stp_make_blocking i s) i) = STP_BLOCKING"
proof -
  define t where "t = (if sp_state (port s i) \<in> {STP_FORWARDING, STP_LEARNING} \<and> sp_change_detection_enabled (port s i)
    then stp_topology_change_detection s else s)"
  let ?u = "stp_set_port_state i STP_BLOCKING t"
  let ?v = "upd_port i (\<lambda>p. p\<lparr>sp_forward_delay_timer := stp_stop_timer (sp_forward_delay_timer p)\<rparr>) ?u"
  have t: "stp_core t = stp_core s" by (simp add: t_def)
  have it: "i < length (st_ports t)" using assms(1) core_length[OF t] by simp
  have eq: "stp_make_blocking i s = (if sp_state (port s i) = STP_BLOCKING then s else ?v)"
    using assms(2) by (simp add: stp_make_blocking_def t_def Let_def)
  have "step_at i ?u ?v" by (rule step_at_core) (simp add: pcore_def pinfo_def)
  then have "step_at i s ?v"
    using step_at_trans step_at_core[OF t] step_at_set_port_state[OF it] by blast
  then show "step_at i s (stp_make_blocking i s)" using eq step_at_core[of s s] by simp
  show "sp_state (port (stp_make_blocking i s) i) = STP_BLOCKING"
    using eq it set_port_state_port[OF it] by simp
qed

lemma select_port_state_step:
  assumes i: "i < length (st_ports s)" and en: "sp_state (port s i) \<noteq> STP_DISABLED"
  shows "step_at i s (stp_select_port_state i s)"
    and "role_state s i (sp_state (port (stp_select_port_state i s) i))"
    and "sp_state (port (stp_select_port_state i s) i) \<noteq> STP_DISABLED"
proof -
  define f where "f = (if st_root_port s \<noteq> Some i \<and> stp_is_designated_port s i
    then (\<lambda>p. p\<lparr>sp_message_age_timer := stp_stop_timer (sp_message_age_timer p)\<rparr>)
    else (\<lambda>p :: stp_port. p\<lparr>sp_config_pending := False, sp_topology_change_ack := False\<rparr>))"
  let ?t = "upd_port i f s"
  have core: "stp_core ?t = stp_core s" by (simp add: f_def pcore_def pinfo_def)
  have it: "i < length (st_ports ?t)" using i by simp
  have ent: "sp_state (port ?t i) = sp_state (port s i)" using core_state[OF core i] .
  have eq: "stp_select_port_state i s =
    (if st_root_port s = Some i \<or> stp_is_designated_port s i then stp_make_forwarding i ?t else stp_make_blocking i ?t)"
    by (simp add: stp_select_port_state_def f_def)
  note mf = make_forwarding_step[OF it] and mb = make_blocking_step[OF it, unfolded ent, OF en]
  show "step_at i s (stp_select_port_state i s)"
    using eq mf(1) mb(1) step_at_trans[OF step_at_core[OF core]] by simp
  show "role_state s i (sp_state (port (stp_select_port_state i s) i))"
    and "sp_state (port (stp_select_port_state i s) i) \<noteq> STP_DISABLED"
    using eq mf(2) mb(2) en ent by (auto simp: role_state_def)
qed

lemma port_state_selection:
  shows "stp_info (stp_port_state_selection s) = stp_info s"
    and "changed_ok s \<Longrightarrow> changed_ok (stp_port_state_selection s)"
    and "enabled_port (stp_port_state_selection s) i = enabled_port s i"
    and "enabled_port s i \<Longrightarrow> role_state s i (sp_state (port (stp_port_state_selection s) i))"
proof -
  let ?en = "\<lambda>t j. sp_state (port t j) \<noteq> STP_DISABLED"
  let ?I = "\<lambda>k t. stp_info t = stp_info s \<and> (changed_ok s \<longrightarrow> changed_ok t) \<and>
    (\<forall>j < length (st_ports s). ?en t j = ?en s j) \<and>
    (\<forall>j < length (st_ports s). j < k \<longrightarrow> ?en s j \<longrightarrow> role_state s j (sp_state (port t j)))"
  have "?I (length (st_ports s)) (stp_port_state_selection s)"
    unfolding stp_port_state_selection_def
  proof (rule for_each_rule[of ?I])
    fix k t assume k: "k < length (st_ports s)" and I: "?I k t" and en: "?en t k"
    have kt: "k < length (st_ports t)" and l: "length (st_ports t) = length (st_ports s)"
      using k I info_bridge(5)[of t s] by auto
    note st = select_port_state_step[OF kt en]
    have r: "role_state s k (sp_state (port (stp_select_port_state k t) k))"
      using st(2) role_state_info[of t s k] I kt by simp
    have oth: "sp_state (port (stp_select_port_state k t) j) = sp_state (port t j)"
      if "j < length (st_ports s)" "j \<noteq> k" for j
      using st(1) that l by (simp add: step_at_def)
    have 1: "stp_info (stp_select_port_state k t) = stp_info s"
      and 2: "changed_ok s \<longrightarrow> changed_ok (stp_select_port_state k t)"
      using st(1) I by (auto simp: step_at_def)
    have 3: "?en (stp_select_port_state k t) j = ?en s j" if "j < length (st_ports s)" for j
      using that oth st(3) I en by (cases "j = k") auto
    have 4: "role_state s j (sp_state (port (stp_select_port_state k t) j))"
      if "j < length (st_ports s)" "j < Suc k" "?en s j" for j
      using that oth r I by (cases "j = k") auto
    show "?I (Suc k) (stp_select_port_state k t)" using 1 2 3 4 by blast
  next
    fix k t assume "k < length (st_ports s)" and I: "?I k t" and "sp_state (port t k) = STP_DISABLED"
    then show "?I (Suc k) t" by (auto simp: less_Suc_eq)
  qed simp
  then show "stp_info (stp_port_state_selection s) = stp_info s"
    and "changed_ok s \<Longrightarrow> changed_ok (stp_port_state_selection s)"
    and "enabled_port (stp_port_state_selection s) i = enabled_port s i"
    and "enabled_port s i \<Longrightarrow> role_state s i (sp_state (port (stp_port_state_selection s) i))"
    using info_bridge(5)[of "stp_port_state_selection s" s] by (auto simp: enabled_port_def)
qed

subsection \<open>Invariant\<close>

text \<open>
  The bridge has a root port exactly when it is not the root, the root port is enabled, and every
  enabled port agrees with the bridge on the root.
\<close>

definition config_ok :: "stp \<Rightarrow> bool" where
  "config_ok s \<longleftrightarrow> (st_root_port s = None \<longleftrightarrow> stp_is_root_bridge s) \<and>
     st_designated_root s \<le> st_bridge_id s \<and>
     (\<forall>r. st_root_port s = Some r \<longrightarrow> enabled_port s r) \<and>
     (\<forall>i. enabled_port s i \<longrightarrow> sp_designated_root (port s i) = st_designated_root s)"

definition port_active :: "stp \<Rightarrow> nat \<Rightarrow> bool" where
  "port_active s i \<longleftrightarrow> i < length (st_ports s) \<and> sp_state (port s i) \<in> {STP_LISTENING, STP_LEARNING, STP_FORWARDING}"

text \<open>No port outside the spanning tree is on its way to forwarding.\<close>

definition stp_inv :: "stp \<Rightarrow> bool" where
  "stp_inv s \<longleftrightarrow> config_ok s \<and> changed_ok s \<and>
     (\<forall>i. port_active s i \<longrightarrow> st_root_port s = Some i \<or> stp_is_designated_port s i)"

lemma config_ok_cong:
  assumes "stp_info s = stp_info t" and "\<And>i. enabled_port s i = enabled_port t i"
  shows "config_ok s = config_ok t"
proof -
  have "enabled_port t i \<Longrightarrow> sp_designated_root (port s i) = sp_designated_root (port t i)" for i
    using info_port[OF assms(1), of i] info_bridge(5)[OF assms(1)] by (simp add: enabled_port_def pinfo_def)
  then show ?thesis
    using info_bridge[OF assms(1)] assms(2) by (simp add: config_ok_def stp_is_root_bridge_def cong: conj_cong)
qed

lemma core_enabled: "stp_core s = stp_core t \<Longrightarrow> enabled_port s i = enabled_port t i"
  using core_state[of s t i] core_length[of s t] by (auto simp: enabled_port_def)

lemma core_active: "stp_core s = stp_core t \<Longrightarrow> port_active s i = port_active t i"
  using core_state[of s t i] core_length[of s t] by (auto simp: port_active_def)

lemma inv_core:
  assumes "stp_core s = stp_core t"
  shows "stp_inv s = stp_inv t"
proof -
  note i = core_info[OF assms]
  have "port_active t k \<Longrightarrow> stp_is_designated_port s k = stp_is_designated_port t k" for k
    using info_designated[OF i, of k] info_bridge(5)[OF i] by (simp add: port_active_def)
  then show ?thesis
    using config_ok_cong[OF i core_enabled[OF assms]] changed_ok_core[OF assms] core_active[OF assms] info_bridge(4)[OF i]
    by (simp add: stp_inv_def)
qed

lemma states_enabled: "same_states s t \<Longrightarrow> enabled_port s i = enabled_port t i"
  by (auto simp: same_states_def enabled_port_def)

lemma root_selection_states: "same_states (stp_root_selection s) s"
  by (simp add: same_states_def)

lemma configuration_update:
  shows "same_states (stp_configuration_update s) s" and "config_ok (stp_configuration_update s)"
    and "enabled_port s i \<Longrightarrow> port_settled (stp_configuration_update s) i"
    and "bridge_info (stp_configuration_update s) = bridge_info (stp_root_selection s)"
proof -
  let ?r = "stp_root_selection s"
  let ?u = "stp_designated_port_selection ?r"
  note d = designated_port_selection[where s = ?r]
  have ss: "same_states ?u s" using same_states_trans[OF d(2) root_selection_states] .
  have en: "enabled_port ?u i = enabled_port s i" for i using states_enabled[OF ss] .
  have settled: "port_settled ?u i" if "enabled_port s i" for i
    using d(3)[of i] that by (simp add: enabled_port_def)
  have b: "st_bridge_id ?u = st_bridge_id s" "st_designated_root ?u = st_designated_root ?r" "st_root_port ?u = st_root_port ?r"
    using d(1) by (simp_all add: bridge_info_def)
  have root: "case st_root_port ?u of None \<Rightarrow> st_designated_root ?u = st_bridge_id ?u
    | Some r \<Rightarrow> enabled_port s r \<and> st_designated_root ?u < st_bridge_id ?u"
    using b root_selection_None[of s] root_selection_Some[of s] by (auto simp: root_eligible_def split: option.split)
  have "config_ok ?u" using root settled en
    by (auto simp: config_ok_def stp_is_root_bridge_def port_settled_def split: option.splits)
  then show "config_ok (stp_configuration_update s)"
    unfolding stp_configuration_update_def
    using config_ok_cong[of "seq_change ?u" ?u] by (simp add: enabled_port_def)
  show "same_states (stp_configuration_update s) s"
    using ss by (simp add: stp_configuration_update_def same_states_def)
  show "enabled_port s i \<Longrightarrow> port_settled (stp_configuration_update s) i"
    unfolding stp_configuration_update_def
    using settled[of i] port_settled_cong[of "seq_change ?u" i ?u] by simp
  show "bridge_info (stp_configuration_update s) = bridge_info ?r"
    using d(1) by (simp add: stp_configuration_update_def)
qed

lemma recomputed_port:
  assumes "enabled_port s i"
  defines "c \<equiv> stp_configuration_update s"
  shows "stp_is_designated_port c i \<longleftrightarrow> stp_is_designated_port s i \<or>
      sp_designated_root (port s i) \<noteq> st_designated_root c \<or> own_vector c i \<le> port_vector (port s i)"
    and "sp_designated_root (port c i) = st_designated_root c"
    and "port_vector (port c i) = (if stp_is_designated_port c i then own_vector c i else port_vector (port s i))"
proof -
  let ?r = "stp_root_selection s"
  have i: "i < length (st_ports ?r)" "sp_state (port ?r i) \<noteq> STP_DISABLED" and pr: "port ?r i = port s i" "st_bridge_id ?r = st_bridge_id s"
    using assms(1) by (simp_all add: enabled_port_def)
  have pc: "port c i = designated_port ?r i"
    using designated_port_selection_port[OF i(1)] by (simp add: c_def stp_configuration_update_def)
  have bi: "bridge_info c = bridge_info ?r" using configuration_update(4) by (simp add: c_def)
  have test: "stp_designated_test ?r i \<longleftrightarrow> stp_is_designated_port s i \<or>
      sp_designated_root (port s i) \<noteq> st_designated_root c \<or> own_vector c i \<le> port_vector (port s i)"
    unfolding designated_test_vector using pr bi pc i
    by (auto simp: stp_is_designated_port_def own_vector_def bridge_info_def designated_port_def stp_become_designated_port_def)
  have yes: "stp_is_designated_port c i \<and> port_vector (port c i) = own_vector c i" if "stp_designated_test ?r i"
    using that i pc bi by (simp add: designated_port_def stp_become_designated_port_def stp_is_designated_port_def
        port_vector_def own_vector_def bridge_info_def)
  have no: "\<not> stp_is_designated_port c i \<and> port_vector (port c i) = port_vector (port s i)" if "\<not> stp_designated_test ?r i"
    using that pc bi pr by (auto simp: designated_port_def stp_is_designated_port_def designated_test_vector bridge_info_def)
  show "stp_is_designated_port c i \<longleftrightarrow> stp_is_designated_port s i \<or>
      sp_designated_root (port s i) \<noteq> st_designated_root c \<or> own_vector c i \<le> port_vector (port s i)"
    using yes no test by blast
  show "port_vector (port c i) = (if stp_is_designated_port c i then own_vector c i else port_vector (port s i))"
    using yes no by auto
  show "sp_designated_root (port c i) = st_designated_root c"
    using configuration_update(3)[OF assms(1)] states_enabled[OF configuration_update(1)] assms(1)
    by (simp add: c_def port_settled_def)
qed

lemma state_selection_inv:
  assumes "config_ok s" and "changed_ok s"
  shows "stp_inv (stp_port_state_selection s)" and "length (st_ports (stp_port_state_selection s)) = length (st_ports s)"
proof -
  note p = port_state_selection[where s = s]
  let ?t = "stp_port_state_selection s"
  have "config_ok ?t" using config_ok_cong[OF p(1)] p(3) assms(1) by simp
  moreover have "st_root_port ?t = Some i \<or> stp_is_designated_port ?t i" if a: "port_active ?t i" for i
  proof -
    have i: "i < length (st_ports s)" using a info_bridge(5)[OF p(1)] by (simp add: port_active_def)
    have en: "enabled_port s i" using a p(3)[of i] by (auto simp: port_active_def enabled_port_def)
    have "sp_state (port ?t i) \<noteq> STP_BLOCKING" using a by (auto simp: port_active_def)
    then have "st_root_port s = Some i \<or> stp_is_designated_port s i"
      using p(4)[OF en] by (simp add: role_state_def split: if_splits)
    then show ?thesis using info_bridge(4,5)[OF p(1)] info_designated[OF p(1), of i] i by simp
  qed
  ultimately show "stp_inv ?t" using p(2)[OF assms(2)] by (simp add: stp_inv_def)
  show "length (st_ports ?t) = length (st_ports s)" using info_bridge(5)[OF p(1)] .
qed

text \<open>Recomputing establishes the invariant from any state whose changed ports are tracked.\<close>

lemma recompute_inv:
  assumes "changed_ok s"
  shows "stp_inv (stp_recompute s)" and "length (st_ports (stp_recompute s)) = length (st_ports s)"
    and "enabled_port (stp_recompute s) i = enabled_port s i"
proof -
  let ?c = "stp_configuration_update s"
  note c = configuration_update[where s = s]
  have ok: "changed_ok ?c" using changed_ok_states[OF c(1)] assms by simp
  note p = state_selection_inv[OF c(2) ok]
  show "stp_inv (stp_recompute s)" by (rule p(1))
  show "length (st_ports (stp_recompute s)) = length (st_ports s)"
    using p(2) c(1) by (simp add: same_states_def)
  show "enabled_port (stp_recompute s) i = enabled_port s i"
    using port_state_selection(3)[of ?c i] states_enabled[OF c(1)] by simp
qed

text \<open>Every operation below keeps the number of ports, and the invariant.\<close>

definition stp_inv_n :: "nat \<Rightarrow> stp \<Rightarrow> bool" where
  "stp_inv_n n s \<longleftrightarrow> stp_inv s \<and> length (st_ports s) = n"

lemma inv_n_core: "stp_core t = stp_core s \<Longrightarrow> stp_inv_n n s \<Longrightarrow> stp_inv_n n t"
  using inv_core[of t s] core_length[of t s] by (simp add: stp_inv_n_def)

lemma recompute_inv_n: "changed_ok s \<Longrightarrow> length (st_ports s) = n \<Longrightarrow> stp_inv_n n (stp_recompute s)"
  using recompute_inv[of s] by (simp add: stp_inv_n_def)

lemma inv_changed: "stp_inv_n n s \<Longrightarrow> changed_ok s" and inv_length: "stp_inv_n n s \<Longrightarrow> length (st_ports s) = n"
  by (simp_all add: stp_inv_n_def stp_inv_def)

lemma upd_port_changed:
  assumes "\<And>p. sp_state_changed (f p) = sp_state_changed p" and "changed_ok s"
  shows "changed_ok (upd_port i f s)"
proof (cases "i < length (st_ports s)")
  case True
  then show ?thesis using assms by (simp add: changed_ok_def)
qed (use assms in \<open>simp add: upd_port_def list_update_beyond\<close>)

lemma received_config_inv:
  assumes "stp_inv_n n s"
  shows "stp_inv_n n (stp_received_config_bpdu s p c)"
proof -
  let ?u = "stp_recompute (stp_record_config_information s p c)"
  have u: "stp_inv_n n ?u"
    using upd_port_changed inv_changed[OF assms] inv_length[OF assms]
    by (intro recompute_inv_n) (simp_all add: stp_record_config_information_def)
  have "stp_core (stp_received_config_bpdu s p c) \<in> {stp_core s, stp_core ?u}"
    by (simp add: stp_received_config_bpdu_def Let_def)
  then show ?thesis using assms u inv_n_core by blast
qed

lemma received_bpdu_inv:
  assumes "stp_inv_n n s"
  shows "stp_inv_n n (stp_received_bpdu s p b)"
proof -
  have "stp_core (stp_received_tcn_bpdu s p) = stp_core s"
    by (simp add: stp_received_tcn_bpdu_def)
  then have "stp_core (stp_received_bpdu s p b) \<in> {stp_core s, stp_core (stp_received_config_bpdu s p (stp_parse_config b))}"
    by (simp add: stp_received_bpdu_def Let_def)
  then show ?thesis using assms received_config_inv[OF assms] inv_n_core by blast
qed

lemma become_designated_changed: "changed_ok (stp_become_designated_port i s) = changed_ok s"
  using changed_ok_states[OF become_designated_states] .

lemma message_age_expiry_inv:
  assumes "stp_inv_n n s"
  shows "stp_inv_n n (stp_message_age_timer_expiry s p)"
proof -
  let ?u = "stp_recompute (stp_become_designated_port p s)"
  have u: "stp_inv_n n ?u"
    using inv_changed[OF assms] inv_length[OF assms] by (intro recompute_inv_n) (simp_all add: become_designated_changed)
  have "stp_core (stp_message_age_timer_expiry s p) = stp_core ?u"
    by (simp add: stp_message_age_timer_expiry_def Let_def)
  then show ?thesis using u inv_n_core by blast
qed

lemma advance_state_inv:
  assumes "stp_inv_n n s" and "port_active s i" and "st \<in> {STP_LISTENING, STP_LEARNING, STP_FORWARDING}"
  shows "stp_inv_n n (stp_set_port_state i st s)"
proof -
  let ?u = "stp_set_port_state i st s"
  have i: "i < length (st_ports s)" using assms(2) by (simp add: port_active_def)
  have info: "stp_info ?u = stp_info s" by simp
  have en: "enabled_port ?u j = enabled_port s j" and act: "port_active ?u j = port_active s j" for j
    using assms(2,3) set_port_state_port[OF i] by (auto simp: enabled_port_def port_active_def)
  have "port_active s j \<Longrightarrow> stp_is_designated_port ?u j = stp_is_designated_port s j" for j
    using info_designated[OF info, of j] by (simp add: port_active_def)
  then show ?thesis
    using assms(1) config_ok_cong[OF info en] act set_port_state_changed[OF i] info_bridge(4)[OF info]
    by (simp add: stp_inv_n_def stp_inv_def)
qed

lemma forward_delay_expiry_inv:
  assumes "stp_inv_n n s" and "i < n"
  shows "stp_inv_n n (stp_forward_delay_timer_expiry s i)"
proof -
  let ?st = "if sp_state (port s i) = STP_LISTENING then STP_LEARNING else STP_FORWARDING"
  let ?u = "stp_set_port_state i ?st s"
  show ?thesis
  proof (cases "sp_state (port s i) \<in> {STP_LISTENING, STP_LEARNING}")
    case True
    then have "stp_core (stp_forward_delay_timer_expiry s i) = stp_core ?u"
      by (auto simp: stp_forward_delay_timer_expiry_def Let_def pcore_def pinfo_def)
    moreover have "stp_inv_n n ?u"
      using True assms inv_length[OF assms(1)] by (intro advance_state_inv) (auto simp: port_active_def)
    ultimately show ?thesis using inv_n_core by blast
  next
    case False
    then show ?thesis using assms(1) by (simp add: stp_forward_delay_timer_expiry_def)
  qed
qed

lemma tick_inv:
  assumes "stp_inv_n n s"
  shows "stp_inv_n n (stp_tick s ms)"
proof -
  have msg: "stp_inv_n n (tick_message_age e k t)" if "stp_inv_n n t" for e k t
  proof -
    have "stp_inv_n n (upd_port k (\<lambda>p. p\<lparr>sp_message_age_timer := x\<rparr>) t)" for x by (rule inv_n_core[OF _ that]) (simp add: pcore_def pinfo_def)
    then show ?thesis using message_age_expiry_inv by (simp add: tick_message_age_def Let_def case_prod_unfold)
  qed
  have fwd: "stp_inv_n n (tick_forward_delay e k t)" if "stp_inv_n n t" "k < n" for e k t
  proof -
    have "stp_inv_n n (upd_port k (\<lambda>p. p\<lparr>sp_forward_delay_timer := x\<rparr>) t)" for x by (rule inv_n_core[OF _ that(1)]) (simp add: pcore_def pinfo_def)
    then show ?thesis using forward_delay_expiry_inv that(2) by (simp add: tick_forward_delay_def Let_def case_prod_unfold)
  qed
  have hold: "stp_inv_n n (tick_hold e k t)" if "stp_inv_n n t" for e k t
    by (rule inv_n_core[OF _ that]) (simp add: tick_hold_def Let_def case_prod_unfold pcore_def pinfo_def)
  define s1 where "s1 e r = tick_bridge_timers e (s\<lparr>st_elapsed_remainder := r\<rparr>)" for e r
  have s1: "stp_inv_n n (s1 e r)" for e r by (rule inv_n_core[OF _ assms]) (simp add: s1_def)
  define s2 where "s2 e r = for_each_enabled_port (tick_message_age e) (s1 e r)" for e r
  have s2: "stp_inv_n n (s2 e r)" for e r unfolding s2_def
    by (rule for_each_preserves[where P = "stp_inv_n n"]) (use s1 msg in auto)
  have s3: "stp_inv_n n (for_each_enabled_port (\<lambda>i s. tick_hold e i (tick_forward_delay e i s)) (s2 e r))" for e r
    by (rule for_each_preserves[where P = "stp_inv_n n"]) (use fwd hold s2 inv_length[OF s2] in auto)
  have "stp_inv_n n (s\<lparr>st_elapsed_remainder := r\<rparr>)" for r by (rule inv_n_core[OF _ assms]) simp
  then show ?thesis using s3 unfolding s2_def s1_def by (simp add: stp_tick_def Let_def)
qed

lemma config_ok_step:
  assumes "config_ok s" and "bridge_info t = bridge_info s"
    and "\<And>j. enabled_port s j \<Longrightarrow> enabled_port t j"
    and "\<And>j. enabled_port t j \<Longrightarrow> sp_designated_root (port t j) = st_designated_root s"
  shows "config_ok t"
  using assms by (auto simp: config_ok_def bridge_info_def stp_is_root_bridge_def)

lemma become_designated_config:
  assumes "config_ok s" and "i < length (st_ports s)"
  shows "config_ok (stp_become_designated_port i s)"
proof (rule config_ok_step[OF assms(1) become_designated_port(6)[OF assms(2)]])
  fix j
  note en = states_enabled[OF become_designated_states, of i s j]
  show "enabled_port s j \<Longrightarrow> enabled_port (stp_become_designated_port i s) j" using en by simp
  show "enabled_port (stp_become_designated_port i s) j \<Longrightarrow>
      sp_designated_root (port (stp_become_designated_port i s) j) = st_designated_root s"
    using en assms(1) become_designated_port(1,5)[OF assms(2)] by (cases "j = i") (auto simp: config_ok_def)
qed

lemma port_enable_inv:
  assumes inv: "stp_inv_n n s" and i: "i < n"
  shows "\<exists>t. stp_port_enable s i = Some t \<and> stp_inv_n n t"
proof (cases "sp_state (port s i) = STP_DISABLED")
  case True
  have il: "i < length (st_ports s)" using i inv_length[OF inv] by simp
  let ?b = "stp_become_designated_port i s"
  have ib: "i < length (st_ports ?b)" using il by simp
  obtain u where u: "stp_initialize_port i STP_BLOCKING s = Some u"
    and core: "stp_core u = stp_core (stp_set_port_state i STP_BLOCKING ?b)"
    using True become_designated_port(3)[OF il, of i]
    by (simp add: stp_initialize_port_def Let_def pcore_def pinfo_def)
  let ?v = "stp_set_port_state i STP_BLOCKING ?b"
  have cb: "config_ok ?b" using become_designated_config[OF _ il] inv by (simp add: stp_inv_n_def stp_inv_def)
  have "config_ok ?v"
  proof (rule config_ok_step[OF cb])
    fix j
    show "enabled_port ?b j \<Longrightarrow> enabled_port ?v j"
      using set_port_state_port[OF ib] by (auto simp: enabled_port_def)
    show "sp_designated_root (port ?v j) = st_designated_root ?b" if "enabled_port ?v j"
    proof -
      have "j < length (st_ports ?b)" using that by (simp add: enabled_port_def)
      then have "sp_designated_root (port ?v j) = sp_designated_root (port ?b j)"
        using info_port[of ?v ?b j] by (simp add: pinfo_def)
      moreover have "j = i \<or> enabled_port ?b j"
        using that set_port_state_port[OF ib, of STP_BLOCKING j] by (auto simp: enabled_port_def)
      ultimately show ?thesis using cb become_designated_port(1,6)[OF il]
        by (auto simp: config_ok_def bridge_info_def)
    qed
  qed simp
  moreover have "changed_ok ?v"
    using set_port_state_changed[OF ib] become_designated_changed inv_changed[OF inv] by simp
  ultimately have "config_ok u" "changed_ok u"
    using config_ok_cong[OF core_info[OF core] core_enabled[OF core]] changed_ok_core[OF core] by simp_all
  moreover have "length (st_ports u) = n" using core_length[OF core] inv_length[OF inv] by simp
  ultimately show ?thesis using True u state_selection_inv[of u] by (simp add: stp_port_enable_def stp_inv_n_def)
qed (use inv in \<open>simp add: stp_port_enable_def\<close>)

lemma port_disable_inv:
  assumes inv: "stp_inv_n n s" and i: "i < n"
  shows "stp_inv_n n (stp_port_disable s i)"
proof (cases "sp_state (port s i) = STP_DISABLED")
  case False
  have il: "i < length (st_ports s)" using i inv_length[OF inv] by simp
  let ?b = "stp_set_port_state i STP_DISABLED (stp_become_designated_port i s)"
  define u where "u = upd_port i (\<lambda>p. p\<lparr>sp_topology_change_ack := False, sp_config_pending := False,
                     sp_message_age_timer := stp_stop_timer (sp_message_age_timer p),
                     sp_forward_delay_timer := stp_stop_timer (sp_forward_delay_timer p)\<rparr>) ?b"
  have "changed_ok ?b" using set_port_state_changed il become_designated_changed inv_changed[OF inv] by simp
  moreover have c: "stp_core u = stp_core ?b" by (simp add: u_def pcore_def pinfo_def)
  ultimately have "stp_inv_n n (stp_recompute u)"
    using changed_ok_core[OF c] core_length[OF c] inv_length[OF inv] by (intro recompute_inv_n) simp_all
  moreover have "stp_core (stp_port_disable s i) = stp_core (stp_recompute u)"
    using False by (simp add: stp_port_disable_def u_def Let_def pcore_def pinfo_def)
  ultimately show ?thesis using inv_n_core by blast
qed (use inv in \<open>simp add: stp_port_disable_def\<close>)

lemma set_priority_inv:
  assumes inv: "stp_inv_n n s" and i: "i < n"
  shows "stp_inv_n n (stp_port_set_priority s i pr)"
proof -
  have il: "i < length (st_ports s)" using i inv_length[OF inv] by simp
  define new where "new = (sp_port_id (port s i) AND 0xff) OR push_bit 8 (ucast pr :: uint16_t)"
  define f where "f p = (if stp_is_designated_port s i then p\<lparr>sp_designated_port := new, sp_port_id := new\<rparr>
    else p\<lparr>sp_port_id := new\<rparr>)" for p :: stp_port
  let ?u = "upd_port i f s"
  have pf: "sp_state (f p) = sp_state p" "sp_state_changed (f p) = sp_state_changed p"
    "sp_designated_root (f p) = sp_designated_root p" for p by (simp_all add: f_def)
  have ss: "same_states ?u s" using il pf by (simp add: same_states_def)
  note en = states_enabled[OF ss]
  have cu: "config_ok ?u"
  proof (rule config_ok_step)
    show "config_ok s" using inv by (simp add: stp_inv_n_def stp_inv_def)
    then show "enabled_port ?u j \<Longrightarrow> sp_designated_root (port ?u j) = st_designated_root s" for j
      using en[of j] il pf by (auto simp: config_ok_def)
  qed (use en in simp_all)
  have ok: "changed_ok ?u" using changed_ok_states[OF ss] inv_changed[OF inv] by simp
  have act: "port_active ?u j = port_active s j" for j
    using ss by (auto simp: same_states_def port_active_def)
  have des: "stp_is_designated_port s j \<Longrightarrow> stp_is_designated_port ?u j" for j
    using il by (auto simp: stp_is_designated_port_def f_def)
  have "stp_inv ?u" using cu ok act des inv by (auto simp: stp_inv_n_def stp_inv_def)
  then have u: "stp_inv_n n ?u" using inv_length[OF inv] by (simp add: stp_inv_n_def)
  have iu: "i < length (st_ports ?u)" using il by simp
  have "stp_inv_n n (stp_port_state_selection (stp_become_designated_port i ?u))"
    using state_selection_inv[of "stp_become_designated_port i ?u"] become_designated_config[OF cu iu]
      become_designated_changed ok inv_length[OF inv] by (simp add: stp_inv_n_def)
  moreover have "upd_port i (\<lambda>p. p\<lparr>sp_port_id := new\<rparr>) (if stp_is_designated_port s i
      then upd_port i (\<lambda>p. p\<lparr>sp_designated_port := new\<rparr>) s else s) = ?u"
    using il by (simp add: f_def upd_port_def fun_eq_iff)
  ultimately show ?thesis using inv u by (simp add: stp_port_set_priority_def Let_def flip: new_def)
qed

lemma set_path_cost_inv:
  assumes "stp_inv_n n s"
  shows "stp_inv_n n (stp_port_set_path_cost s i c)"
  using assms upd_port_changed inv_changed[OF assms] inv_length[OF assms]
  by (auto simp: stp_port_set_path_cost_def intro!: recompute_inv_n)

lemma set_bridge_id_inv:
  assumes "stp_inv_n n s"
  shows "stp_inv_n n (set_bridge_id s b)"
proof (cases "b = st_bridge_id s")
  case False
  define u where "u = for_each_enabled_port (\<lambda>p s. if stp_is_designated_port s p
                     then upd_port p (\<lambda>q. q\<lparr>sp_designated_bridge := b\<rparr>) s else s) s"
  have "changed_ok u \<and> length (st_ports u) = n" unfolding u_def
    by (rule for_each_preserves) (use assms inv_changed inv_length upd_port_changed in auto)
  then have "stp_inv_n n (stp_recompute (u\<lparr>st_bridge_id := b\<rparr>))"
    by (intro recompute_inv_n) (simp_all add: changed_ok_def)
  moreover have "stp_core (set_bridge_id s b) = stp_core (stp_recompute (u\<lparr>st_bridge_id := b\<rparr>))"
    using False by (simp add: set_bridge_id_def u_def Let_def)
  ultimately show ?thesis using inv_n_core by blast
qed (use assms in \<open>simp add: set_bridge_id_def\<close>)

lemma get_changed_port_cases:
  obtains (none) "stp_get_changed_port s = (None, s\<lparr>st_first_changed_port := length (st_ports s)\<rparr>)"
      "\<And>j. st_first_changed_port s \<le> j \<Longrightarrow> j < length (st_ports s) \<Longrightarrow> \<not> sp_state_changed (port s j)"
  | (some) i where "stp_get_changed_port s =
      (Some i, (upd_port i (\<lambda>p. p\<lparr>sp_state_changed := False\<rparr>) s)\<lparr>st_first_changed_port := i + 1\<rparr>)"
      "st_first_changed_port s \<le> i" "i < length (st_ports s)" "sp_state_changed (port s i)"
      "\<And>j. st_first_changed_port s \<le> j \<Longrightarrow> j < i \<Longrightarrow> \<not> sp_state_changed (port s j)"
proof (cases "find (\<lambda>i. sp_state_changed (port s i)) [st_first_changed_port s..<length (st_ports s)]")
  case None
  show ?thesis
  proof (rule none)
    show "stp_get_changed_port s = (None, s\<lparr>st_first_changed_port := length (st_ports s)\<rparr>)"
      using None by (simp add: stp_get_changed_port_def)
    show "st_first_changed_port s \<le> j \<Longrightarrow> j < length (st_ports s) \<Longrightarrow> \<not> sp_state_changed (port s j)" for j
      using None by (auto simp: find_None_iff)
  qed
next
  case (Some i)
  then obtain k where k: "k < length (st_ports s) - st_first_changed_port s" "i = st_first_changed_port s + k"
      "sp_state_changed (port s i)" "\<And>j. j < k \<Longrightarrow> \<not> sp_state_changed (port s (st_first_changed_port s + j))"
    by (auto simp: find_Some_iff)
  have before: "\<not> sp_state_changed (port s j)" if "st_first_changed_port s \<le> j" "j < i" for j
    using that k(2) k(4)[of "j - st_first_changed_port s"] by simp
  show ?thesis using some[of i] Some k before by (simp add: stp_get_changed_port_def)
qed

lemma get_changed_port_inv:
  assumes "stp_inv_n n s"
  shows "stp_inv_n n (snd (stp_get_changed_port s))"
proof -
  let ?t = "snd (stp_get_changed_port s)"
  have info: "stp_info ?t = stp_info s"
    by (cases rule: get_changed_port_cases[of s]) (simp_all add: pinfo_def)
  have st: "i < length (st_ports s) \<Longrightarrow> sp_state (port ?t i) = sp_state (port s i)" for i
    by (cases rule: get_changed_port_cases[of s]) simp_all
  have ok: "changed_ok ?t"
  proof (cases rule: get_changed_port_cases[of s])
    case none
    then show ?thesis using inv_changed[OF assms] by (auto simp: changed_ok_def)
  next
    case (some i)
    have "Suc i \<le> j" if "j < length (st_ports s)" "sp_state_changed (port s j)" "j \<noteq> i" for j
      using that some(5)[of j] inv_changed[OF assms] by (force simp: changed_ok_def)
    then show ?thesis using some(1,3) by (simp add: changed_ok_def)
  qed
  have l: "length (st_ports ?t) = length (st_ports s)" using info_bridge(5)[OF info] .
  have "enabled_port ?t i = enabled_port s i" and "port_active ?t i = port_active s i" for i
    using st[of i] l by (auto simp: enabled_port_def port_active_def)
  then show ?thesis
    using assms config_ok_cong[OF info] ok l info_designated[OF info] info_bridge(4)[OF info]
    by (auto simp: stp_inv_n_def stp_inv_def port_active_def)
qed

subsection \<open>Creation\<close>

lemma create_port:
  assumes "i < length (st_ports s)" and "sp_state (port s i) = STP_UNSET"
  shows "\<exists>t. stp_create_port i s = Some t \<and> bridge_info t = bridge_info s \<and>
    st_first_changed_port t = st_first_changed_port s \<and> length (st_ports t) = length (st_ports s) \<and>
    sp_state (port t i) = STP_DISABLED \<and> sp_state_changed (port t i) = sp_state_changed (port s i) \<and>
    (\<forall>j. j \<noteq> i \<longrightarrow> port t j = port s j)"
  using assms by (simp add: stp_create_port_def stp_initialize_port_def stp_become_designated_port_def Let_def)

lemma create_ports:
  assumes "k \<le> length (st_ports s)" and "\<And>i. i < length (st_ports s) \<Longrightarrow> port s i = zero_port"
  shows "\<exists>t. run_ops stp_create_port [0..<k] s = Some t \<and> bridge_info t = bridge_info s \<and>
    st_first_changed_port t = st_first_changed_port s \<and> length (st_ports t) = length (st_ports s) \<and>
    (\<forall>i < k. sp_state (port t i) = STP_DISABLED \<and> \<not> sp_state_changed (port t i)) \<and>
    (\<forall>i. k \<le> i \<longrightarrow> port t i = port s i)"
  using assms(1)
proof (induction k)
  case (Suc k)
  then obtain t where t: "run_ops stp_create_port [0..<k] s = Some t" "bridge_info t = bridge_info s"
      "st_first_changed_port t = st_first_changed_port s" "length (st_ports t) = length (st_ports s)"
      "\<forall>i < k. sp_state (port t i) = STP_DISABLED \<and> \<not> sp_state_changed (port t i)"
      "\<forall>i. k \<le> i \<longrightarrow> port t i = port s i" by auto
  have z: "port t k = zero_port" using t(6) assms(2)[of k] Suc.prems by simp
  have "k < length (st_ports t)" "sp_state (port t k) = STP_UNSET" "\<not> sp_state_changed (port t k)"
    using z t(4) Suc.prems by (simp_all add: zero_port_def)
  then obtain u where u: "stp_create_port k t = Some u" "bridge_info u = bridge_info t"
      "st_first_changed_port u = st_first_changed_port t" "length (st_ports u) = length (st_ports t)"
      "sp_state (port u k) = STP_DISABLED" "\<not> sp_state_changed (port u k)" "\<forall>j. j \<noteq> k \<longrightarrow> port u j = port t j"
    using create_port by blast
  have "run_ops stp_create_port [0..<Suc k] s = Some u" using t(1) u(1) by (simp add: run_ops_append)
  moreover have "\<forall>i < Suc k. sp_state (port u i) = STP_DISABLED \<and> \<not> sp_state_changed (port u i)"
    using u(5-7) t(5) by (auto simp: less_Suc_eq)
  ultimately show ?case using t(2-4,6) u(2-4,7) by auto
qed simp

lemma create_bridge_fields:
  "st_root_port (stp_create_bridge n name b aux) = None"
  "st_designated_root (stp_create_bridge n name b aux) = st_bridge_id (stp_create_bridge n name b aux)"
  "st_ports (stp_create_bridge n name b aux) = replicate n zero_port"
  "st_first_changed_port (stp_create_bridge n name b aux) = n"
  by (simp_all add: stp_create_bridge_def Let_def use_bridge_timers_def stp_update_bridge_timers_def zero_stp_def)

lemma stp_create_inv: "\<exists>s. stp_create_n n name b aux = Some s \<and> stp_inv_n n s \<and> (\<forall>i < n. sp_state (port s i) = STP_DISABLED)"
proof -
  let ?b = "stp_create_bridge n name b aux"
  obtain t where t: "run_ops stp_create_port [0..<n] ?b = Some t" "bridge_info t = bridge_info ?b"
      "length (st_ports t) = n" "\<forall>i < n. sp_state (port t i) = STP_DISABLED \<and> \<not> sp_state_changed (port t i)"
    using create_ports[of n ?b] by (auto simp: create_bridge_fields)
  have "stp_inv t" using t(2-4) create_bridge_fields(1,2)[of n name b aux]
    by (auto simp: stp_inv_def config_ok_def changed_ok_def bridge_info_def stp_is_root_bridge_def
        enabled_port_def port_active_def)
  then have "stp_inv_n n (t\<lparr>st_ref_cnt := 1\<rparr>)" using inv_n_core[of "t\<lparr>st_ref_cnt := 1\<rparr>" t] t(3)
    by (simp add: stp_inv_n_def)
  then show ?thesis using t(1,4) by (simp add: stp_create_n_def)
qed

subsection \<open>Calls\<close>

datatype stp_op =
    Tick int | SetBridgeId stp_identifier | SetBridgePriority uint16_t
  | SetHelloTime int | SetMaxAge int | SetForwardDelay int | CheckFdbFlush | GetChangedPort
  | ReceivedBpdu nat "uint8_t list" | PortSetName nat string | PortSetAux nat nat
  | PortDisable nat | PortEnable nat | PortSetPriority nat uint8_t | PortSetPathCost nat uint16_t
  | PortSetSpeed nat uint32_t | PortEnableDetection nat | PortDisableDetection nat | Tcn

fun stp_step :: "stp_op \<Rightarrow> stp \<Rightarrow> stp option" where
  "stp_step (Tick ms) s = Some (stp_tick s ms)"
| "stp_step (SetBridgeId b) s = Some (stp_set_bridge_id s b)"
| "stp_step (SetBridgePriority p) s = Some (stp_set_bridge_priority s p)"
| "stp_step (SetHelloTime ms) s = Some (stp_set_hello_time s ms)"
| "stp_step (SetMaxAge ms) s = Some (stp_set_max_age s ms)"
| "stp_step (SetForwardDelay ms) s = Some (stp_set_forward_delay s ms)"
| "stp_step CheckFdbFlush s = Some (snd (stp_check_and_reset_fdb_flush s))"
| "stp_step GetChangedPort s = Some (snd (stp_get_changed_port s))"
| "stp_step (ReceivedBpdu p b) s = Some (stp_received_bpdu s p b)"
| "stp_step (PortSetName p x) s = Some (stp_port_set_name s p x)"
| "stp_step (PortSetAux p x) s = Some (stp_port_set_aux s p x)"
| "stp_step (PortDisable p) s = Some (stp_port_disable s p)"
| "stp_step (PortEnable p) s = stp_port_enable s p"
| "stp_step (PortSetPriority p x) s = Some (stp_port_set_priority s p x)"
| "stp_step (PortSetPathCost p x) s = Some (stp_port_set_path_cost s p x)"
| "stp_step (PortSetSpeed p x) s = Some (stp_port_set_speed s p x)"
| "stp_step (PortEnableDetection p) s = Some (stp_port_enable_change_detection s p)"
| "stp_step (PortDisableDetection p) s = Some (stp_port_disable_change_detection s p)"
| "stp_step Tcn s = Some (stp_topology_change_detection s)"

text \<open>Port arguments are ports of the bridge.\<close>

fun stp_op_ok :: "nat \<Rightarrow> stp_op \<Rightarrow> bool" where
  "stp_op_ok n (ReceivedBpdu p b) \<longleftrightarrow> p < n"
| "stp_op_ok n (PortSetName p x) \<longleftrightarrow> p < n"
| "stp_op_ok n (PortSetAux p y) \<longleftrightarrow> p < n"
| "stp_op_ok n (PortDisable p) \<longleftrightarrow> p < n"
| "stp_op_ok n (PortEnable p) \<longleftrightarrow> p < n"
| "stp_op_ok n (PortSetPriority p z) \<longleftrightarrow> p < n"
| "stp_op_ok n (PortSetPathCost p c) \<longleftrightarrow> p < n"
| "stp_op_ok n (PortSetSpeed p v) \<longleftrightarrow> p < n"
| "stp_op_ok n (PortEnableDetection p) \<longleftrightarrow> p < n"
| "stp_op_ok n (PortDisableDetection p) \<longleftrightarrow> p < n"
| "stp_op_ok n opn \<longleftrightarrow> True"

lemma stp_step_inv:
  assumes inv: "stp_inv_n n s" and ok: "stp_op_ok n opn"
  shows "\<exists>t. stp_step opn s = Some t \<and> stp_inv_n n t"
proof (cases opn)
  case (Tick ms)
  then show ?thesis using tick_inv[OF inv] by simp
next
  case (PortEnable p)
  then show ?thesis using port_enable_inv[OF inv] ok by simp
qed (use ok set_bridge_id_inv[OF inv] get_changed_port_inv[OF inv] received_bpdu_inv[OF inv]
    port_disable_inv[OF inv] set_priority_inv[OF inv] set_path_cost_inv[OF inv]
  in \<open>auto simp: stp_set_bridge_id_def stp_set_bridge_priority_def stp_set_hello_time_def stp_set_max_age_def
    stp_set_forward_delay_def stp_check_and_reset_fdb_flush_def stp_port_set_name_def stp_port_set_aux_def
    stp_port_set_speed_def stp_port_enable_change_detection_def stp_port_disable_change_detection_def
    pcore_def pinfo_def intro!: inv_n_core[OF _ inv]\<close>)

interpretation bridge: op_system stp_step "stp_op_ok n" "stp_inv_n n" for n
  by unfold_locales (rule stp_step_inv)

subsection \<open>Conversions and frames\<close>

lemma ms_to_timer_exact: "0 \<le> ms \<Longrightarrow> ms \<le> 8388607 \<Longrightarrow> ms_to_timer ms = ms * 256 div 1000"
  by (simp add: ms_to_timer_def s32_id c_div_nonneg)

text \<open>The product of \<open>ms_to_timer\<close> overflows \<open>int\<close> long before the limit that \<open>stp_tick\<close> imposes on \<open>ms\<close>.\<close>

lemma ms_to_timer_overflow: "8388608 < INT_MAX_minus_1000" "ms_to_timer 8388608 = -2147483"
  by (simp_all add: ms_to_timer_def s32_def c_div_def INT_MAX_minus_1000_def signed_take_bit_int_eq_self_iff
      signed_take_bit_eq_take_bit_minus)

lemma div_bounds:
  fixes x y :: int
  assumes "y = x * 256 div 1000"
  shows "1000 * y \<le> 256 * x" and "256 * x < 1000 * y + 1000"
  using assms by (simp_all add: algebra_simps)

lemma stp_config_bytes_length [simp]: "length (stp_config_bytes c) = 35"
  by (simp add: stp_config_bytes_def stp_header_bytes_def)

lemma bytes_at_append: "length xs = off \<Longrightarrow> length ys = n \<Longrightarrow> bytes_at (xs @ ys @ zs) off n = ys"
  by (simp add: bytes_at_def)

lemma stp_parse_header_bytes: "stp_parse_header (stp_header_bytes h @ rest) = h"
  by (simp add: stp_parse_header_def stp_header_bytes_def bytes_at_append[of "[]" 0 _ 2, simplified] nth_append)

lemma stp_parse_config_bytes: "stp_parse_config (stp_config_bytes c) = c"
proof -
  define h where "h = stp_header_bytes (cb_header c)"
  have h: "length h = 4" "\<And>r. stp_parse_header (h @ r) = cb_header c"
    by (simp_all add: h_def stp_parse_header_bytes) (simp add: stp_header_bytes_def)
  have b: "stp_config_bytes c = h @ [cb_flags c] @ be64_bytes (cb_root_id c)
     @ be32_bytes (cb_root_path_cost c) @ be64_bytes (cb_bridge_id c) @ be16_bytes (cb_port_id c)
     @ be16_bytes (cb_message_age c) @ be16_bytes (cb_max_age c) @ be16_bytes (cb_hello_time c)
     @ be16_bytes (cb_forward_delay c)"
    by (simp add: stp_config_bytes_def h_def)
  show ?thesis unfolding stp_parse_config_def b h(2)
    by (simp add: bytes_at_def h(1) nth_append)
qed

subsection \<open>Changed ports\<close>

text \<open>A client that asks for changed ports until there are none.\<close>

fun drain_changed :: "nat \<Rightarrow> stp \<Rightarrow> (nat list \<times> stp) option" where
  "drain_changed 0 s = None"
| "drain_changed (Suc fuel) s =
     (case stp_get_changed_port s of
        (None, t) \<Rightarrow> Some ([], t)
      | (Some i, t) \<Rightarrow> map_option (\<lambda>(is, u). (i # is, u)) (drain_changed fuel t))"

lemma drain_changed_correct:
  assumes "changed_ok s" and "st_first_changed_port s \<le> length (st_ports s)"
    and "length (st_ports s) - st_first_changed_port s < fuel"
  shows "\<exists>t. drain_changed fuel s = Some (filter (\<lambda>i. sp_state_changed (port s i)) [st_first_changed_port s..<length (st_ports s)], t)
    \<and> (\<forall>i < length (st_ports s). \<not> sp_state_changed (port t i))"
  using assms
proof (induction fuel arbitrary: s)
  case (Suc fuel)
  let ?n = "length (st_ports s)"
  show ?case
  proof (cases rule: get_changed_port_cases[of s])
    case none
    then have "filter (\<lambda>i. sp_state_changed (port s i)) [st_first_changed_port s..<?n] = []"
      by (simp add: filter_empty_conv)
    moreover have "\<forall>i < ?n. \<not> sp_state_changed (port s i)" using none(2) Suc.prems(1) by (auto simp: changed_ok_def)
    ultimately show ?thesis using none(1) by simp
  next
    case (some i)
    define t where "t = (upd_port i (\<lambda>p. p\<lparr>sp_state_changed := False\<rparr>) s)\<lparr>st_first_changed_port := i + 1\<rparr>"
    have later: "Suc i \<le> j" if "j < ?n" "sp_state_changed (port s j)" "j \<noteq> i" for j
      using that some(5)[of j] Suc.prems(1) by (force simp: changed_ok_def)
    have t: "changed_ok t" "st_first_changed_port t \<le> length (st_ports t)" "length (st_ports t) = ?n"
      "length (st_ports t) - st_first_changed_port t < fuel" "st_first_changed_port t = Suc i"
      using later some(2,3) Suc.prems(3) by (auto simp: t_def changed_ok_def)
    have same: "filter (\<lambda>j. sp_state_changed (port t j)) [Suc i..<?n] = filter (\<lambda>j. sp_state_changed (port s j)) [Suc i..<?n]"
      using some(3) by (intro filter_cong) (auto simp: t_def)
    have "[st_first_changed_port s..<?n] = [st_first_changed_port s..<i] @ i # [Suc i..<?n]"
      using some(2,3) upt_add_eq_append[of "st_first_changed_port s" i "?n - i"] by (simp add: upt_conv_Cons)
    then have split: "filter (\<lambda>j. sp_state_changed (port s j)) [st_first_changed_port s..<?n] =
        i # filter (\<lambda>j. sp_state_changed (port s j)) [Suc i..<?n]"
      using some(4,5) by (simp add: filter_empty_conv)
    obtain u where u: "drain_changed fuel t = Some (filter (\<lambda>j. sp_state_changed (port t j)) [Suc i..<?n], u)"
        "\<forall>i < ?n. \<not> sp_state_changed (port u i)"
      using Suc.IH[OF t(1,2,4)] unfolding t(3,5) by blast
    have "stp_get_changed_port s = (Some i, t)" using some(1) by (simp add: t_def)
    then show ?thesis using u same split by simp
  qed
qed simp

subsection \<open>Properties\<close>

text \<open>
  C14: Only the spanning tree forwards.  Whatever sequence of calls, clock ticks and received BPDUs,
  well formed or not, follows the creation of a bridge, no call fails and afterwards every port that
  forwards, learns or listens has the root or the designated role; the bridge has a root port exactly
  when it is not itself the root, and all enabled ports agree on the root, whose identifier is not
  above the bridge's own.
\<close>
theorem stp_only_tree_ports_forward:
  assumes "list_all (stp_op_ok n) ops"
  shows "\<exists>s t. stp_create_n n name b aux = Some s \<and> run_ops stp_step ops s = Some t \<and>
    (\<forall>i < n. stp_port_get_state t i \<in> {STP_LISTENING, STP_LEARNING, STP_FORWARDING} \<longrightarrow>
      stp_port_get_role t i \<in> {STP_ROLE_ROOT, STP_ROLE_DESIGNATED}) \<and>
    (stp_get_root_port t = None \<longleftrightarrow> stp_is_root_bridge t) \<and>
    stp_get_designated_root t \<le> stp_get_bridge_id t \<and>
    (\<forall>i < n. stp_port_get_state t i \<noteq> STP_DISABLED \<longrightarrow>
      sp_designated_root (port t i) = stp_get_designated_root t)"
proof -
  obtain s where s: "stp_create_n n name b aux = Some s" "stp_inv_n n s" using stp_create_inv by blast
  obtain t where t: "run_ops stp_step ops s = Some t" "stp_inv_n n t"
    using bridge.run_inv[OF s(2) assms] by blast
  have "stp_port_get_role t i \<in> {STP_ROLE_ROOT, STP_ROLE_DESIGNATED}"
    if "i < n" "stp_port_get_state t i \<in> {STP_LISTENING, STP_LEARNING, STP_FORWARDING}" for i
  proof -
    have "port_active t i" using that inv_length[OF t(2)] by (simp add: port_active_def stp_port_get_state_def)
    then have "st_root_port t = Some i \<or> stp_is_designated_port t i"
      using t(2) by (auto simp: stp_inv_n_def stp_inv_def)
    then show ?thesis by (auto simp: stp_port_get_role_def)
  qed
  moreover have "config_ok t" using t(2) by (simp add: stp_inv_n_def stp_inv_def)
  ultimately show ?thesis using s(1) t(1) inv_length[OF t(2)]
    by (auto simp: config_ok_def stp_get_root_port_def stp_get_designated_root_def stp_get_bridge_id_def
        stp_port_get_state_def enabled_port_def)
qed

theorem stp_only_tree_ports_forward_witness:
  "\<exists>s t. stp_create_n 2 ''br0'' 7 0 = Some s \<and>
     run_ops stp_step [PortEnable 0, PortEnable 1, Tick 16000, ReceivedBpdu 1 [0, 0, 0], Tick 16000] s = Some t \<and>
     (stp_get_root_port t = None \<longleftrightarrow> stp_is_root_bridge t)"
proof -
  have "list_all (stp_op_ok 2) [PortEnable 0, PortEnable 1, Tick 16000, ReceivedBpdu 1 [0, 0, 0], Tick 16000]"
    by simp
  from stp_only_tree_ports_forward[OF this, of "''br0''" 7 0] show ?thesis
    by (elim exE conjE, intro exI conjI) assumption+
qed

text \<open>
  C15: \<open>stp_root_selection\<close> is optimal.  If it selects a root port, that port is enabled, not
  designated and offers a better root than the bridge, and no other such port has a smaller priority
  vector (root, cost, designated bridge, designated port, port); the bridge takes over its root and
  cost.  If it selects none, there is no such port and the bridge declares itself the root.
\<close>
theorem stp_root_selection_optimal:
  "case st_root_port (stp_root_selection s) of
     Some r \<Rightarrow> root_eligible s r \<and> (\<forall>i. root_eligible s i \<longrightarrow> root_key (port s r) \<le> root_key (port s i)) \<and>
       st_designated_root (stp_root_selection s) = sp_designated_root (port s r) \<and>
       st_root_path_cost (stp_root_selection s) = port_cost (port s r)
   | None \<Rightarrow> (\<forall>i. \<not> root_eligible s i) \<and> stp_is_root_bridge (stp_root_selection s) \<and>
       st_root_path_cost (stp_root_selection s) = 0"
proof (cases "st_root_port (stp_root_selection s)")
  case None
  then show ?thesis using root_selection_None[OF None] by (simp add: stp_is_root_bridge_def)
next
  case (Some r)
  then show ?thesis using root_selection_Some[OF Some] by simp
qed

definition sample_port :: "uint16_t \<Rightarrow> uint64_t \<Rightarrow> uint32_t \<Rightarrow> uint64_t \<Rightarrow> stp_port" where
  "sample_port no root cost br = zero_port\<lparr>sp_port_id := no, sp_state := STP_BLOCKING, sp_path_cost := 2,
     sp_designated_root := root, sp_designated_cost := cost, sp_designated_bridge := br, sp_designated_port := 0x8001\<rparr>"

definition sample_bridge :: stp where
  "sample_bridge = (zero_stp 0)\<lparr>st_bridge_id := 10, st_designated_root := 10,
     st_ports := [sample_port 0x8001 5 4 7, sample_port 0x8002 5 2 8, sample_port 0x8003 11 1 11]\<rparr>"

theorem stp_root_selection_optimal_witness:
  "st_root_port (stp_root_selection sample_bridge) = Some 1 \<and> root_eligible sample_bridge 1 \<and>
   root_eligible sample_bridge 0 \<and> root_key (port sample_bridge 1) \<le> root_key (port sample_bridge 0)"
proof -
  have e: "root_eligible sample_bridge 0"
    by (simp add: root_eligible_def enabled_port_def sample_bridge_def sample_port_def stp_is_designated_port_def)
  have r: "st_root_port (stp_root_selection sample_bridge) = Some 1"
    by (simp add: stp_root_selection_def enabled_ports_def sample_bridge_def sample_port_def zero_port_def zero_stp_def
        upt_rec stp_root_candidate_def stp_is_designated_port_def stp_supersedes_root_def port_cost_def Let_def)
  show ?thesis using stp_root_selection_optimal[of sample_bridge] r e by simp
qed

text \<open>
  C16: After the information is recomputed, an enabled port is blocked exactly if it is neither the root
  port nor designated.  It is designated exactly if it was before, or holds another root than the one
  selected, or the priority vector that the bridge would send there, its root path cost, identifier and
  the port identifier, is not greater than the one the port holds.  A designated port then holds the
  vector of the bridge, and another one keeps the better vector it held.
\<close>
theorem stp_recompute_blocks_redundant_ports:
  assumes "t = stp_port_state_selection (stp_configuration_update s)" and "i < length (st_ports s)"
    and "stp_port_get_state s i \<noteq> STP_DISABLED"
  shows "(stp_port_get_state t i = STP_BLOCKING \<longleftrightarrow> stp_get_root_port t \<noteq> Some i \<and> \<not> stp_is_designated_port t i) \<and>
    stp_port_get_state t i \<noteq> STP_DISABLED \<and>
    (stp_is_designated_port t i \<longleftrightarrow> stp_is_designated_port s i \<or>
      sp_designated_root (port s i) \<noteq> stp_get_designated_root t \<or> own_vector t i \<le> port_vector (port s i)) \<and>
    sp_designated_root (port t i) = stp_get_designated_root t \<and>
    port_vector (port t i) = (if stp_is_designated_port t i then own_vector t i else port_vector (port s i))"
proof -
  let ?c = "stp_configuration_update s"
  note c = configuration_update[where s = s] and p = port_state_selection[where s = ?c]
  have en: "enabled_port s i" using assms(2,3) by (simp add: enabled_port_def stp_port_get_state_def)
  have ec: "enabled_port ?c i" using en states_enabled[OF c(1)] by simp
  then have ic: "i < length (st_ports t)" using p(3)[of i] assms(1) by (simp add: enabled_port_def)
  have info: "stp_info t = stp_info ?c" using p(1) assms(1) by simp
  have "role_state t i (sp_state (port t i))" using p(4)[OF ec] role_state_info[OF info ic] assms(1) by simp
  then have a: "stp_port_get_state t i = STP_BLOCKING \<longleftrightarrow> stp_get_root_port t \<noteq> Some i \<and> \<not> stp_is_designated_port t i"
    by (auto simp: role_state_def stp_port_get_state_def stp_get_root_port_def split: if_splits)
  have b: "stp_port_get_state t i \<noteq> STP_DISABLED"
    using p(3)[of i] ec assms(1) by (simp add: enabled_port_def stp_port_get_state_def)
  have v: "own_vector t i = own_vector ?c i" "port_vector (port t i) = port_vector (port ?c i)"
    "sp_designated_root (port t i) = sp_designated_root (port ?c i)" "stp_get_designated_root t = st_designated_root ?c"
    using info_port[OF info ic] info_bridge[OF info]
    by (simp_all add: own_vector_def port_vector_def pinfo_def stp_get_designated_root_def)
  show ?thesis unfolding v info_designated[OF info ic] using a b recomputed_port[OF en] info_designated[OF info ic] by simp
qed

theorem stp_recompute_blocks_redundant_ports_witness:
  "\<exists>t. t = stp_port_state_selection (stp_configuration_update sample_bridge) \<and>
     (stp_port_get_state t 0 = STP_BLOCKING \<longleftrightarrow> stp_get_root_port t \<noteq> Some 0 \<and> \<not> stp_is_designated_port t 0)"
proof -
  have "0 < length (st_ports sample_bridge)" "stp_port_get_state sample_bridge 0 \<noteq> STP_DISABLED"
    by (simp_all add: sample_bridge_def sample_port_def stp_port_get_state_def)
  then show ?thesis using stp_recompute_blocks_redundant_ports[OF refl, of 0 sample_bridge] by auto
qed

text \<open>
  C17: A bridge adopts better roots.  After it receives a configuration BPDU that has not expired on
  an enabled port, and that is not its own transmission on that very port, the root it believes in
  is at least as good as the root of the BPDU and as the bridge itself.
\<close>
theorem stp_received_config_adopts_better_root:
  assumes "stp_inv_n n s" and "p < n" and "stp_port_get_state s p \<noteq> STP_DISABLED"
    and "cb_message_age c < cb_max_age c"
    and "\<not> (cb_bridge_id c = st_bridge_id s \<and> cb_port_id c = sp_port_id (port s p))"
  shows "stp_get_designated_root (stp_received_config_bpdu s p c) \<le> cb_root_id c \<and>
    stp_get_designated_root (stp_received_config_bpdu s p c) \<le> st_bridge_id s"
proof (cases "stp_supersedes_port_info s p c")
  case False
  have en: "enabled_port s p" using assms(1-3) by (simp add: enabled_port_def stp_port_get_state_def stp_inv_n_def)
  have conf: "config_ok s" using assms(1) by (simp add: stp_inv_n_def stp_inv_def)
  have "stp_core (stp_received_config_bpdu s p c) = stp_core s"
    using False by (simp add: stp_received_config_bpdu_def)
  then have "st_designated_root (stp_received_config_bpdu s p c) = st_designated_root s"
    using info_bridge(2)[OF core_info] by blast
  moreover have "st_designated_root s \<le> cb_root_id c"
    using False conf en by (auto simp: config_ok_def stp_supersedes_port_info_def Let_def split: if_splits)
  ultimately show ?thesis using conf by (simp add: stp_get_designated_root_def config_ok_def)
next
  case True
  let ?r = "stp_record_config_information s p c"
  let ?u = "stp_recompute ?r"
  have pl: "p < length (st_ports s)" using assms(1,2) by (simp add: stp_inv_n_def)
  have r: "sp_designated_root (port ?r p) = cb_root_id c" "st_bridge_id ?r = st_bridge_id s" "enabled_port ?r p"
    "\<not> stp_is_designated_port ?r p"
    using pl assms(3,5) by (auto simp: stp_record_config_information_def enabled_port_def stp_is_designated_port_def
        stp_port_get_state_def)
  have "\<not> cb_max_age c \<le> cb_message_age c" using assms(4) by simp
  then have "stp_core (stp_received_config_bpdu s p c) = stp_core ?u"
    using True assms(3) by (simp add: stp_received_config_bpdu_def stp_port_get_state_def Let_def)
  then have d: "st_designated_root (stp_received_config_bpdu s p c) = st_designated_root ?u"
    using info_bridge(2)[OF core_info] by blast
  have u: "st_designated_root ?u = st_designated_root (stp_root_selection ?r)"
    using info_bridge(2)[OF port_state_selection(1)] configuration_update(4)[of ?r] by (simp add: bridge_info_def)
  show ?thesis
  proof (cases "st_root_port (stp_root_selection ?r)")
    case None
    then have "\<not> root_eligible ?r p" "st_designated_root (stp_root_selection ?r) = st_bridge_id s"
      using root_selection_None[OF None] r(2) by auto
    then show ?thesis using d u r by (simp add: root_eligible_def stp_get_designated_root_def)
  next
    case (Some q)
    note sel = root_selection_Some[OF Some]
    have lt: "st_designated_root (stp_root_selection ?r) < st_bridge_id s"
      using sel(1,3) r(2) by (simp add: root_eligible_def)
    moreover have "st_designated_root (stp_root_selection ?r) \<le> cb_root_id c"
    proof (cases "cb_root_id c < st_bridge_id s")
      case True
      then have "root_eligible ?r p" using r by (simp add: root_eligible_def)
      then show ?thesis using sel(2)[of p] sel(3) r(1) by (auto simp: root_key_def less_eq_prod_def)
    next
      case False
      then show ?thesis using lt by simp
    qed
    ultimately show ?thesis using d u by (simp add: stp_get_designated_root_def)
  qed
qed

definition sample_settled :: stp where
  "sample_settled = (zero_stp 0)\<lparr>st_bridge_id := 10, st_designated_root := 10, st_first_changed_port := 1,
     st_ports := [(sample_port 0x8001 10 0 10)\<lparr>sp_state := STP_LISTENING\<rparr>,
                  (sample_port 0x8002 10 0 10)\<lparr>sp_state := STP_DISABLED, sp_state_changed := True\<rparr>]\<rparr>"

lemma sample_settled_inv: "stp_inv_n 2 sample_settled"
  by (auto simp: stp_inv_n_def stp_inv_def config_ok_def changed_ok_def port_active_def enabled_port_def
      stp_is_root_bridge_def stp_is_designated_port_def sample_settled_def sample_port_def zero_stp_def
      zero_port_def less_Suc_eq)

definition sample_config :: stp_config_bpdu where
  "sample_config = \<lparr>cb_header = \<lparr>bh_protocol_id = 0, bh_protocol_version = 0, bh_bpdu_type = 0\<rparr>, cb_flags = 0,
     cb_root_id = 3, cb_root_path_cost = 4, cb_bridge_id = 5, cb_port_id = 0x8001, cb_message_age = 1,
     cb_max_age = 5120, cb_hello_time = 512, cb_forward_delay = 3840\<rparr>"

theorem stp_received_config_adopts_better_root_witness:
  "stp_get_designated_root (stp_received_config_bpdu sample_settled 0 sample_config) \<le> 3"
proof -
  have "stp_port_get_state sample_settled 0 \<noteq> STP_DISABLED" "cb_message_age sample_config < cb_max_age sample_config"
    "cb_bridge_id sample_config \<noteq> st_bridge_id sample_settled" "cb_root_id sample_config = 3"
    by (simp_all add: stp_port_get_state_def sample_settled_def sample_config_def)
  then show ?thesis
    using stp_received_config_adopts_better_root[OF sample_settled_inv, of 0 sample_config] by simp
qed

text \<open>
  C18: Bridges understand each other.  The 35 bytes that one bridge transmits as a configuration BPDU
  are parsed by another as exactly the values that were sent: the receiver counts a valid BPDU and
  processes these values.
\<close>
theorem stp_config_roundtrip:
  assumes "stp_port_get_state r q \<noteq> STP_DISABLED"
  shows "stp_received_bpdu r q (stp_config_bytes (stp_config_of s p)) =
      count_rx q (stp_received_config_bpdu r q (stp_config_of s p)) \<and>
    stp_parse_config (stp_config_bytes c) = c"
proof -
  have h: "stp_parse_header (stp_config_bytes c) = cb_header c" for c
    by (simp add: stp_config_bytes_def stp_parse_header_bytes)
  have "cb_header (stp_config_of s p) = \<lparr>bh_protocol_id = STP_PROTOCOL_ID, bh_protocol_version = STP_PROTOCOL_VERSION,
      bh_bpdu_type = STP_TYPE_CONFIG\<rparr>" by (simp add: stp_config_of_def)
  then show ?thesis using assms
    by (simp add: stp_received_bpdu_def h stp_parse_config_bytes stp_port_get_state_def)
qed

theorem stp_config_roundtrip_witness:
  "stp_received_bpdu sample_bridge 0 (stp_config_bytes (stp_config_of sample_bridge 1)) =
     count_rx 0 (stp_received_config_bpdu sample_bridge 0 (stp_config_of sample_bridge 1))"
proof -
  have "stp_port_get_state sample_bridge 0 \<noteq> STP_DISABLED"
    by (simp add: sample_bridge_def sample_port_def stp_port_get_state_def)
  then show ?thesis using stp_config_roundtrip by blast
qed

text \<open>
  C19: A client that calls \<open>stp_get_changed_port\<close> until it returns none gets every port whose state
  has changed exactly once, in order, after at most one call per port and one more, and no change
  is left.
\<close>
theorem stp_changed_ports_reported_once:
  assumes "stp_inv_n n s" and "st_first_changed_port s \<le> n"
  shows "\<exists>t. drain_changed (Suc n) s = Some (filter (\<lambda>i. sp_state_changed (port s i)) [0..<n], t) \<and>
    (\<forall>i < n. \<not> sp_state_changed (port t i))"
proof -
  let ?f = "st_first_changed_port s"
  have n: "length (st_ports s) = n" and ok: "changed_ok s" using inv_length inv_changed assms(1) by auto
  have "[0..<n] = [0..<?f] @ [?f..<n]" using upt_add_eq_append[of 0 ?f "n - ?f"] assms(2) by simp
  moreover have "\<not> sp_state_changed (port s x)" if "x < ?f" for x
  proof -
    have "x < length (st_ports s)" using that assms(2) n by simp
    then show ?thesis using ok that by (auto simp: changed_ok_def leD)
  qed
  then have "filter (\<lambda>i. sp_state_changed (port s i)) [0..<?f] = []" by (simp add: filter_empty_conv)
  ultimately have "filter (\<lambda>i. sp_state_changed (port s i)) [0..<n] = filter (\<lambda>i. sp_state_changed (port s i)) [?f..<n]"
    by simp
  then show ?thesis using drain_changed_correct[OF ok, of "Suc n"] n assms(2) by simp
qed

theorem stp_changed_ports_reported_once_witness: "\<exists>t. drain_changed 3 sample_settled = Some ([1], t)"
proof -
  have "st_first_changed_port sample_settled \<le> 2" by (simp add: sample_settled_def)
  moreover have "filter (\<lambda>i. sp_state_changed (port sample_settled i)) [0..<2] = [1]"
    by (simp add: sample_settled_def sample_port_def zero_port_def upt_rec)
  moreover have "Suc 2 = 3" by simp
  ultimately show ?thesis using stp_changed_ports_reported_once[OF sample_settled_inv] by auto
qed

text \<open>
  C20: Whatever the user asks for, the bridge timers satisfy the limits of the standard: hello time 1
  to 10 s, maximum age 6 to 40 s, forward delay 4 to 30 s (256 ticks per second), maximum age at least
  2 * (hello time + 1 s), and 2 * (forward delay - 1 s) at least the maximum age up to two ticks.
\<close>
theorem stp_bridge_timer_limits:
  assumes "t = stp_update_bridge_timers s"
  shows "256 \<le> st_bridge_hello_time t \<and> st_bridge_hello_time t \<le> 2560 \<and>
    1536 \<le> st_bridge_max_age t \<and> st_bridge_max_age t \<le> 10240 \<and>
    1024 \<le> st_bridge_forward_delay t \<and> st_bridge_forward_delay t \<le> 7680 \<and>
    2 * (st_bridge_hello_time t + 256) \<le> st_bridge_max_age t \<and>
    st_bridge_max_age t \<le> 2 * (st_bridge_forward_delay t - 256) + 2"
proof -
  define ht where "ht = clamp (st_rq_hello_time s) 1000 10000"
  define ma where "ma = clamp (st_rq_max_age s) (max (2 * (ht + 1000)) 6000) 40000"
  define fd where "fd = clamp (st_rq_forward_delay s) (c_div ma 2 + 1000) 30000"
  have ht: "1000 \<le> ht" "ht \<le> 10000" by (auto simp: ht_def clamp_def)
  have ma: "6000 \<le> ma" "ma \<le> 40000" "2 * (ht + 1000) \<le> ma" using ht by (auto simp: ma_def clamp_def)
  have half: "c_div ma 2 = ma div 2" using ma by (simp add: c_div_nonneg)
  have fd: "fd \<le> 30000" "ma div 2 + 1000 \<le> fd" using ma unfolding fd_def half by (auto simp: clamp_def)
  have fd2: "ma - 1 + 2000 \<le> 2 * fd" "4000 \<le> fd" using fd ma by linarith+
  have u: "stp_update_bridge_timers s = (let s = s\<lparr>st_bridge_hello_time := ms_to_timer ht,
      st_bridge_max_age := ms_to_timer ma, st_bridge_forward_delay := ms_to_timer fd\<rparr>
      in if stp_is_root_bridge s then use_bridge_timers s else s)"
    by (simp only: stp_update_bridge_timers_def Let_def ht_def ma_def fd_def)
  have t: "st_bridge_hello_time t = ht * 256 div 1000" "st_bridge_max_age t = ma * 256 div 1000"
    "st_bridge_forward_delay t = fd * 256 div 1000"
    unfolding assms u using ht ma fd fd2 by (simp_all add: Let_def use_bridge_timers_def ms_to_timer_exact)
  note b = div_bounds[OF t(1)] div_bounds[OF t(2)] div_bounds[OF t(3)]
  have rel: "2 * (y + 256) \<le> z" if "1000 * y \<le> 256 * ht" "256 * ma < 1000 * z + 1000" for y z
  proof -
    have "512 * ht + 512000 \<le> 256 * ma" "2000 * y \<le> 512 * ht" using that(1) ma(3) by simp_all
    then have "1000 * (2 * y + 511) < 1000 * z" using that(2) by simp
    then show ?thesis by simp
  qed
  have rel': "z \<le> 2 * (w - 256) + 2" if "256 * fd < 1000 * w + 1000" "1000 * z \<le> 256 * ma" for w z
  proof -
    have "256 * ma + 511744 \<le> 512 * fd" "512 * fd < 2000 * w + 2000" using that(1) fd2(1) by simp_all
    then have "1000 * z < 1000 * (2 * w - 509)" using that(2) by simp
    then show ?thesis by simp
  qed
  have "256 \<le> st_bridge_hello_time t" "st_bridge_hello_time t \<le> 2560" "1536 \<le> st_bridge_max_age t"
    "st_bridge_max_age t \<le> 10240" "1024 \<le> st_bridge_forward_delay t" "st_bridge_forward_delay t \<le> 7680"
    using b ht ma fd(1) fd2 by linarith+
  then show ?thesis using rel[OF b(1) b(4)] rel'[OF b(6) b(3)] by blast
qed

theorem stp_bridge_timer_limits_witness:
  "256 \<le> st_bridge_hello_time (stp_set_hello_time sample_bridge 5) \<and>
   st_bridge_hello_time (stp_set_hello_time sample_bridge 5) \<le> 2560"
  unfolding stp_set_hello_time_def using stp_bridge_timer_limits[OF refl] by blast

text \<open>
  Path costs of \<open>2 ^ 31\<close> and more are received and stored but compared as negative numbers when the
  root port is chosen: an absurdly expensive path wins over a cheap one.
\<close>

lemma stp_huge_cost_wins:
  "stp_supersedes_root (sample_port 0x8001 5 4 7) (sample_port 0x8002 5 0xfffffff0 7)"
  by (simp add: stp_supersedes_root_def sample_port_def port_cost_def Let_def)

text \<open>The relation between forward delay and maximum age that the comments promise can miss by two ticks.\<close>

lemma stp_forward_delay_rounding:
  "let t = stp_update_bridge_timers (sample_bridge\<lparr>st_rq_max_age := 6047, st_rq_hello_time := 1000, st_rq_forward_delay := 0\<rparr>)
   in 2 * (st_bridge_forward_delay t - 256) + 2 = st_bridge_max_age t"
  by (simp add: stp_update_bridge_timers_def clamp_def c_div_def Let_def use_bridge_timers_def ms_to_timer_exact
      stp_is_root_bridge_def)

end
