(* ===== verification/Dt_Node.thy ===== *)
theory Dt_Node
  imports Ovs_Prelude
begin

text \<open>
  The data of the decision tree classifier (\<open>lib/dt-classifier.h\<close>, \<open>lib/dt-classifier.c\<close>): flows,
  rules, nodes, paths, and the operations on nodes.  A \<open>struct dt_node *\<close> is a value of type
  \<open>dt_node\<close>: the null pointer or the node pointed to, which carries its address, so that sharing
  and freeing of nodes can be expressed.  An allocation takes the next unused address.
\<close>

subsection \<open>Flows and fields\<close>

text \<open>
  The part of \<open>struct flow\<close> that the candidate fields read.  Network byte order members are the raw
  integers in memory of a little-endian host.
\<close>

record flow =
  fl_in_port :: uint16_t
  fl_dl_type :: uint16_t
  fl_nw_src :: uint32_t
  fl_nw_dst :: uint32_t
  fl_nw_proto :: uint8_t
  fl_tp_src :: uint16_t
  fl_tp_dst :: uint16_t

datatype mf_field_id =
    MFF_IN_PORT | MFF_ETH_TYPE | MFF_IPV4_SRC | MFF_IPV4_DST | MFF_IP_PROTO
  | MFF_TCP_SRC | MFF_TCP_DST | MFF_UDP_SRC | MFF_UDP_DST

definition htons :: "uint16_t \<Rightarrow> uint16_t" where
  "htons x = push_bit 8 x OR drop_bit 8 x"

definition ntohl :: "uint32_t \<Rightarrow> uint32_t" where
  "ntohl x = push_bit 24 x OR (push_bit 8 x AND 0xff0000) OR (drop_bit 8 x AND 0xff00) OR drop_bit 24 x"

text \<open>
  \<open>mf_get_value\<close> writes one, two or four bytes of the \<open>union mf_value\<close>; the decision tree always reads
  its \<open>be32\<close> member.  \<open>junk\<close> is what the four bytes held before: the code does not initialise them.
\<close>

definition be32_of_be16 :: "uint32_t \<Rightarrow> uint16_t \<Rightarrow> uint32_t" where
  "be32_of_be16 junk x = ucast x OR (junk AND 0xffff0000)"

definition be32_of_u8 :: "uint32_t \<Rightarrow> uint8_t \<Rightarrow> uint32_t" where
  "be32_of_u8 junk x = ucast x OR (junk AND 0xffffff00)"

definition mf_get_value :: "uint32_t \<Rightarrow> mf_field_id \<Rightarrow> flow \<Rightarrow> uint32_t" where
  "mf_get_value junk f flow = (case f of
     MFF_IN_PORT \<Rightarrow> be32_of_be16 junk (htons (fl_in_port flow))
   | MFF_ETH_TYPE \<Rightarrow> be32_of_be16 junk (fl_dl_type flow)
   | MFF_IPV4_SRC \<Rightarrow> fl_nw_src flow
   | MFF_IPV4_DST \<Rightarrow> fl_nw_dst flow
   | MFF_IP_PROTO \<Rightarrow> be32_of_u8 junk (fl_nw_proto flow)
   | MFF_TCP_SRC \<Rightarrow> be32_of_be16 junk (fl_tp_src flow)
   | MFF_TCP_DST \<Rightarrow> be32_of_be16 junk (fl_tp_dst flow)
   | MFF_UDP_SRC \<Rightarrow> be32_of_be16 junk (fl_tp_src flow)
   | MFF_UDP_DST \<Rightarrow> be32_of_be16 junk (fl_tp_dst flow))"

text \<open>\<open>struct match\<close>, as \<open>minimatch_expand\<close> produces it: a flow and its mask.\<close>

record match =
  mt_flow :: flow
  mt_wc :: flow

text \<open>\<open>mf_get\<close>: the value, and whether the \<open>n_bytes\<close> of the mask are not all zero.\<close>

definition mf_get :: "uint32_t \<Rightarrow> mf_field_id \<Rightarrow> match \<Rightarrow> uint32_t \<times> bool" where
  "mf_get junk f m = (mf_get_value junk f (mt_flow m), mf_get_value 0 f (mt_wc m) \<noteq> 0)"

definition zero_flow :: flow where
  "zero_flow = \<lparr>fl_in_port = 0, fl_dl_type = 0, fl_nw_src = 0, fl_nw_dst = 0, fl_nw_proto = 0,
     fl_tp_src = 0, fl_tp_dst = 0\<rparr>"

subsection \<open>Rules\<close>

record versions =
  vs_add_version :: uint64_t
  vs_remove_version :: uint64_t

definition versions_visible_in_version :: "versions \<Rightarrow> uint64_t \<Rightarrow> bool" where
  "versions_visible_in_version v version \<longleftrightarrow> vs_add_version v \<le> version \<and> version < vs_remove_version v"

text \<open>A \<open>struct cls_rule *\<close>, with its address; of \<open>cls_match\<close> only its versions matter here.\<close>

record cls_rule =
  cr_addr :: addr
  cr_priority :: int
  cr_cls_match :: "versions option"
  cr_match :: match

definition cls_rule_visible_in_version :: "cls_rule \<Rightarrow> uint64_t \<Rightarrow> bool" where
  "cls_rule_visible_in_version rule version =
     (case cr_cls_match rule of None \<Rightarrow> False | Some v \<Rightarrow> versions_visible_in_version v version)"

subsection \<open>Nodes\<close>

datatype dt_test_type = DT_TEST_EXACT | DT_TEST_PREFIX | DT_TEST_RANGE

text \<open>
  The \<open>union test\<close>: its first word is \<open>exact.value\<close>, \<open>prefix.prefix\<close> or \<open>range.min\<close>, its second
  \<open>prefix.plen\<close> or \<open>range.max\<close>.
\<close>

record dt_test =
  te_word0 :: uint32_t
  te_word1 :: uint32_t

text \<open>
  A leaf holds its \<open>n_rules\<close> rules, the capacity of the array they are in, and its identifier.  An
  internal node holds its field, test type, test, false branch and true branch.
\<close>

datatype dt_node =
    DtNull
  | DtLeaf addr "cls_rule list" nat uint32_t
  | DtInternal addr mf_field_id dt_test_type dt_test dt_node dt_node

text \<open>A function that allocates takes the next free address and returns the one after its allocations.\<close>

definition dt_node_create_leaf :: "addr \<Rightarrow> dt_node \<times> addr" where
  "dt_node_create_leaf next = (DtLeaf next [] 0 0, Suc next)"

definition dt_node_create_internal :: "addr \<Rightarrow> mf_field_id \<Rightarrow> dt_test_type \<Rightarrow> dt_node \<times> addr" where
  "dt_node_create_internal next field type =
     (DtInternal next field type \<lparr>te_word0 = 0, te_word1 = 0\<rparr> DtNull DtNull, Suc next)"

fun dt_node_copy :: "addr \<Rightarrow> dt_node \<Rightarrow> dt_node \<times> addr" where
  "dt_node_copy next DtNull = (DtNull, next)"
| "dt_node_copy next (DtInternal a field type test left right) =
     (DtInternal next field type test left right, Suc next)"
| "dt_node_copy next (DtLeaf a rules capacity leaf_id) =
     (DtLeaf next rules (if length rules > 0 then length rules else 0) leaf_id, Suc next)"

text \<open>\<open>dt_node_destroy\<close> frees the nodes of a tree: their addresses, in the order of the calls of \<open>free\<close>.\<close>

fun dt_node_destroy :: "dt_node \<Rightarrow> addr list" where
  "dt_node_destroy DtNull = []"
| "dt_node_destroy (DtInternal a field type test left right) =
     dt_node_destroy left @ dt_node_destroy right @ [a]"
| "dt_node_destroy (DtLeaf a rules capacity leaf_id) = [a]"

subsection \<open>Paths\<close>

text \<open>The recorded part of the two arrays of \<open>struct dt_path\<close>; \<open>depth\<close> is their length.\<close>

record dt_path =
  pa_nodes :: "dt_node list"
  pa_directions :: "bool list"

definition DT_PATH_MAX :: nat where
  "DT_PATH_MAX = 64"

definition dt_path_init :: dt_path where
  "dt_path_init = \<lparr>pa_nodes = [], pa_directions = []\<rparr>"

definition dt_path_record :: "dt_path \<Rightarrow> dt_node \<Rightarrow> bool \<Rightarrow> bool \<times> dt_path" where
  "dt_path_record path node go_right =
     (if length (pa_nodes path) \<ge> DT_PATH_MAX then (False, path)
      else (True, \<lparr>pa_nodes = pa_nodes path @ [node], pa_directions = pa_directions path @ [go_right]\<rparr>))"

definition dt_path_get_leaf :: "dt_path \<Rightarrow> dt_node" where
  "dt_path_get_leaf path =
     (if length (pa_nodes path) = 0 then DtNull else pa_nodes path ! (length (pa_nodes path) - 1))"

text \<open>
  The loop of \<open>dt_path_rebuild_cow\<close>, run for the indices below \<open>n\<close> in descending order.  \<open>None\<close> is the
  failed assertion that the copied ancestor is an internal node.
\<close>

fun dt_path_rebuild_loop :: "dt_path \<Rightarrow> nat \<Rightarrow> dt_node \<Rightarrow> addr \<Rightarrow> (dt_node \<times> addr) option" where
  "dt_path_rebuild_loop path 0 child next = Some (child, next)"
| "dt_path_rebuild_loop path (Suc i) child next =
     (case dt_node_copy next (pa_nodes path ! i) of
        (DtInternal a field type test left right, next') \<Rightarrow>
          dt_path_rebuild_loop path i
            (if pa_directions path ! (i + 1)
             then DtInternal a field type test left child
             else DtInternal a field type test child right) next'
      | _ \<Rightarrow> None)"

definition dt_path_rebuild_cow :: "dt_path \<Rightarrow> dt_node \<Rightarrow> addr \<Rightarrow> (dt_node \<times> addr) option" where
  "dt_path_rebuild_cow path new_leaf next =
     (if length (pa_nodes path) = 0 then Some (new_leaf, next)
      else dt_path_rebuild_loop path (length (pa_nodes path) - 1) new_leaf next)"

subsection \<open>Statistics of a tree\<close>

fun dt_calculate_stats_recursive :: "dt_node \<Rightarrow> int \<times> int \<times> int \<Rightarrow> int \<Rightarrow> int \<times> int \<times> int" where
  "dt_calculate_stats_recursive DtNull acc current_depth = acc"
| "dt_calculate_stats_recursive (DtLeaf a rules capacity leaf_id) (n_internal, n_leaf, max_depth) current_depth =
     (n_internal, n_leaf + 1, if current_depth > max_depth then current_depth else max_depth)"
| "dt_calculate_stats_recursive (DtInternal a field type test left right) (n_internal, n_leaf, max_depth) current_depth =
     dt_calculate_stats_recursive right
       (dt_calculate_stats_recursive left (n_internal + 1, n_leaf, max_depth) (current_depth + 1))
       (current_depth + 1)"

subsection \<open>Traversal\<close>

text \<open>
  The test of an internal node.  \<open>None\<close> is a shift by 32 bits or more, which C leaves undefined; the
  shift count \<open>32 - plen\<close> is computed as unsigned.
\<close>

definition dt_test_match :: "dt_test_type \<Rightarrow> dt_test \<Rightarrow> uint32_t \<Rightarrow> bool option" where
  "dt_test_match type test value = (case type of
     DT_TEST_EXACT \<Rightarrow> Some (value = te_word0 test)
   | DT_TEST_PREFIX \<Rightarrow>
       let shift = unat (32 - te_word1 test)
       in if shift < 32
          then let mask = push_bit shift (NOT 0 :: uint32_t)
               in Some (ntohl value AND mask = ntohl (te_word0 test) AND mask)
          else None
   | DT_TEST_RANGE \<Rightarrow> Some False)"

text \<open>The traversal loop of both lookups; \<open>junk d\<close> are the stale bytes at depth \<open>d\<close>.\<close>

fun dt_traverse :: "(nat \<Rightarrow> uint32_t) \<Rightarrow> flow \<Rightarrow> nat \<Rightarrow> dt_node \<Rightarrow> dt_node option" where
  "dt_traverse junk flow d (DtInternal a field type test left right) =
     (case dt_test_match type test (mf_get_value (junk d) field flow) of
        None \<Rightarrow> None
      | Some True \<Rightarrow> dt_traverse junk flow (Suc d) right
      | Some False \<Rightarrow> dt_traverse junk flow (Suc d) left)"
| "dt_traverse junk flow d node = Some node"

text \<open>
  The loop over the rules of a leaf in \<open>dt_lookup\<close>.  \<open>best_priority\<close> is \<open>unsigned\<close>, so the priorities
  are compared as unsigned numbers.
\<close>

definition dt_rule_visible :: "uint64_t \<Rightarrow> cls_rule \<Rightarrow> bool" where
  "dt_rule_visible version rule \<longleftrightarrow> cr_cls_match rule = None \<or> cls_rule_visible_in_version rule version"

definition dt_consider_rule ::
  "uint64_t \<Rightarrow> cls_rule \<Rightarrow> cls_rule option \<times> uint32_t \<Rightarrow> cls_rule option \<times> uint32_t" where
  "dt_consider_rule version rule best =
     (if dt_rule_visible version rule
         \<and> (fst best = None \<or> (word_of_int (cr_priority rule) :: uint32_t) > snd best)
      then (Some rule, word_of_int (cr_priority rule)) else best)"

definition dt_leaf_best :: "uint64_t \<Rightarrow> cls_rule list \<Rightarrow> cls_rule option" where
  "dt_leaf_best version rules = fst (fold (dt_consider_rule version) rules (None, 0))"

subsection \<open>Arrays of rules\<close>

text \<open>
  The insertion into a leaf: the position is before the first rule of lower priority, the rules from
  there on are shifted up by one.  The slot after the last rule holds an arbitrary value before the
  shift.  The removal shifts the rules after the first occurrence down by one.
\<close>

fun insert_pos :: "int \<Rightarrow> cls_rule list \<Rightarrow> nat \<Rightarrow> nat" where
  "insert_pos priority [] i = i"
| "insert_pos priority (r # rs) i = (if priority > cr_priority r then i else insert_pos priority rs (Suc i))"

fun shift_up :: "nat \<Rightarrow> nat \<Rightarrow> 'a list \<Rightarrow> 'a list" where
  "shift_up 0 pos xs = xs"
| "shift_up (Suc i) pos xs = (if Suc i > pos then shift_up i pos (xs[Suc i := xs ! i]) else xs)"

definition leaf_insert :: "cls_rule \<Rightarrow> cls_rule \<Rightarrow> cls_rule list \<Rightarrow> cls_rule list" where
  "leaf_insert slot rule rules =
     (let pos = insert_pos (cr_priority rule) rules 0
      in (shift_up (length rules) pos (rules @ [slot]))[pos := rule])"

fun shift_down :: "nat \<Rightarrow> nat \<Rightarrow> 'a list \<Rightarrow> 'a list" where
  "shift_down 0 j xs = xs"
| "shift_down (Suc n) j xs = shift_down n (Suc j) (xs[j := xs ! Suc j])"

fun rule_index :: "addr \<Rightarrow> cls_rule list \<Rightarrow> nat \<Rightarrow> nat option" where
  "rule_index a [] i = None"
| "rule_index a (r # rs) i = (if cr_addr r = a then Some i else rule_index a rs (Suc i))"

definition leaf_remove :: "nat \<Rightarrow> cls_rule list \<Rightarrow> cls_rule list" where
  "leaf_remove i rules = butlast (shift_down (length rules - 1 - i) i rules)"

end
