(* ===== verification/Dt_Build.thy ===== *)
theory Dt_Build
  imports Dt_Node
begin

text \<open>
  Building a decision tree from an array of rules: the choice of a field and of a split value, the
  partition of the rules and the recursion (\<open>dt_build_tree_from_array\<close> and its helpers in
  \<open>lib/dt-classifier.c\<close>).  The output of \<open>printf\<close> is left out.
\<close>

subsection \<open>Choice of a field\<close>

text \<open>The number of rules whose mask specifies a field; both selection functions count this way.\<close>

definition field_count :: "cls_rule list \<Rightarrow> mf_field_id \<Rightarrow> nat" where
  "field_count rules f = length (filter (\<lambda>r. snd (mf_get 0 f (cr_match r))) rules)"

definition select_candidate_fields :: "mf_field_id list" where
  "select_candidate_fields = [MFF_IN_PORT, MFF_ETH_TYPE, MFF_IPV4_SRC, MFF_IPV4_DST, MFF_IP_PROTO,
     MFF_TCP_SRC, MFF_TCP_DST, MFF_UDP_SRC, MFF_UDP_DST]"

text \<open>The loop that keeps the first field with the highest count.\<close>

fun best_field :: "cls_rule list \<Rightarrow> mf_field_id list \<Rightarrow> mf_field_id \<times> nat \<Rightarrow> mf_field_id \<times> nat" where
  "best_field rules [] best = best"
| "best_field rules (f # fs) best =
     best_field rules fs (if field_count rules f > snd best then (f, field_count rules f) else best)"

definition dt_select_split_field_array :: "cls_rule list \<Rightarrow> mf_field_id option" where
  "dt_select_split_field_array rules =
     (if length rules = 0 then None
      else let best = best_field rules (tl select_candidate_fields)
                 (hd select_candidate_fields, field_count rules (hd select_candidate_fields))
           in if snd best = 0 then None else Some (fst best))"

text \<open>The version for a list of rules does the same.\<close>

definition dt_select_split_field :: "cls_rule list \<Rightarrow> nat \<Rightarrow> mf_field_id option" where
  "dt_select_split_field rules n_rules =
     (if n_rules = 0 then None
      else let best = best_field rules (tl select_candidate_fields)
                 (hd select_candidate_fields, field_count rules (hd select_candidate_fields))
           in if snd best = 0 then None else Some (fst best))"

text \<open>
  \<open>dt_find_split_value\<close> of the list version collects dummy values 1, 2, 3, ... for at most 128 rules and
  takes the middle one.
\<close>

definition dt_find_split_value :: "cls_rule list \<Rightarrow> (dt_test_type \<times> uint32_t \<times> nat) option" where
  "dt_find_split_value rules =
     (let values = map (\<lambda>n. ntohl (of_nat (n + 1))) [0..<min 128 (length rules)]
      in if length values = 0 then None
         else Some (DT_TEST_EXACT, values ! (length values div 2), 32))"

subsection \<open>Choice of a split value\<close>

text \<open>\<open>junk i\<close> are the stale bytes under the value read for the \<open>i\<close>-th rule.\<close>

definition field_values :: "(nat \<Rightarrow> uint32_t) \<Rightarrow> mf_field_id \<Rightarrow> cls_rule list \<Rightarrow> uint32_t list" where
  "field_values junk field rules =
     map fst (filter snd (map (\<lambda>(i, r). mf_get (junk i) field (cr_match r)) (enumerate 0 rules)))"

definition dt_find_split_value_array ::
  "(nat \<Rightarrow> uint32_t) \<Rightarrow> mf_field_id \<Rightarrow> cls_rule list \<Rightarrow> (dt_test_type \<times> uint32_t \<times> nat) option" where
  "dt_find_split_value_array junk field rules =
     (if length rules = 0 then None
      else let values = field_values junk field rules
           in if length values = 0 then None
              else if list_all (\<lambda>v. v = hd values) (tl values) then None
              else Some (DT_TEST_EXACT, values ! (length values div 2), 32))"

definition build_candidate_fields :: "mf_field_id list" where
  "build_candidate_fields = [MFF_IPV4_SRC, MFF_IPV4_DST, MFF_TCP_SRC, MFF_TCP_DST, MFF_UDP_SRC,
     MFF_UDP_DST, MFF_IP_PROTO, MFF_IN_PORT, MFF_ETH_TYPE]"

text \<open>The loop over the candidate fields; \<open>k\<close> is the index of the first one of \<open>fds\<close>.\<close>

fun dt_choose_split ::
  "(nat \<Rightarrow> nat \<Rightarrow> uint32_t) \<Rightarrow> cls_rule list \<Rightarrow> nat \<Rightarrow> mf_field_id list \<Rightarrow>
     (mf_field_id \<times> dt_test_type \<times> uint32_t) option" where
  "dt_choose_split junk rules k [] = None"
| "dt_choose_split junk rules k (field # fds) =
     (case dt_find_split_value_array (junk k) field rules of
        Some (type, value, plen) \<Rightarrow> Some (field, type, value)
      | None \<Rightarrow> dt_choose_split junk rules (Suc k) fds)"

text \<open>The rules whose raw value is at least the split value go right, the others left.\<close>

definition goes_right :: "(nat \<Rightarrow> uint32_t) \<Rightarrow> mf_field_id \<Rightarrow> uint32_t \<Rightarrow> nat \<times> cls_rule \<Rightarrow> bool" where
  "goes_right junk field split_value ir = (fst (mf_get (junk (fst ir)) field (cr_match (snd ir))) \<ge> split_value)"

definition dt_partition ::
  "(nat \<Rightarrow> uint32_t) \<Rightarrow> mf_field_id \<Rightarrow> uint32_t \<Rightarrow> cls_rule list \<Rightarrow> cls_rule list \<times> cls_rule list" where
  "dt_partition junk field split_value rules =
     (map snd (filter (\<lambda>ir. \<not> goes_right junk field split_value ir) (enumerate 0 rules)),
      map snd (filter (goes_right junk field split_value) (enumerate 0 rules)))"

subsection \<open>Building\<close>

definition dt_build_leaf :: "cls_rule list \<Rightarrow> addr \<Rightarrow> dt_node \<times> addr" where
  "dt_build_leaf rules next =
     (case dt_node_create_leaf next of
        (DtLeaf a _ _ leaf_id, next') \<Rightarrow> (DtLeaf a rules (length rules) leaf_id, next')
      | other \<Rightarrow> other)"

lemma dt_partition_mset:
  "mset (fst (dt_partition junk field v rules)) + mset (snd (dt_partition junk field v rules)) = mset rules"
proof -
  have "mset (map snd (filter (\<lambda>x. \<not> P x) xs)) + mset (map snd (filter P xs)) = mset (map snd xs)"
    for P :: "nat \<times> cls_rule \<Rightarrow> bool" and xs
    by (induction xs) auto
  from this[of "goes_right junk field v" "enumerate 0 rules"] show ?thesis
    by (simp only: dt_partition_def fst_conv snd_conv map_snd_enumerate)
qed

lemma dt_partition_length:
  "length (fst (dt_partition junk field v rules)) + length (snd (dt_partition junk field v rules)) = length rules"
  using arg_cong[OF dt_partition_mset, of size junk field v rules] by simp

lemma dt_partition_less:
  assumes "fst (dt_partition junk field v rules) \<noteq> []" and "snd (dt_partition junk field v rules) \<noteq> []"
  shows "length (fst (dt_partition junk field v rules)) < length rules"
    and "length (snd (dt_partition junk field v rules)) < length rules"
proof -
  have "0 < length (fst (dt_partition junk field v rules))" "0 < length (snd (dt_partition junk field v rules))"
    using assms by auto
  then show "length (fst (dt_partition junk field v rules)) < length rules"
    and "length (snd (dt_partition junk field v rules)) < length rules"
    using dt_partition_length[of junk field v rules] by linarith+
qed

text \<open>
  \<open>junk path k i\<close> are the stale bytes in the call for the subtree at \<open>path\<close>, in the loop over the
  \<open>k\<close>-th candidate field (9 for the partition), at the \<open>i\<close>-th rule.
\<close>

function dt_build_tree_from_array ::
  "(bool list \<Rightarrow> nat \<Rightarrow> nat \<Rightarrow> uint32_t) \<Rightarrow> bool list \<Rightarrow> cls_rule list \<Rightarrow> nat \<Rightarrow> int \<Rightarrow> addr \<Rightarrow> dt_node \<times> addr" where
  "dt_build_tree_from_array junk path rules max_leaf_size depth next =
     (if length rules = 0 then (DtNull, next)
      else if length rules \<le> max_leaf_size then dt_build_leaf rules next
      else case dt_choose_split (junk path) rules 0 build_candidate_fields of
             None \<Rightarrow> dt_build_leaf rules next
           | Some (field, type, split_value) \<Rightarrow>
               (let parts = dt_partition (junk path 9) field split_value rules
                in if length (fst parts) = 0 \<or> length (snd parts) = 0 then dt_build_leaf rules next
                   else let (internal, next1) = dt_node_create_internal next field type;
                            (left, next2) = dt_build_tree_from_array junk (False # path) (fst parts) max_leaf_size (depth + 1) next1;
                            (right, next3) = dt_build_tree_from_array junk (True # path) (snd parts) max_leaf_size (depth + 1) next2
                        in (case internal of
                              DtInternal a f t test _ _ \<Rightarrow> DtInternal a f t (test\<lparr>te_word0 := split_value\<rparr>) left right
                            | other \<Rightarrow> other, next3)))"
  by pat_completeness auto
termination
proof (relation "measure (\<lambda>(junk, path, rules, _). length rules)", goal_cases)
  case 1
  then show ?case by simp
next
  case (2 junk path rules m depth nx x field y ty v parts)
  then show ?case using dt_partition_less[of "junk path 9" field v rules] by simp
next
  case (3 junk path rules m depth nx x field y ty v parts)
  then show ?case using dt_partition_less[of "junk path 9" field v rules] by simp
qed

declare dt_build_tree_from_array.simps [simp del]

end
