(* ===== verification/Dt_Classifier.thy ===== *)
theory Dt_Classifier
  imports Dt_Build
begin

text \<open>
  The operations on a \<open>struct decision_tree\<close>: initialisation, lazy building, lookup, insertion and
  removal, in place and by copying the path to the leaf (\<open>lib/dt-classifier.c\<close>).  \<open>None\<close> is a failed
  assertion, an undefined shift or a write outside the rule array of a leaf.
\<close>

subsection \<open>State\<close>

text \<open>
  \<open>n_pending\<close> is the length of \<open>dt_pending_rules\<close>.  The last three fields are the allocator and the
  effects on memory: the next free address, the trees whose destruction is postponed to the end of
  the grace period, and the addresses freed at once.
\<close>

record decision_tree =
  dt_root :: dt_node
  dt_tree_built :: bool
  dt_pending_rules :: "cls_rule list"
  dt_pending_capacity :: nat
  dt_n_rules :: int
  dt_n_internal_nodes :: int
  dt_n_leaf_nodes :: int
  dt_max_depth :: int
  dt_next :: addr
  dt_postponed :: "dt_node list"
  dt_freed :: "addr list"

definition dt_init :: "addr \<Rightarrow> decision_tree" where
  "dt_init next = \<lparr>dt_root = DtNull, dt_tree_built = False, dt_pending_rules = [], dt_pending_capacity = 0,
     dt_n_rules = 0, dt_n_internal_nodes = 0, dt_n_leaf_nodes = 0, dt_max_depth = 0,
     dt_next = next, dt_postponed = [], dt_freed = []\<rparr>"

definition dt_destroy :: "decision_tree \<Rightarrow> decision_tree" where
  "dt_destroy dt =
     (let dt = (if dt_root dt \<noteq> DtNull
                then dt\<lparr>dt_freed := dt_freed dt @ dt_node_destroy (dt_root dt), dt_root := DtNull\<rparr> else dt)
      in dt\<lparr>dt_pending_rules := [], dt_pending_capacity := 0\<rparr>)"

subsection \<open>Lazy building\<close>

definition dt_update_stats :: "decision_tree \<Rightarrow> decision_tree" where
  "dt_update_stats dt =
     (let dt = dt\<lparr>dt_n_internal_nodes := 0, dt_n_leaf_nodes := 0, dt_max_depth := 0\<rparr>
      in if dt_root dt \<noteq> DtNull
         then let (n_internal, n_leaf, max_depth) =
                    dt_calculate_stats_recursive (dt_root dt)
                      (dt_n_internal_nodes dt, dt_n_leaf_nodes dt, dt_max_depth dt) 0
              in dt\<lparr>dt_n_internal_nodes := n_internal, dt_n_leaf_nodes := n_leaf, dt_max_depth := max_depth\<rparr>
         else dt)"

definition dt_ensure_tree_built :: "(bool list \<Rightarrow> nat \<Rightarrow> nat \<Rightarrow> uint32_t) \<Rightarrow> decision_tree \<Rightarrow> decision_tree" where
  "dt_ensure_tree_built junk dt =
     (if dt_tree_built dt then dt
      else if length (dt_pending_rules dt) = 0 then dt\<lparr>dt_tree_built := True\<rparr>
      else let (new_root, next) = dt_build_tree_from_array junk [] (dt_pending_rules dt) 5 0 (dt_next dt)
           in dt_update_stats
                (dt\<lparr>dt_root := new_root, dt_next := next, dt_n_rules := int (length (dt_pending_rules dt)),
                    dt_tree_built := True\<rparr>))"

definition dt_add_rule_lazy :: "decision_tree \<Rightarrow> cls_rule \<Rightarrow> decision_tree" where
  "dt_add_rule_lazy dt rule =
     (let dt = (if length (dt_pending_rules dt) \<ge> dt_pending_capacity dt
                then dt\<lparr>dt_pending_capacity :=
                       (if dt_pending_capacity dt = 0 then 16 else dt_pending_capacity dt * 2)\<rparr>
                else dt)
      in dt\<lparr>dt_pending_rules := dt_pending_rules dt @ [rule], dt_tree_built := False\<rparr>)"

subsection \<open>Lookup\<close>

text \<open>Both lookups first build the tree; \<open>junk\<close> are the stale bytes of the build, \<open>junk'\<close> of the traversal.\<close>

definition dt_lookup_simple ::
  "(bool list \<Rightarrow> nat \<Rightarrow> nat \<Rightarrow> uint32_t) \<Rightarrow> (nat \<Rightarrow> uint32_t) \<Rightarrow> decision_tree \<Rightarrow> flow \<Rightarrow>
     (cls_rule option \<times> decision_tree) option" where
  "dt_lookup_simple junk junk' dt flow =
     (let dt = dt_ensure_tree_built junk dt
      in Option.bind (dt_traverse junk' flow 0 (dt_root dt)) (\<lambda>node. Some
           (case node of
              DtLeaf a rules capacity leaf_id \<Rightarrow> (if length rules > 0 then Some (rules ! 0) else None, dt)
            | _ \<Rightarrow> (None, dt))))"

text \<open>\<open>wc\<close> is the optional wildcards argument, whose masks are cleared when there is a tree.\<close>

definition dt_lookup ::
  "(bool list \<Rightarrow> nat \<Rightarrow> nat \<Rightarrow> uint32_t) \<Rightarrow> (nat \<Rightarrow> uint32_t) \<Rightarrow> decision_tree \<Rightarrow> uint64_t \<Rightarrow> flow \<Rightarrow> flow option \<Rightarrow>
     (cls_rule option \<times> flow option \<times> decision_tree) option" where
  "dt_lookup junk junk' dt version flow wc =
     (let dt = dt_ensure_tree_built junk dt
      in if dt_root dt = DtNull then Some (None, wc, dt)
         else let wc = (case wc of Some _ \<Rightarrow> Some zero_flow | None \<Rightarrow> None)
              in Option.bind (dt_traverse junk' flow 0 (dt_root dt)) (\<lambda>node. Some
                   (case node of
                      DtLeaf a rules capacity leaf_id \<Rightarrow> (dt_leaf_best version rules, wc, dt)
                    | _ \<Rightarrow> (None, wc, dt))))"

subsection \<open>Insertion and removal in place\<close>

text \<open>The new leaf with one rule that both insertions create in an empty tree.\<close>

definition dt_first_leaf :: "addr \<Rightarrow> cls_rule \<Rightarrow> dt_node \<times> addr" where
  "dt_first_leaf next rule =
     (case dt_node_create_leaf next of
        (DtLeaf a _ _ leaf_id, next') \<Rightarrow> (DtLeaf a [rule] 16 leaf_id, next')
      | other \<Rightarrow> other)"

text \<open>
  Storing a rule in an array of a given capacity; \<open>slot\<close> is the arbitrary content of the first slot
  after the rules.
\<close>

definition dt_leaf_store :: "cls_rule \<Rightarrow> cls_rule \<Rightarrow> cls_rule list \<Rightarrow> nat \<Rightarrow> cls_rule list option" where
  "dt_leaf_store slot rule rules capacity =
     (if length rules < capacity then Some (leaf_insert slot rule rules) else None)"

definition dt_insert_rule_simple ::
  "cls_rule \<Rightarrow> addr \<Rightarrow> dt_node \<Rightarrow> cls_rule \<Rightarrow> (bool \<times> dt_node \<times> addr) option" where
  "dt_insert_rule_simple slot next root rule =
     (case root of
        DtNull \<Rightarrow> (case dt_first_leaf next rule of (leaf, next') \<Rightarrow> Some (True, leaf, next'))
      | DtLeaf a rules capacity leaf_id \<Rightarrow>
          let capacity' = (if length rules \<ge> capacity then (if capacity = 0 then 16 else capacity * 2) else capacity)
          in Option.bind (dt_leaf_store slot rule rules capacity') (\<lambda>rules'.
               Some (True, DtLeaf a rules' capacity' leaf_id, next))
      | DtInternal _ _ _ _ _ _ \<Rightarrow> Some (False, root, next))"

definition dt_remove_rule_simple :: "dt_node \<Rightarrow> cls_rule \<Rightarrow> bool \<times> dt_node" where
  "dt_remove_rule_simple root rule =
     (case root of
        DtLeaf a rules capacity leaf_id \<Rightarrow>
          (case rule_index (cr_addr rule) rules 0 of
             Some i \<Rightarrow> (True, DtLeaf a (leaf_remove i rules) capacity leaf_id)
           | None \<Rightarrow> (False, root))
      | _ \<Rightarrow> (False, root))"

subsection \<open>Insertion and removal by copying\<close>

text \<open>The loop that always goes left, recording the path; the result of \<open>dt_path_record\<close> is ignored.\<close>

fun dt_go_left :: "dt_path \<Rightarrow> dt_node \<Rightarrow> dt_path \<times> dt_node" where
  "dt_go_left path (DtInternal a field type test left right) =
     dt_go_left (if left \<noteq> DtNull then snd (dt_path_record path left False) else path) left"
| "dt_go_left path node = (path, node)"

text \<open>Publish a tree with a new leaf at the end of \<open>path\<close> and postpone the destruction of the old tree.\<close>

definition dt_publish :: "decision_tree \<Rightarrow> dt_path \<Rightarrow> dt_node \<Rightarrow> addr \<Rightarrow> int \<Rightarrow> decision_tree option" where
  "dt_publish dt path new_leaf next delta =
     map_option (\<lambda>(new_root, next').
         dt\<lparr>dt_root := new_root, dt_next := next', dt_n_rules := dt_n_rules dt + delta,
            dt_postponed := dt_postponed dt @ [dt_root dt]\<rparr>)
       (dt_path_rebuild_cow path new_leaf next)"

definition dt_insert_rule :: "cls_rule \<Rightarrow> decision_tree \<Rightarrow> cls_rule \<Rightarrow> (bool \<times> decision_tree) option" where
  "dt_insert_rule slot dt rule =
     (if dt_root dt = DtNull
      then (case dt_first_leaf (dt_next dt) rule of (leaf, next') \<Rightarrow>
              Some (True, dt\<lparr>dt_root := leaf, dt_next := next', dt_n_rules := dt_n_rules dt + 1,
                             dt_n_leaf_nodes := dt_n_leaf_nodes dt + 1\<rparr>))
      else let path = snd (dt_path_record dt_path_init (dt_root dt) False);
               (path, node) = dt_go_left path (dt_root dt)
           in (case dt_node_copy (dt_next dt) node of
                 (DtLeaf a rules capacity leaf_id, next') \<Rightarrow>
                   let capacity' = (if length rules \<ge> capacity then capacity * 2 else capacity)
                   in Option.bind (dt_leaf_store slot rule rules capacity') (\<lambda>rules'.
                        map_option (\<lambda>dt'. (True, dt'))
                          (dt_publish dt path (DtLeaf a rules' capacity' leaf_id) next' 1))
               | _ \<Rightarrow> Some (False, dt)))"

definition dt_remove_rule :: "decision_tree \<Rightarrow> cls_rule \<Rightarrow> (bool \<times> decision_tree) option" where
  "dt_remove_rule dt rule =
     (if dt_root dt = DtNull then Some (False, dt)
      else let path = snd (dt_path_record dt_path_init (dt_root dt) False);
               (path, node) = dt_go_left path (dt_root dt)
           in (case node of
                 DtLeaf _ rules0 _ _ \<Rightarrow>
                   if rule_index (cr_addr rule) rules0 0 = None then Some (False, dt)
                   else (case dt_node_copy (dt_next dt) node of
                           (DtLeaf a rules capacity leaf_id, next') \<Rightarrow>
                             let rules' = (case rule_index (cr_addr rule) rules 0 of
                                             Some i \<Rightarrow> leaf_remove i rules | None \<Rightarrow> rules)
                             in map_option (\<lambda>dt'. (True, dt'))
                                  (dt_publish dt path (DtLeaf a rules' capacity leaf_id) next' (-1))
                         | _ \<Rightarrow> Some (False, dt))
               | _ \<Rightarrow> Some (False, dt)))"

subsection \<open>Statistics\<close>

text \<open>The four \<open>size_t\<close> results, from \<open>int\<close> counters.\<close>

definition dt_get_stats :: "decision_tree \<Rightarrow> uint64_t \<times> uint64_t \<times> uint64_t \<times> uint64_t" where
  "dt_get_stats dt = (word_of_int (dt_n_rules dt), word_of_int (dt_n_internal_nodes dt),
     word_of_int (dt_n_leaf_nodes dt), word_of_int (dt_max_depth dt))"

end
