(* ===== verification/Dt_Props.thy ===== *)
theory Dt_Props
  imports Dt_Classifier "HOL-Library.Sublist"
begin

text \<open>
  Correctness of the decision tree classifier: rule arrays against reference list functions, the
  order that insertion keeps, copying of paths, building, lookup and statistics.
\<close>

subsection \<open>Rule arrays\<close>

lemma length_shift_up [simp]: "length (shift_up i pos xs) = length xs"
  by (induction i arbitrary: xs) auto

lemma nth_shift_up:
  "i < length xs \<Longrightarrow> k < length xs \<Longrightarrow> shift_up i pos xs ! k = (if pos < k \<and> k \<le> i then xs ! (k - 1) else xs ! k)"
proof (induction i arbitrary: xs)
  case (Suc i)
  then show ?case by (cases "pos < Suc i") (auto simp: nth_list_update)
qed simp

text \<open>The reference: put a rule after the rules of the same or a higher priority.\<close>

primrec put_rule :: "('r \<Rightarrow> int) \<Rightarrow> 'r \<Rightarrow> 'r list \<Rightarrow> 'r list" where
  "put_rule prio r [] = [r]"
| "put_rule prio r (x # xs) = (if prio r > prio x then r # x # xs else x # put_rule prio r xs)"

lemma insert_pos_shift: "insert_pos p rs (Suc i) = Suc (insert_pos p rs i)"
  by (induction rs arbitrary: i) auto

lemma insert_pos_le: "insert_pos p rs 0 \<le> length rs"
  by (induction rs) (auto simp: insert_pos_shift)

lemma put_rule_eq:
  "put_rule cr_priority r rs =
     take (insert_pos (cr_priority r) rs 0) rs @ r # drop (insert_pos (cr_priority r) rs 0) rs"
  by (induction rs) (auto simp: insert_pos_shift)

lemma leaf_insert_put_rule: "leaf_insert slot r rs = put_rule cr_priority r rs"
proof -
  define p where "p = insert_pos (cr_priority r) rs 0"
  have p: "p \<le> length rs" using insert_pos_le by (simp add: p_def)
  have "leaf_insert slot r rs = (shift_up (length rs) p (rs @ [slot]))[p := r]"
    by (simp add: leaf_insert_def p_def Let_def)
  also have "\<dots> = take p rs @ r # drop p rs"
  proof (rule nth_equalityI)
    fix k assume "k < length ((shift_up (length rs) p (rs @ [slot]))[p := r])"
    then have k: "k < Suc (length rs)" by simp
    have "shift_up (length rs) p (rs @ [slot]) ! k = (if p < k then (rs @ [slot]) ! (k - 1) else (rs @ [slot]) ! k)"
      using nth_shift_up[of "length rs" "rs @ [slot]" k p] k by simp
    then show "(shift_up (length rs) p (rs @ [slot]))[p := r] ! k = (take p rs @ r # drop p rs) ! k"
      using k p by (auto simp: nth_append nth_Cons' nth_list_update)
  qed (use p in simp)
  finally show ?thesis by (simp add: put_rule_eq p_def)
qed

lemma length_shift_down [simp]: "length (shift_down n j xs) = length xs"
  by (induction n arbitrary: j xs) auto

lemma nth_shift_down:
  "j + n < length xs \<Longrightarrow> k < length xs \<Longrightarrow> shift_down n j xs ! k = (if j \<le> k \<and> k < j + n then xs ! Suc k else xs ! k)"
proof (induction n arbitrary: j xs)
  case (Suc n)
  have "shift_down n (Suc j) (xs[j := xs ! Suc j]) ! k =
      (if Suc j \<le> k \<and> k < Suc j + n then xs[j := xs ! Suc j] ! Suc k else xs[j := xs ! Suc j] ! k)"
    using Suc by simp
  then show ?case using Suc.prems by (auto simp: nth_list_update)
qed auto

lemma leaf_remove_eq:
  assumes "i < length rs"
  shows "leaf_remove i rs = take i rs @ drop (Suc i) rs"
proof (rule nth_equalityI)
  show "length (leaf_remove i rs) = length (take i rs @ drop (Suc i) rs)"
    using assms by (simp add: leaf_remove_def)
  fix k assume "k < length (leaf_remove i rs)"
  then have k: "Suc k < length rs" using assms by (simp add: leaf_remove_def)
  then have "leaf_remove i rs ! k = shift_down (length rs - 1 - i) i rs ! k"
    by (simp add: leaf_remove_def nth_butlast)
  also have "\<dots> = (if i \<le> k then rs ! Suc k else rs ! k)"
    using nth_shift_down[of i "length rs - 1 - i" rs k] assms k by auto
  finally show "leaf_remove i rs ! k = (take i rs @ drop (Suc i) rs) ! k"
    using assms k by (simp add: nth_append)
qed

primrec drop_rule :: "addr \<Rightarrow> cls_rule list \<Rightarrow> cls_rule list" where
  "drop_rule a [] = []"
| "drop_rule a (r # rs) = (if cr_addr r = a then rs else r # drop_rule a rs)"

lemma rule_index_shift: "rule_index a rs (Suc i) = map_option Suc (rule_index a rs i)"
  by (induction rs arbitrary: i) auto

lemma rule_index_None: "rule_index a rs 0 = None \<longleftrightarrow> (\<forall>r \<in> set rs. cr_addr r \<noteq> a)"
  by (induction rs) (auto simp: rule_index_shift)

lemma rule_index_Some:
  "rule_index a rs 0 = Some i \<Longrightarrow> i < length rs \<and> take i rs @ drop (Suc i) rs = drop_rule a rs \<and> cr_addr (rs ! i) = a"
proof (induction rs arbitrary: i)
  case (Cons r rs)
  then show ?case by (cases i) (auto simp: rule_index_shift split: if_splits)
qed simp

lemma leaf_remove_drop_rule: "rule_index a rs 0 = Some i \<Longrightarrow> leaf_remove i rs = drop_rule a rs"
  using rule_index_Some leaf_remove_eq by metis

subsection \<open>Priority order\<close>

abbreviation by_priority :: "('r \<Rightarrow> int) \<Rightarrow> 'r list \<Rightarrow> bool" where
  "by_priority prio xs \<equiv> sorted_wrt (\<lambda>x y. prio x \<ge> prio y) xs"

lemma set_put_rule [simp]: "set (put_rule prio r xs) = insert r (set xs)"
  by (induction xs) auto

lemma mset_put_rule [simp]: "mset (put_rule prio r xs) = add_mset r (mset xs)"
  by (induction xs) auto

lemma put_rule_sorted: "by_priority prio xs \<Longrightarrow> by_priority prio (put_rule prio r xs)"
  by (induction xs) auto

lemma put_rule_filter_same:
  "by_priority prio xs \<Longrightarrow> prio r = k \<Longrightarrow>
   filter (\<lambda>x. prio x = k) (put_rule prio r xs) = filter (\<lambda>x. prio x = k) xs @ [r]"
proof (induction xs)
  case (Cons x xs)
  have "filter (\<lambda>x. prio x = k) (x # xs) = []" if "prio r > prio x"
    using that Cons.prems by (auto simp: filter_empty_conv)
  then show ?case using Cons by auto
qed simp

lemma put_rule_filter_other: "prio r \<noteq> k \<Longrightarrow> filter (\<lambda>x. prio x = k) (put_rule prio r xs) = filter (\<lambda>x. prio x = k) xs"
  by (induction xs) auto

definition put_rules :: "('r \<Rightarrow> int) \<Rightarrow> 'r list \<Rightarrow> 'r list \<Rightarrow> 'r list" where
  "put_rules prio rs xs = fold (put_rule prio) rs xs"

lemma put_rules_sorted: "by_priority prio xs \<Longrightarrow> by_priority prio (put_rules prio rs xs)"
  by (induction rs arbitrary: xs) (auto simp: put_rules_def put_rule_sorted)

lemma mset_put_rules: "mset (put_rules prio rs xs) = mset rs + mset xs"
  by (induction rs arbitrary: xs) (auto simp: put_rules_def)

lemma put_rules_filter:
  "by_priority prio xs \<Longrightarrow>
   filter (\<lambda>x. prio x = k) (put_rules prio rs xs) = filter (\<lambda>x. prio x = k) xs @ filter (\<lambda>x. prio x = k) rs"
proof (induction rs arbitrary: xs)
  case (Cons r rs)
  have "filter (\<lambda>x. prio x = k) (put_rule prio r xs) = filter (\<lambda>x. prio x = k) xs @ filter (\<lambda>x. prio x = k) [r]"
    using Cons.prems put_rule_filter_same[of prio xs r k] put_rule_filter_other[of prio r k xs] by (cases "prio r = k") auto
  then show ?case using Cons put_rule_sorted[of prio xs r] by (simp add: put_rules_def)
qed (simp add: put_rules_def)

text \<open>Inserting rules one after the other sorts them by descending priority, stably.\<close>

lemma put_rules_sort: "put_rules prio rs [] = sort_key (\<lambda>r. - prio r) rs"
proof (rule sym, rule properties_for_sort_key)
  show "mset (put_rules prio rs []) = mset rs" by (simp add: mset_put_rules)
  show "\<And>k. k \<in> set (put_rules prio rs []) \<Longrightarrow>
      filter (\<lambda>x. - prio k = - prio x) (put_rules prio rs []) = filter (\<lambda>x. - prio k = - prio x) rs"
    using put_rules_filter[of prio "[]" _ rs] by (simp add: eq_commute)
  show "sorted (map (\<lambda>r. - prio r) (put_rules prio rs []))"
    using put_rules_sorted[of prio "[]" rs] by (simp add: sorted_map sorted_wrt_iff_nth_less)
qed

subsection \<open>Stores that keep the priority order\<close>

text \<open>
  The interface of the insertions: a store holds a list of rules, and storing a rule puts it behind
  the rules of the same or a higher priority.
\<close>

locale priority_store =
  fixes put :: "'r \<Rightarrow> 's \<Rightarrow> 's option"
    and items :: "'s \<Rightarrow> 'r list"
    and prio :: "'r \<Rightarrow> int"
    and inv :: "'s \<Rightarrow> bool"
  assumes put: "inv s \<Longrightarrow> \<exists>s'. put r s = Some s' \<and> inv s' \<and> items s' = put_rule prio r (items s)"
begin

lemma put_all:
  "inv s \<Longrightarrow> \<exists>s'. run_ops put rs s = Some s' \<and> inv s' \<and> items s' = put_rules prio rs (items s)"
proof (induction rs arbitrary: s)
  case (Cons r rs)
  obtain s1 where s1: "put r s = Some s1" "inv s1" "items s1 = put_rule prio r (items s)"
    using put[OF Cons.prems] by blast
  then show ?case using Cons.IH[OF s1(2)] by (simp add: put_rules_def)
qed (simp add: put_rules_def)

lemma put_all_sorts:
  "inv s \<Longrightarrow> items s = [] \<Longrightarrow>
   \<exists>s'. run_ops put rs s = Some s' \<and> inv s' \<and> items s' = sort_key (\<lambda>r. - prio r) rs"
  using put_all[of s rs] by (simp add: put_rules_sort)

end

subsection \<open>Trees\<close>

fun tree_leaves :: "dt_node \<Rightarrow> cls_rule list list" where
  "tree_leaves DtNull = []"
| "tree_leaves (DtLeaf a rules capacity leaf_id) = [rules]"
| "tree_leaves (DtInternal a field type test left right) = tree_leaves left @ tree_leaves right"

definition tree_rules :: "dt_node \<Rightarrow> cls_rule multiset" where
  "tree_rules t = mset (concat (tree_leaves t))"

lemma tree_rules_simps [simp]:
  "tree_rules DtNull = {#}" "tree_rules (DtLeaf a rules c i) = mset rules"
  "tree_rules (DtInternal a f ty te l r) = tree_rules l + tree_rules r"
  by (simp_all add: tree_rules_def)

text \<open>A full tree: no internal node has a null child; and all its tests are exact.\<close>

fun dt_full :: "dt_node \<Rightarrow> bool" where
  "dt_full DtNull = True"
| "dt_full (DtLeaf a rules capacity leaf_id) = True"
| "dt_full (DtInternal a field type test left right) \<longleftrightarrow>
     left \<noteq> DtNull \<and> right \<noteq> DtNull \<and> type = DT_TEST_EXACT \<and> dt_full left \<and> dt_full right"

fun n_internals :: "dt_node \<Rightarrow> nat" where
  "n_internals (DtInternal a field type test left right) = Suc (n_internals left + n_internals right)"
| "n_internals t = 0"

fun dt_height :: "dt_node \<Rightarrow> nat" where
  "dt_height (DtInternal a field type test left right) = Suc (max (dt_height left) (dt_height right))"
| "dt_height t = 0"

lemma full_tree_counts: "dt_full t \<Longrightarrow> t \<noteq> DtNull \<Longrightarrow> length (tree_leaves t) = Suc (n_internals t)"
  by (induction t) auto

lemma calculate_stats:
  assumes "dt_full t" and "t \<noteq> DtNull"
  shows "dt_calculate_stats_recursive t (i, n, m) d =
    (i + int (n_internals t), n + int (length (tree_leaves t)), max m (d + int (dt_height t)))"
  using assms
proof (induction t arbitrary: i n m d)
  case (DtInternal a f ty te l r)
  then show ?case by (simp add: max.assoc)
qed (auto simp: max_def)

text \<open>A lookup in a full tree ends in one of its leaves.\<close>

lemma traverse_full:
  assumes "dt_full t" and "t \<noteq> DtNull"
  shows "\<exists>a rules c i. dt_traverse junk flow d t = Some (DtLeaf a rules c i) \<and> rules \<in> set (tree_leaves t)"
  using assms
proof (induction t arbitrary: d)
  case (DtInternal a f ty te l r)
  have "dt_test_match ty te (mf_get_value (junk d) f flow) = Some (mf_get_value (junk d) f flow = te_word0 te)"
    using DtInternal.prems by (simp add: dt_test_match_def)
  then show ?case
    using DtInternal.IH(1)[of "Suc d"] DtInternal.IH(2)[of "Suc d"] DtInternal.prems
    by (cases "mf_get_value (junk d) f flow = te_word0 te") auto
qed auto

subsection \<open>Copying the leftmost path\<close>

text \<open>The nodes from the root to the leftmost leaf.\<close>

fun left_spine :: "dt_node \<Rightarrow> dt_node list" where
  "left_spine DtNull = []"
| "left_spine (DtLeaf a rules capacity leaf_id) = [DtLeaf a rules capacity leaf_id]"
| "left_spine (DtInternal a field type test left right) = DtInternal a field type test left right # left_spine left"

fun left_leaf :: "dt_node \<Rightarrow> dt_node" where
  "left_leaf (DtInternal a field type test left right) = left_leaf left"
| "left_leaf t = t"

text \<open>The specification: replace the leftmost leaf; the ancestors are new nodes, the other subtrees are shared.\<close>

fun copy_left :: "dt_node \<Rightarrow> dt_node \<Rightarrow> addr \<Rightarrow> dt_node \<times> addr" where
  "copy_left (DtInternal a field type test left right) leaf next =
     (case copy_left left leaf next of (left', next') \<Rightarrow> (DtInternal next' field type test left' right, Suc next'))"
| "copy_left t leaf next = (leaf, next)"

lemma left_leaf_cases:
  assumes "dt_full t" and "t \<noteq> DtNull"
  obtains a rules c i where "left_leaf t = DtLeaf a rules c i"
proof -
  have "\<exists>a rules c i. left_leaf t = DtLeaf a rules c i" using assms by (induction t) auto
  then show ?thesis using that by blast
qed

lemma left_spine_last:
  assumes "dt_full t" and "t \<noteq> DtNull"
  shows "left_spine t \<noteq> []" and "last (left_spine t) = left_leaf t"
  using assms by (induction t) auto

lemma dt_go_left_spine:
  assumes "dt_full t" and "t \<noteq> DtNull" and "length (pa_nodes path) + length (left_spine t) \<le> Suc DT_PATH_MAX"
  shows "dt_go_left path t = (\<lparr>pa_nodes = pa_nodes path @ tl (left_spine t),
      pa_directions = pa_directions path @ replicate (length (left_spine t) - 1) False\<rparr>, left_leaf t)"
  using assms
proof (induction t arbitrary: path)
  case (DtInternal a f ty te l r)
  let ?p = "\<lparr>pa_nodes = pa_nodes path @ [l], pa_directions = pa_directions path @ [False]\<rparr>"
  have l: "dt_full l" "l \<noteq> DtNull" using DtInternal.prems by auto
  then obtain x xs where sp: "left_spine l = x # xs" using left_spine_last(1) by (cases "left_spine l") auto
  have x: "x = l" using sp l by (cases l) auto
  have "snd (dt_path_record path l False) = ?p"
    using DtInternal.prems(3) sp by (simp add: dt_path_record_def)
  moreover have "dt_go_left ?p l = (\<lparr>pa_nodes = pa_nodes ?p @ tl (left_spine l),
      pa_directions = pa_directions ?p @ replicate (length (left_spine l) - 1) False\<rparr>, left_leaf l)"
    using DtInternal.IH(1)[OF l, of ?p] DtInternal.prems(3) sp by simp
  ultimately show ?case using l sp x by (simp flip: replicate_append_same)
qed auto

lemma rebuild_loop_spine:
  assumes "dt_full t" and "t \<noteq> DtNull" and "pa_nodes path = pre @ left_spine t"
    and "pa_directions path = replicate (length (pa_nodes path)) False"
  shows "dt_path_rebuild_loop path (length pre + (length (left_spine t) - 1)) leaf next =
    dt_path_rebuild_loop path (length pre) (fst (copy_left t leaf next)) (snd (copy_left t leaf next))"
  using assms
proof (induction t arbitrary: pre)
  case (DtInternal a f ty te l r)
  let ?t = "DtInternal a f ty te l r"
  have l: "dt_full l" "l \<noteq> DtNull" using DtInternal.prems by auto
  have ne: "0 < length (left_spine l)" using left_spine_last(1)[OF l] by simp
  have step: "dt_path_rebuild_loop path (length (pre @ [?t]) + (length (left_spine l) - 1)) leaf next =
      dt_path_rebuild_loop path (length (pre @ [?t])) (fst (copy_left l leaf next)) (snd (copy_left l leaf next))"
    using DtInternal.IH(1)[OF l, of "pre @ [?t]"] DtInternal.prems by simp
  have len: "length pre + (length (left_spine ?t) - 1) = length (pre @ [?t]) + (length (left_spine l) - 1)"
    using ne by simp
  have "pa_nodes path ! length pre = ?t" "\<not> pa_directions path ! Suc (length pre)"
    using DtInternal.prems(3,4) ne by (simp_all add: nth_append)
  then show ?case unfolding len step by (simp add: case_prod_unfold)
qed auto

lemma rebuild_cow_spine:
  assumes "dt_full t" and "t \<noteq> DtNull"
    and "path = \<lparr>pa_nodes = left_spine t, pa_directions = replicate (length (left_spine t)) False\<rparr>"
  shows "dt_path_rebuild_cow path leaf next = Some (copy_left t leaf next)"
  using rebuild_loop_spine[of t path "[]" leaf "next"] left_spine_last(1)[OF assms(1,2)] assms
  by (simp add: dt_path_rebuild_cow_def)

lemma record_then_go_left:
  assumes "dt_full t" and "t \<noteq> DtNull" and "length (left_spine t) \<le> DT_PATH_MAX"
  shows "dt_go_left (snd (dt_path_record dt_path_init t False)) t =
    (\<lparr>pa_nodes = left_spine t, pa_directions = replicate (length (left_spine t)) False\<rparr>, left_leaf t)"
proof -
  let ?p = "\<lparr>pa_nodes = [t], pa_directions = [False]\<rparr>"
  have p: "snd (dt_path_record dt_path_init t False) = ?p"
    by (simp add: dt_path_record_def dt_path_init_def DT_PATH_MAX_def)
  obtain x xs where sp: "left_spine t = x # xs" using left_spine_last(1)[OF assms(1,2)] by (cases "left_spine t") auto
  have "x = t" using sp assms(2) by (cases t) auto
  then show ?thesis using dt_go_left_spine[OF assms(1,2), of ?p] assms(3) sp p by simp
qed

lemma copy_left_leaves:
  assumes "dt_full t" and "t \<noteq> DtNull" and "leaf = DtLeaf a rules c i"
  shows "tree_leaves (fst (copy_left t leaf next)) = rules # tl (tree_leaves t)"
    and "dt_full (fst (copy_left t leaf next))" and "fst (copy_left t leaf next) \<noteq> DtNull"
    and "length (left_spine (fst (copy_left t leaf next))) = length (left_spine t)"
    and "left_leaf (fst (copy_left t leaf next)) = leaf"
    and "n_internals (fst (copy_left t leaf next)) = n_internals t"
    and "dt_height (fst (copy_left t leaf next)) = dt_height t"
proof -
  have ne: "tree_leaves t \<noteq> []" if "dt_full t" "t \<noteq> DtNull" for t
    using full_tree_counts[OF that] by auto
  show "tree_leaves (fst (copy_left t leaf next)) = rules # tl (tree_leaves t)"
    using assms by (induction t) (auto simp: case_prod_unfold ne)
  show nn: "fst (copy_left t leaf next) \<noteq> DtNull" for t
    using assms(3) by (cases t) (auto simp: case_prod_unfold)
  show "dt_full (fst (copy_left t leaf next))"
    using assms by (induction t) (auto simp: case_prod_unfold nn[unfolded assms(3)])
  show "length (left_spine (fst (copy_left t leaf next))) = length (left_spine t)"
    using assms by (induction t) (auto simp: case_prod_unfold)
  show "left_leaf (fst (copy_left t leaf next)) = leaf"
    using assms(3) by (induction t) (auto simp: case_prod_unfold)
  show "n_internals (fst (copy_left t leaf next)) = n_internals t"
    and "dt_height (fst (copy_left t leaf next)) = dt_height t"
    using assms(3) by (induction t) (auto simp: case_prod_unfold)
qed

definition left_rules :: "dt_node \<Rightarrow> cls_rule list" where
  "left_rules t = (case left_leaf t of DtLeaf a rules c i \<Rightarrow> rules | _ \<Rightarrow> [])"

lemma left_rules_hd: "dt_full t \<Longrightarrow> t \<noteq> DtNull \<Longrightarrow> tree_leaves t = left_rules t # tl (tree_leaves t)"
proof (induction t)
  case (DtInternal a f ty te l r)
  then have l: "tree_leaves l = left_rules l # tl (tree_leaves l)" by simp
  have "left_rules (DtInternal a f ty te l r) = left_rules l" by (simp add: left_rules_def)
  then show ?case using l by (metis append_Cons list.sel(3) tree_leaves.simps(3))
qed (auto simp: left_rules_def)

subsection \<open>Insertion and removal\<close>

text \<open>The new leaf of an insertion, and the state after it.\<close>

definition dt_replace_left :: "decision_tree \<Rightarrow> dt_node \<Rightarrow> int \<Rightarrow> decision_tree" where
  "dt_replace_left dt leaf delta = dt\<lparr>
     dt_root := fst (copy_left (dt_root dt) leaf (Suc (dt_next dt))),
     dt_next := snd (copy_left (dt_root dt) leaf (Suc (dt_next dt))),
     dt_n_rules := dt_n_rules dt + delta,
     dt_postponed := dt_postponed dt @ [dt_root dt]\<rparr>"

text \<open>A tree that the copying operations handle: full, and at most 64 nodes on the leftmost path.\<close>

definition dt_cow_ok :: "decision_tree \<Rightarrow> bool" where
  "dt_cow_ok dt \<longleftrightarrow> dt_full (dt_root dt) \<and> dt_root dt \<noteq> DtNull \<and> length (left_spine (dt_root dt)) \<le> DT_PATH_MAX"

lemma insert_rule_cow:
  assumes "dt_cow_ok dt" and "left_leaf (dt_root dt) = DtLeaf a rules c i" and "rules \<noteq> []"
  shows "dt_insert_rule slot dt rule =
    Some (True, dt_replace_left dt (DtLeaf (dt_next dt) (put_rule cr_priority rule rules) (2 * length rules) i) 1)"
proof -
  have ok: "dt_full (dt_root dt)" "dt_root dt \<noteq> DtNull" "length (left_spine (dt_root dt)) \<le> DT_PATH_MAX"
    using assms(1) by (auto simp: dt_cow_ok_def)
  have "length rules < length rules * 2" using assms(3) by simp
  then show ?thesis
    using record_then_go_left[OF ok] rebuild_cow_spine[OF ok(1,2) refl] assms(2,3) ok(2)
    by (simp add: dt_insert_rule_def dt_leaf_store_def leaf_insert_put_rule dt_publish_def dt_replace_left_def
        case_prod_unfold mult.commute Let_def)
qed

lemma remove_rule_cow:
  assumes "dt_cow_ok dt" and "left_leaf (dt_root dt) = DtLeaf a rules c i"
  shows "dt_remove_rule dt rule =
    (if \<exists>r \<in> set rules. cr_addr r = cr_addr rule
     then Some (True, dt_replace_left dt (DtLeaf (dt_next dt) (drop_rule (cr_addr rule) rules) (length rules) i) (-1))
     else Some (False, dt))"
proof -
  have ok: "dt_full (dt_root dt)" "dt_root dt \<noteq> DtNull" "length (left_spine (dt_root dt)) \<le> DT_PATH_MAX"
    using assms(1) by (auto simp: dt_cow_ok_def)
  show ?thesis
  proof (cases "rule_index (cr_addr rule) rules 0")
    case None
    then show ?thesis using rule_index_None[of "cr_addr rule" rules] record_then_go_left[OF ok] assms(2) ok(2)
      by (auto simp: dt_remove_rule_def)
  next
    case (Some k)
    then have "\<exists>r \<in> set rules. cr_addr r = cr_addr rule" using rule_index_Some[OF Some] nth_mem by blast
    then show ?thesis
      using Some record_then_go_left[OF ok] rebuild_cow_spine[OF ok(1,2) refl] leaf_remove_drop_rule[OF Some] assms(2) ok(2)
      by (auto simp: dt_remove_rule_def dt_publish_def dt_replace_left_def case_prod_unfold Let_def)
  qed
qed

lemma replace_left_props:
  assumes "dt_cow_ok dt" and "leaf = DtLeaf a rules c i"
  shows "dt_cow_ok (dt_replace_left dt leaf d)"
    and "tree_leaves (dt_root (dt_replace_left dt leaf d)) = rules # tl (tree_leaves (dt_root dt))"
    and "left_leaf (dt_root (dt_replace_left dt leaf d)) = leaf"
  using assms copy_left_leaves[of "dt_root dt" leaf a rules c i "Suc (dt_next dt)"]
  by (auto simp: dt_cow_ok_def dt_replace_left_def)

subsection \<open>Building\<close>

lemma choose_split_exact: "dt_choose_split junk rules k fds = Some (field, type, v) \<Longrightarrow> type = DT_TEST_EXACT"
  by (induction fds arbitrary: k)
    (auto simp: dt_find_split_value_array_def Let_def split: option.splits if_splits)

lemma dt_build_leaf_eq: "dt_build_leaf rules nx = (DtLeaf nx rules (length rules) 0, Suc nx)"
  by (simp add: dt_build_leaf_def dt_node_create_leaf_def)

lemma sorted_wrt_subseq: "subseq xs ys \<Longrightarrow> sorted_wrt P ys \<Longrightarrow> sorted_wrt P xs"
proof (induction rule: list_emb.induct)
  case (list_emb_Cons2 x y xs ys)
  then have "set xs \<subseteq> set ys" using list_emb_set[of "(=)" xs ys] by auto
  then show ?case using list_emb_Cons2 by auto
qed auto

lemma partition_subseq:
  "subseq (fst (dt_partition junk field v rules)) rules" "subseq (snd (dt_partition junk field v rules)) rules"
proof -
  have "subseq (map snd (filter P (enumerate 0 rules))) (map snd (enumerate 0 rules))" for P :: "nat \<times> cls_rule \<Rightarrow> bool"
    by (intro subseq_map subseq_filter_left)
  then show "subseq (fst (dt_partition junk field v rules)) rules" "subseq (snd (dt_partition junk field v rules)) rules"
    by (simp_all add: dt_partition_def)
qed

text \<open>The ways the recursion builds a tree.\<close>

lemma build_tree_induct:
  assumes null: "P [] DtNull"
    and leaf: "\<And>path rules nx. rules \<noteq> [] \<Longrightarrow>
      length rules \<le> m \<or> dt_choose_split (junk path) rules 0 build_candidate_fields = None \<or>
      (\<exists>f ty v. dt_choose_split (junk path) rules 0 build_candidate_fields = Some (f, ty, v) \<and>
        (fst (dt_partition (junk path 9) f v rules) = [] \<or> snd (dt_partition (junk path 9) f v rules) = [])) \<Longrightarrow>
      P rules (DtLeaf nx rules (length rules) 0)"
    and split: "\<And>path rules nx f v l r. m < length rules \<Longrightarrow>
      dt_choose_split (junk path) rules 0 build_candidate_fields = Some (f, DT_TEST_EXACT, v) \<Longrightarrow>
      fst (dt_partition (junk path 9) f v rules) \<noteq> [] \<Longrightarrow> snd (dt_partition (junk path 9) f v rules) \<noteq> [] \<Longrightarrow>
      P (fst (dt_partition (junk path 9) f v rules)) l \<Longrightarrow> P (snd (dt_partition (junk path 9) f v rules)) r \<Longrightarrow>
      P rules (DtInternal nx f DT_TEST_EXACT \<lparr>te_word0 = v, te_word1 = 0\<rparr> l r)"
  shows "P rules (fst (dt_build_tree_from_array junk path rules m d nx))"
proof (induction "length rules" arbitrary: path rules d nx rule: less_induct)
  case less
  note eq = dt_build_tree_from_array.simps[of junk path rules m d nx]
  consider "rules = []" | "rules \<noteq> []" "length rules \<le> m \<or> dt_choose_split (junk path) rules 0 build_candidate_fields = None"
    | f ty v where "rules \<noteq> []" "m < length rules" "dt_choose_split (junk path) rules 0 build_candidate_fields = Some (f, ty, v)"
    by (cases "dt_choose_split (junk path) rules 0 build_candidate_fields") force+
  then show ?case
  proof cases
    case 1
    then show ?thesis using null eq by simp
  next
    case 2
    then show ?thesis using leaf[of rules path nx] eq by (auto simp: dt_build_leaf_eq)
  next
    case 3
    define parts where "parts = dt_partition (junk path 9) f v rules"
    show ?thesis
    proof (cases "fst parts = [] \<or> snd parts = []")
      case True
      then show ?thesis using 3 leaf[of rules path nx] eq by (auto simp: parts_def dt_build_leaf_eq Let_def)
    next
      case False
      define L where "L = dt_build_tree_from_array junk (False # path) (fst parts) m (d + 1) (Suc nx)"
      define R where "R = dt_build_tree_from_array junk (True # path) (snd parts) m (d + 1) (snd L)"
      have "fst (dt_build_tree_from_array junk path rules m d nx) = DtInternal nx f ty \<lparr>te_word0 = v, te_word1 = 0\<rparr> (fst L) (fst R)"
        using 3 False eq by (simp add: parts_def[symmetric] dt_node_create_internal_def L_def R_def case_prod_unfold Let_def)
      moreover have "P (fst parts) (fst L)" "P (snd parts) (fst R)"
        unfolding L_def R_def using less dt_partition_less[of "junk path 9" f v rules] False by (simp_all add: parts_def)
      ultimately show ?thesis
        using split[of rules path f v "fst L" "fst R" nx] 3 False choose_split_exact[OF 3(3)] by (simp add: parts_def)
    qed
  qed
qed

text \<open>
  The rules of the array are distributed over the leaves, in the order of the array, and an internal node
  has the rules with a smaller value of its field on the left and the others on the right; the value of
  a field of less than four bytes is read with arbitrary stale bytes.
\<close>

fun rules_split :: "dt_node \<Rightarrow> bool" where
  "rules_split (DtInternal a f type test left right) \<longleftrightarrow>
     (\<forall>leaf \<in> set (tree_leaves left). \<forall>r \<in> set leaf. \<exists>stale. mf_get_value stale f (mt_flow (cr_match r)) < te_word0 test) \<and>
     (\<forall>leaf \<in> set (tree_leaves right). \<forall>r \<in> set leaf. \<exists>stale. te_word0 test \<le> mf_get_value stale f (mt_flow (cr_match r))) \<and>
     rules_split left \<and> rules_split right"
| "rules_split t = True"

definition build_ok :: "cls_rule list \<Rightarrow> dt_node \<Rightarrow> bool" where
  "build_ok rules t \<longleftrightarrow> tree_rules t = mset rules \<and> dt_full t \<and> (t = DtNull \<longleftrightarrow> rules = []) \<and>
     (\<forall>leaf \<in> set (tree_leaves t). leaf \<noteq> [] \<and> subseq leaf rules) \<and> rules_split t"

lemma build_ok_sorted: "build_ok rules t \<Longrightarrow> by_priority cr_priority rules \<Longrightarrow> leaf \<in> set (tree_leaves t) \<Longrightarrow> by_priority cr_priority leaf"
  using sorted_wrt_subseq by (auto simp: build_ok_def)

lemma partition_sides:
  "r \<in> set (fst (dt_partition junk f v rules)) \<Longrightarrow> \<exists>stale. mf_get_value stale f (mt_flow (cr_match r)) < v"
  "r \<in> set (snd (dt_partition junk f v rules)) \<Longrightarrow> \<exists>stale. v \<le> mf_get_value stale f (mt_flow (cr_match r))"
  by (auto simp: dt_partition_def goes_right_def mf_get_def not_le)

lemma leaf_rules_in: "leaf \<in> set (tree_leaves t) \<Longrightarrow> tree_rules t = mset rules \<Longrightarrow> r \<in> set leaf \<Longrightarrow> r \<in> set rules"
proof -
  assume a: "leaf \<in> set (tree_leaves t)" "tree_rules t = mset rules" "r \<in> set leaf"
  have "set (concat (tree_leaves t)) = set rules" using a(2) unfolding tree_rules_def by (rule mset_eq_setD)
  then show ?thesis using a by auto
qed

lemma build_tree_ok: "build_ok rules (fst (dt_build_tree_from_array junk path rules m d nx))"
proof (rule build_tree_induct[of build_ok])
  show "build_ok [] DtNull" by (simp add: build_ok_def)
  show "build_ok rules (DtLeaf nx rules (length rules) 0)" if "rules \<noteq> []" for rules nx
    using that by (simp add: build_ok_def)
  fix path f v l r and nx and rules :: "cls_rule list"
  let ?p = "dt_partition (junk path 9) f v rules"
  assume ne: "m < length rules" "fst ?p \<noteq> []" "snd ?p \<noteq> []" and ok: "build_ok (fst ?p) l" "build_ok (snd ?p) r"
  have "subseq leaf (fst ?p) \<or> subseq leaf (snd ?p)" if "leaf \<in> set (tree_leaves l) \<union> set (tree_leaves r)" for leaf
    using that ok by (auto simp: build_ok_def)
  then have "subseq leaf rules" if "leaf \<in> set (tree_leaves l) \<union> set (tree_leaves r)" for leaf
    using that partition_subseq subseq_order.order_trans by metis
  moreover have "rules_split (DtInternal nx f DT_TEST_EXACT \<lparr>te_word0 = v, te_word1 = 0\<rparr> l r)"
    using ok partition_sides[of _ "junk path 9" f v rules] leaf_rules_in[of _ l "fst ?p"] leaf_rules_in[of _ r "snd ?p"]
    by (simp add: build_ok_def)
  moreover have "mset (fst ?p) + mset (snd ?p) = mset rules" by (rule dt_partition_mset)
  ultimately show "build_ok rules (DtInternal nx f DT_TEST_EXACT \<lparr>te_word0 = v, te_word1 = 0\<rparr> l r)"
    using ok ne by (auto simp: build_ok_def)
qed






subsection \<open>Lookup in a leaf\<close>

text \<open>Priorities that are not negative, as the classifier uses them, compare the same as unsigned numbers.\<close>

definition priority_ok :: "cls_rule \<Rightarrow> bool" where
  "priority_ok r \<longleftrightarrow> 0 \<le> cr_priority r \<and> cr_priority r < 2 ^ 31"

lemma priority_less:
  assumes "priority_ok r" and "priority_ok s"
  shows "(word_of_int (cr_priority r) :: uint32_t) < word_of_int (cr_priority s) \<longleftrightarrow> cr_priority r < cr_priority s"
  using assms by (simp add: priority_ok_def word_less_def take_bit_int_eq_self unsigned_of_int)

definition best_ok :: "uint64_t \<Rightarrow> cls_rule list \<Rightarrow> cls_rule option \<times> uint32_t \<Rightarrow> bool" where
  "best_ok version rules best = (case best of
     (None, p) \<Rightarrow> \<forall>r \<in> set rules. \<not> dt_rule_visible version r
   | (Some b, p) \<Rightarrow> p = word_of_int (cr_priority b) \<and> b \<in> set rules \<and> dt_rule_visible version b \<and>
       (\<forall>r \<in> set rules. dt_rule_visible version r \<longrightarrow> cr_priority r \<le> cr_priority b) \<and>
       (by_priority cr_priority rules \<longrightarrow> Some b = List.find (dt_rule_visible version) rules))"

lemma find_append: "List.find P (xs @ ys) = (case List.find P xs of None \<Rightarrow> List.find P ys | Some x \<Rightarrow> Some x)"
  by (induction xs) auto

lemma consider_rule_ok:
  assumes ok: "best_ok version rules best" and prios: "\<forall>x \<in> set (rules @ [r]). priority_ok x"
  shows "best_ok version (rules @ [r]) (dt_consider_rule version r best)"
proof (cases "fst best")
  case None
  then obtain p where b: "best = (None, p)" by (cases best) auto
  then have none: "List.find (dt_rule_visible version) rules = None"
    using ok by (auto simp: best_ok_def find_None_iff)
  then show ?thesis using ok b by (auto simp: best_ok_def dt_consider_rule_def find_append)
next
  case (Some b)
  then have b: "best = (Some b, word_of_int (cr_priority b))" "b \<in> set rules" "dt_rule_visible version b"
    "\<forall>x \<in> set rules. dt_rule_visible version x \<longrightarrow> cr_priority x \<le> cr_priority b"
    "by_priority cr_priority rules \<Longrightarrow> Some b = List.find (dt_rule_visible version) rules"
    using ok by (cases best; auto simp: best_ok_def)+
  have lt: "(word_of_int (cr_priority b) :: uint32_t) < word_of_int (cr_priority r) \<longleftrightarrow> cr_priority b < cr_priority r"
    using priority_less prios b(2) by simp
  show ?thesis
  proof (cases "dt_rule_visible version r \<and> cr_priority b < cr_priority r")
    case True
    then have "\<not> by_priority cr_priority (rules @ [r])" using b(2) by (auto simp: sorted_wrt_append intro!: bexI[of _ b])
    then show ?thesis using True b lt by (auto simp: best_ok_def dt_consider_rule_def)
  next
    case False
    then show ?thesis using b lt by (auto simp: best_ok_def dt_consider_rule_def find_append sorted_wrt_append split: option.split)
  qed
qed

lemma leaf_best_fold:
  assumes "\<forall>r \<in> set rules. priority_ok r"
  shows "best_ok version rules (fold (dt_consider_rule version) rules (None, 0))"
  using assms
proof (induction rules rule: rev_induct)
  case (snoc r rules)
  then show ?case using consider_rule_ok[of version rules _ r] by simp
qed (simp add: best_ok_def)

lemma leaf_best:
  assumes "\<forall>r \<in> set rules. priority_ok r"
  shows "dt_leaf_best version rules = None \<Longrightarrow> \<forall>r \<in> set rules. \<not> dt_rule_visible version r"
    and "dt_leaf_best version rules = Some b \<Longrightarrow> b \<in> set rules \<and> dt_rule_visible version b \<and>
      (\<forall>r \<in> set rules. dt_rule_visible version r \<longrightarrow> cr_priority r \<le> cr_priority b)"
    and "by_priority cr_priority rules \<Longrightarrow> dt_leaf_best version rules = List.find (dt_rule_visible version) rules"
proof -
  obtain x p where x: "fold (dt_consider_rule version) rules (None, 0) = (x, p)" by fastforce
  have best: "dt_leaf_best version rules = x" by (simp add: dt_leaf_best_def x)
  note ok = leaf_best_fold[OF assms, of version, unfolded x best_ok_def]
  show "dt_leaf_best version rules = None \<Longrightarrow> \<forall>r \<in> set rules. \<not> dt_rule_visible version r"
    unfolding best using ok by simp
  show "dt_leaf_best version rules = Some b \<Longrightarrow> b \<in> set rules \<and> dt_rule_visible version b \<and>
      (\<forall>r \<in> set rules. dt_rule_visible version r \<longrightarrow> cr_priority r \<le> cr_priority b)"
    unfolding best using ok by simp
  show "dt_leaf_best version rules = List.find (dt_rule_visible version) rules" if "by_priority cr_priority rules"
  proof (cases x)
    case None
    then have "List.find (dt_rule_visible version) rules = None" using ok by (simp add: find_None_iff)
    then show ?thesis using best None by simp
  next
    case (Some b)
    then show ?thesis using best ok that by simp
  qed
qed

text \<open>
  The way of a flow through a tree of exact tests: right, \<open>True\<close>, exactly at the nodes whose value the flow
  has in the tested field.
\<close>

inductive follows :: "(nat \<Rightarrow> uint32_t) \<Rightarrow> flow \<Rightarrow> nat \<Rightarrow> dt_node \<Rightarrow> bool list \<Rightarrow> cls_rule list \<Rightarrow> bool" where
  follows_leaf: "follows junk flow d (DtLeaf a rules c i) [] rules"
| follows_right: "mf_get_value (junk d) f flow = te_word0 test \<Longrightarrow> follows junk flow (Suc d) r path rules \<Longrightarrow>
    follows junk flow d (DtInternal a f DT_TEST_EXACT test l r) (True # path) rules"
| follows_left: "mf_get_value (junk d) f flow \<noteq> te_word0 test \<Longrightarrow> follows junk flow (Suc d) l path rules \<Longrightarrow>
    follows junk flow d (DtInternal a f DT_TEST_EXACT test l r) (False # path) rules"

lemma traverse_follows:
  assumes "dt_full t" and "t \<noteq> DtNull"
  shows "\<exists>path a rules c i. dt_traverse junk flow d t = Some (DtLeaf a rules c i) \<and>
    follows junk flow d t path rules \<and> rules \<in> set (tree_leaves t)"
  using assms
proof (induction t arbitrary: d)
  case (DtLeaf a rules c i)
  then show ?case by (auto intro: follows_leaf)
next
  case (DtInternal a f ty te l r)
  have e: "dt_test_match ty te (mf_get_value (junk d) f flow) = Some (mf_get_value (junk d) f flow = te_word0 te)" "ty = DT_TEST_EXACT"
    using DtInternal.prems by (simp_all add: dt_test_match_def)
  show ?case
  proof (cases "mf_get_value (junk d) f flow = te_word0 te")
    case True
    obtain path b rules c i where "dt_traverse junk flow (Suc d) r = Some (DtLeaf b rules c i)"
      "follows junk flow (Suc d) r path rules" "rules \<in> set (tree_leaves r)" using DtInternal.IH(2)[of "Suc d"] DtInternal.prems by auto
    then show ?thesis using True e follows_right[of junk d f flow te r path rules a l] by auto
  next
    case False
    obtain path b rules c i where "dt_traverse junk flow (Suc d) l = Some (DtLeaf b rules c i)"
      "follows junk flow (Suc d) l path rules" "rules \<in> set (tree_leaves l)" using DtInternal.IH(1)[of "Suc d"] DtInternal.prems by auto
    then show ?thesis using False e follows_left[of junk d f flow te l path rules a r] by auto
  qed
qed simp

text \<open>A rule matches a flow if they agree on the bits of its mask; the fields are those of the model.\<close>

definition flow_matches :: "flow \<Rightarrow> cls_rule \<Rightarrow> bool" where
  "flow_matches flow r \<longleftrightarrow> (let v = mt_flow (cr_match r); m = mt_wc (cr_match r) in
     fl_in_port flow AND fl_in_port m = fl_in_port v AND fl_in_port m \<and>
     fl_dl_type flow AND fl_dl_type m = fl_dl_type v AND fl_dl_type m \<and>
     fl_nw_src flow AND fl_nw_src m = fl_nw_src v AND fl_nw_src m \<and>
     fl_nw_dst flow AND fl_nw_dst m = fl_nw_dst v AND fl_nw_dst m \<and>
     fl_nw_proto flow AND fl_nw_proto m = fl_nw_proto v AND fl_nw_proto m \<and>
     fl_tp_src flow AND fl_tp_src m = fl_tp_src v AND fl_tp_src m \<and>
     fl_tp_dst flow AND fl_tp_dst m = fl_tp_dst v AND fl_tp_dst m)"

text \<open>A visible rule of a leaf with the highest priority among the visible ones.\<close>

definition best_visible :: "uint64_t \<Rightarrow> cls_rule list \<Rightarrow> cls_rule \<Rightarrow> bool" where
  "best_visible version leaf b \<longleftrightarrow> dt_rule_visible version b \<and>
     list_all (\<lambda>r. dt_rule_visible version r \<longrightarrow> cr_priority r \<le> cr_priority b) leaf"

lemma find_best:
  assumes "by_priority cr_priority leaf" and "List.find (dt_rule_visible version) leaf = Some b"
  shows "hd (filter (best_visible version leaf) leaf) = b"
proof -
  obtain xs ys where l: "leaf = xs @ b # ys" "dt_rule_visible version b" "\<forall>x \<in> set xs. \<not> dt_rule_visible version x"
    using assms(2) unfolding find_Some_iff by (metis id_take_nth_drop in_set_conv_nth length_take min.absorb4 nth_take)
  have "best_visible version leaf b" using l assms(1) by (auto simp: best_visible_def list_all_iff sorted_wrt_append)
  moreover have "filter (best_visible version leaf) xs = []" using l(3) by (auto simp: filter_empty_conv best_visible_def)
  ultimately show ?thesis using l(1) by simp
qed

lemma leaf_best_visible:
  assumes "\<forall>r \<in> set leaf. priority_ok r"
  shows "list_all (\<lambda>r. \<not> dt_rule_visible version r) leaf \<longrightarrow> dt_leaf_best version leaf = None"
    and "list_ex (dt_rule_visible version) leaf \<longrightarrow> (\<exists>b. dt_leaf_best version leaf = Some b \<and>
      b \<in> set (filter (best_visible version leaf) leaf) \<and>
      (by_priority cr_priority leaf \<longrightarrow> b = hd (filter (best_visible version leaf) leaf)))"
proof -
  note best = leaf_best[OF assms, of version]
  show "list_all (\<lambda>r. \<not> dt_rule_visible version r) leaf \<longrightarrow> dt_leaf_best version leaf = None"
    using best(2) by (cases "dt_leaf_best version leaf") (auto simp: list_all_iff)
  show "list_ex (dt_rule_visible version) leaf \<longrightarrow> (\<exists>b. dt_leaf_best version leaf = Some b \<and>
      b \<in> set (filter (best_visible version leaf) leaf) \<and>
      (by_priority cr_priority leaf \<longrightarrow> b = hd (filter (best_visible version leaf) leaf)))"
  proof (cases "dt_leaf_best version leaf")
    case None
    then show ?thesis using best(1) by (auto simp: list_ex_iff)
  next
    case (Some b)
    then show ?thesis using best(2)[OF Some] best(3) find_best[of leaf version b] by (auto simp: best_visible_def list_all_iff)
  qed
qed

subsection \<open>The insertions as stores\<close>

text \<open>Insertion in place, on a single leaf, and insertion by copying, on the leftmost leaf of a tree.\<close>

definition simple_put :: "cls_rule \<Rightarrow> cls_rule \<Rightarrow> dt_node \<times> addr \<Rightarrow> (dt_node \<times> addr) option" where
  "simple_put slot rule s = map_option snd (dt_insert_rule_simple slot (snd s) (fst s) rule)"

fun single_leaf :: "dt_node \<Rightarrow> bool" where
  "single_leaf DtNull = True"
| "single_leaf (DtLeaf a rules capacity leaf_id) \<longleftrightarrow> length rules \<le> capacity"
| "single_leaf (DtInternal a field type test left right) = False"

interpretation simple_store: priority_store "simple_put slot" "\<lambda>s. left_rules (fst s)" cr_priority "\<lambda>s. single_leaf (fst s)"
  for slot
proof
  fix s :: "dt_node \<times> addr" and r assume "single_leaf (fst s)"
  then show "\<exists>s'. simple_put slot r s = Some s' \<and> single_leaf (fst s') \<and>
      left_rules (fst s') = put_rule cr_priority r (left_rules (fst s))"
  proof (cases "fst s")
    case (DtLeaf a rules c i)
    define c' where "c' = (if length rules \<ge> c then (if c = 0 then 16 else c * 2) else c)"
    have "length rules < c'" using \<open>single_leaf (fst s)\<close> DtLeaf by (auto simp: c'_def)
    moreover have "size (put_rule cr_priority r rules) = Suc (length rules)"
      using mset_put_rule[of cr_priority r rules] by (metis size_mset size_add_mset)
    ultimately show ?thesis using DtLeaf
      by (simp add: simple_put_def dt_insert_rule_simple_def dt_leaf_store_def leaf_insert_put_rule left_rules_def
          Let_def flip: c'_def)
  qed (simp_all add: simple_put_def dt_insert_rule_simple_def dt_first_leaf_def dt_node_create_leaf_def left_rules_def)
qed

definition cow_put :: "cls_rule \<Rightarrow> cls_rule \<Rightarrow> decision_tree \<Rightarrow> decision_tree option" where
  "cow_put slot rule dt = map_option snd (dt_insert_rule slot dt rule)"

definition cow_inv :: "decision_tree \<Rightarrow> bool" where
  "cow_inv dt \<longleftrightarrow> dt_root dt = DtNull \<or> dt_cow_ok dt \<and> left_rules (dt_root dt) \<noteq> []"

lemma insert_rule_inv:
  assumes "cow_inv dt"
  shows "\<exists>dt'. dt_insert_rule slot dt r = Some (True, dt') \<and> cow_inv dt' \<and>
    left_rules (dt_root dt') = put_rule cr_priority r (left_rules (dt_root dt)) \<and>
    tree_leaves (dt_root dt') = put_rule cr_priority r (left_rules (dt_root dt)) # tl (tree_leaves (dt_root dt)) \<and>
    dt_n_rules dt' = dt_n_rules dt + 1 \<and> dt_pending_rules dt' = dt_pending_rules dt \<and> dt_tree_built dt' = dt_tree_built dt"
proof (cases "dt_root dt = DtNull")
  case True
  then show ?thesis
    by (simp add: dt_insert_rule_def dt_first_leaf_def dt_node_create_leaf_def cow_inv_def dt_cow_ok_def left_rules_def
        DT_PATH_MAX_def)
next
  case False
  then have ok: "dt_cow_ok dt" and ne: "left_rules (dt_root dt) \<noteq> []" using assms by (auto simp: cow_inv_def)
  obtain a rules c i where leaf: "left_leaf (dt_root dt) = DtLeaf a rules c i"
    using left_leaf_cases[of "dt_root dt"] ok unfolding dt_cow_ok_def by metis
  then have rules: "left_rules (dt_root dt) = rules" by (simp add: left_rules_def)
  let ?l = "DtLeaf (dt_next dt) (put_rule cr_priority r rules) (2 * length rules) i"
  let ?dt = "dt_replace_left dt ?l 1"
  have new: "left_rules (dt_root ?dt) = put_rule cr_priority r rules"
    using replace_left_props(3)[OF ok refl] by (simp add: left_rules_def)
  have "put_rule cr_priority r rules \<noteq> []" by (cases rules) auto
  then have "cow_inv ?dt" using replace_left_props(1)[OF ok refl] new by (simp add: cow_inv_def)
  then show ?thesis
    using insert_rule_cow[OF ok leaf] ne rules new replace_left_props(2)[OF ok refl]
    by (simp add: dt_replace_left_def)
qed

interpretation cow_store: priority_store "cow_put slot" "\<lambda>dt. left_rules (dt_root dt)" cr_priority cow_inv
  for slot
proof
  fix dt r assume "cow_inv dt"
  then show "\<exists>dt'. cow_put slot r dt = Some dt' \<and> cow_inv dt' \<and>
      left_rules (dt_root dt') = put_rule cr_priority r (left_rules (dt_root dt))"
    using insert_rule_inv[of dt slot r] by (auto simp: cow_put_def)
qed

subsection \<open>Lazy building\<close>

definition lazy_inv :: "decision_tree \<Rightarrow> bool" where
  "lazy_inv dt \<longleftrightarrow> length (dt_pending_rules dt) \<le> dt_pending_capacity dt"

lemma add_rules_lazy:
  assumes "lazy_inv dt"
  shows "lazy_inv (fold (\<lambda>r dt. dt_add_rule_lazy dt r) rs dt) \<and>
    dt_pending_rules (fold (\<lambda>r dt. dt_add_rule_lazy dt r) rs dt) = dt_pending_rules dt @ rs \<and>
    (rs \<noteq> [] \<longrightarrow> \<not> dt_tree_built (fold (\<lambda>r dt. dt_add_rule_lazy dt r) rs dt))"
  using assms
proof (induction rs arbitrary: dt)
  case (Cons r rs)
  have step: "lazy_inv (dt_add_rule_lazy dt r)" "dt_pending_rules (dt_add_rule_lazy dt r) = dt_pending_rules dt @ [r]"
    "\<not> dt_tree_built (dt_add_rule_lazy dt r)"
    using Cons.prems by (auto simp: dt_add_rule_lazy_def lazy_inv_def Suc_le_eq)
  show ?case using Cons.IH[OF step(1)] step(2,3) by (cases rs) auto
qed simp

lemma ensure_built:
  assumes "\<not> dt_tree_built dt" and "dt_pending_rules dt \<noteq> []"
  shows "let dt' = dt_ensure_tree_built junk dt in
    build_ok (dt_pending_rules dt) (dt_root dt') \<and> dt_tree_built dt' \<and> dt_pending_rules dt' = dt_pending_rules dt \<and>
    dt_n_rules dt' = int (length (dt_pending_rules dt)) \<and>
    dt_n_internal_nodes dt' = int (n_internals (dt_root dt')) \<and>
    dt_n_leaf_nodes dt' = int (length (tree_leaves (dt_root dt'))) \<and>
    dt_max_depth dt' = int (dt_height (dt_root dt'))"
proof -
  obtain t nx where t: "dt_build_tree_from_array junk [] (dt_pending_rules dt) 5 0 (dt_next dt) = (t, nx)" by fastforce
  have ok: "build_ok (dt_pending_rules dt) t" using build_tree_ok[of "dt_pending_rules dt" junk "[]" 5 0 "dt_next dt"] t by simp
  then have "t \<noteq> DtNull" "dt_full t" using assms(2) by (auto simp: build_ok_def)
  then show ?thesis
    using assms ok t calculate_stats[of t 0 0 0 0] by (simp add: dt_ensure_tree_built_def dt_update_stats_def Let_def)
qed

lemma ensure_built_twice: "dt_ensure_tree_built junk' (dt_ensure_tree_built junk dt) = dt_ensure_tree_built junk dt"
proof -
  have "dt_tree_built (dt_ensure_tree_built junk dt)"
    using ensure_built[of dt junk] by (cases "dt_tree_built dt"; cases "dt_pending_rules dt = []")
      (auto simp: dt_ensure_tree_built_def Let_def)
  then show ?thesis by (simp add: dt_ensure_tree_built_def)
qed

subsection \<open>Further facts on insertion and removal\<close>

lemma insert_all_frame:
  assumes "cow_inv dt" and "run_ops (cow_put slot) rs dt = Some dt'"
  shows "dt_n_rules dt' = dt_n_rules dt + int (length rs) \<and> tl (tree_leaves (dt_root dt')) = tl (tree_leaves (dt_root dt)) \<and>
    dt_pending_rules dt' = dt_pending_rules dt \<and> dt_tree_built dt' = dt_tree_built dt \<and> cow_inv dt'"
  using assms
proof (induction rs arbitrary: dt)
  case (Cons r rs)
  obtain dt1 where dt1: "dt_insert_rule slot dt r = Some (True, dt1)" "cow_inv dt1"
    "tree_leaves (dt_root dt1) = put_rule cr_priority r (left_rules (dt_root dt)) # tl (tree_leaves (dt_root dt))"
    "dt_n_rules dt1 = dt_n_rules dt + 1" "dt_pending_rules dt1 = dt_pending_rules dt" "dt_tree_built dt1 = dt_tree_built dt"
    using insert_rule_inv[OF Cons.prems(1), of slot r] by blast
  then have "cow_put slot r dt = Some dt1" by (simp add: cow_put_def)
  then have "run_ops (cow_put slot) rs dt1 = Some dt'" using Cons.prems(2) by simp
  from Cons.IH[OF dt1(2) this] show ?case using dt1(3-6) by simp
qed simp

lemma drop_put_rule:
  assumes "\<forall>x \<in> set xs. cr_addr x \<noteq> cr_addr r"
  shows "drop_rule (cr_addr r) (put_rule cr_priority r xs) = xs"
  using assms by (induction xs) auto

text \<open>The addresses of the nodes that are not on the leftmost path, which an insertion shares.\<close>

fun off_spine :: "dt_node \<Rightarrow> addr list" where
  "off_spine (DtInternal a field type test left right) = off_spine left @ dt_node_destroy right"
| "off_spine t = []"

lemma off_spine_subset: "set (off_spine t) \<subseteq> set (dt_node_destroy t)"
  by (induction t) auto

lemma off_spine_distinct: "distinct (dt_node_destroy t) \<Longrightarrow> distinct (off_spine t)"
  using off_spine_subset by (induction t) fastforce+

lemma copy_left_next: "snd (copy_left t leaf nx) \<ge> nx"
  by (induction t arbitrary: nx) (auto simp: case_prod_unfold le_SucI)

lemma copy_left_addrs:
  "mset (dt_node_destroy (fst (copy_left t leaf nx))) =
     mset (off_spine t) + mset (dt_node_destroy leaf) + mset [nx..<snd (copy_left t leaf nx)]"
proof (induction t)
  case (DtInternal a f ty te l r)
  have "[nx..<Suc (snd (copy_left l leaf nx))] = [nx..<snd (copy_left l leaf nx)] @ [snd (copy_left l leaf nx)]"
    using copy_left_next by simp
  then show ?case using DtInternal.IH(1) by (simp add: case_prod_unfold del: upt_Suc)
qed simp_all

definition dt_addrs_ok :: "decision_tree \<Rightarrow> bool" where
  "dt_addrs_ok dt \<longleftrightarrow> distinct (dt_node_destroy (dt_root dt)) \<and> list_all (\<lambda>a. a < dt_next dt) (dt_node_destroy (dt_root dt))"

lemma replace_left_addrs:
  assumes "dt_addrs_ok dt" and "leaf = DtLeaf (dt_next dt) rules c i"
  shows "dt_addrs_ok (dt_replace_left dt leaf d)"
    and "set (dt_node_destroy (dt_root (dt_replace_left dt leaf d))) \<inter> set (dt_node_destroy (dt_root dt)) =
      set (off_spine (dt_root dt))"
proof -
  let ?t = "dt_root dt" and ?n = "Suc (dt_next dt)"
  let ?c = "copy_left ?t leaf ?n"
  have old: "x < dt_next dt" if "x \<in> set (dt_node_destroy ?t)" for x
    using assms(1) that by (auto simp: dt_addrs_ok_def list_all_iff)
  have m: "mset (dt_node_destroy (fst ?c)) = mset (off_spine ?t @ [dt_next dt] @ [?n..<snd ?c])"
    using copy_left_addrs[of ?t leaf ?n] assms(2) by simp
  have off: "distinct (off_spine ?t)" "\<And>x. x \<in> set (off_spine ?t) \<Longrightarrow> x < dt_next dt"
    using off_spine_distinct assms(1) old off_spine_subset by (auto simp: dt_addrs_ok_def)
  have "distinct (off_spine ?t @ [dt_next dt] @ [?n..<snd ?c])" using off(1) off(2) by fastforce
  then have d: "distinct (dt_node_destroy (fst ?c))" using m mset_eq_imp_distinct_iff by blast
  have s: "set (dt_node_destroy (fst ?c)) = set (off_spine ?t) \<union> {dt_next dt} \<union> {?n..<snd ?c}"
    using mset_eq_setD[OF m] by auto
  have "snd ?c \<ge> ?n" by (rule copy_left_next)
  then show "dt_addrs_ok (dt_replace_left dt leaf d)"
    using d s off(2) by (fastforce simp: dt_addrs_ok_def dt_replace_left_def list_all_iff)
  show "set (dt_node_destroy (dt_root (dt_replace_left dt leaf d))) \<inter> set (dt_node_destroy ?t) = set (off_spine ?t)"
    using s old off_spine_subset[of ?t] by (fastforce simp: dt_replace_left_def)
qed

lemma lazy_built:
  assumes "rs \<noteq> []"
  shows "let dt = fold (\<lambda>r dt. dt_add_rule_lazy dt r) rs (dt_init nx) in
    lazy_inv dt \<and> \<not> dt_tree_built dt \<and> dt_pending_rules dt = rs"
proof -
  have "lazy_inv (dt_init nx)" "dt_pending_rules (dt_init nx) = []" by (simp_all add: lazy_inv_def dt_init_def)
  then show ?thesis using add_rules_lazy[of "dt_init nx" rs] assms by (simp add: Let_def)
qed

subsection \<open>Sample rules\<close>

definition sample_rule :: "nat \<Rightarrow> int \<Rightarrow> uint32_t \<Rightarrow> cls_rule" where
  "sample_rule a p src = \<lparr>cr_addr = a, cr_priority = p, cr_cls_match = None,
     cr_match = \<lparr>mt_flow = zero_flow\<lparr>fl_nw_src := src\<rparr>, mt_wc = zero_flow\<lparr>fl_nw_src := 0xffffffff\<rparr>\<rparr>\<rparr>"

definition sample_tree :: decision_tree where
  "sample_tree = (dt_init 10)\<lparr>dt_tree_built := True, dt_n_rules := 3,
     dt_root := DtInternal 3 MFF_IPV4_SRC DT_TEST_EXACT \<lparr>te_word0 = 4, te_word1 = 0\<rparr>
       (DtLeaf 1 [sample_rule 101 9 1, sample_rule 102 5 2] 2 0) (DtLeaf 2 [sample_rule 103 7 4] 1 0)\<rparr>"

lemma sample_tree_ok: "dt_cow_ok sample_tree" "left_rules (dt_root sample_tree) = [sample_rule 101 9 1, sample_rule 102 5 2]"
  by (simp_all add: dt_cow_ok_def sample_tree_def left_rules_def DT_PATH_MAX_def)

subsection \<open>Properties\<close>

text \<open>
  C21: Rules inserted one after the other with \<open>dt_insert_rule\<close> into an empty tree end up in one leaf,
  ordered by descending priority and by age among equal priorities; all calls succeed, and \<open>n_rules\<close>
  counts them.
\<close>
theorem dt_inserted_rules_sorted:
  assumes "rs \<noteq> []"
  shows "\<exists>dt. run_ops (cow_put slot) rs (dt_init nx) = Some dt \<and>
    tree_leaves (dt_root dt) = [sort_key (\<lambda>r. - cr_priority r) rs] \<and> dt_n_rules dt = int (length rs)"
proof -
  let ?s = "sort_key (\<lambda>r. - cr_priority r) rs"
  have init: "cow_inv (dt_init nx)" "left_rules (dt_root (dt_init nx)) = []" "tree_leaves (dt_root (dt_init nx)) = []"
    by (simp_all add: cow_inv_def dt_init_def left_rules_def)
  obtain dt where dt: "run_ops (cow_put slot) rs (dt_init nx) = Some dt" "cow_inv dt" "left_rules (dt_root dt) = ?s"
    using cow_store.put_all_sorts[OF init(1,2)] by blast
  note fr = insert_all_frame[OF init(1) dt(1)]
  have ne: "?s \<noteq> []" using assms by (metis set_empty set_sort)
  then have root: "dt_full (dt_root dt)" "dt_root dt \<noteq> DtNull"
    using dt(2,3) by (auto simp: cow_inv_def dt_cow_ok_def left_rules_def)
  then have "tree_leaves (dt_root dt) = [?s]" using left_rules_hd[OF root] dt(3) fr init(3) by simp
  then show ?thesis using dt(1) fr by (auto simp: dt_init_def)
qed

theorem dt_inserted_rules_sorted_witness:
  "\<exists>dt. run_ops (cow_put (sample_rule 0 0 0)) [sample_rule 1 5 1, sample_rule 2 9 2, sample_rule 3 5 3] (dt_init 0) = Some dt \<and>
     tree_leaves (dt_root dt) = [[sample_rule 2 9 2, sample_rule 1 5 1, sample_rule 3 5 3]]"
proof -
  have "sort_key (\<lambda>r. - cr_priority r) [sample_rule 1 5 1, sample_rule 2 9 2, sample_rule 3 5 3] =
      [sample_rule 2 9 2, sample_rule 1 5 1, sample_rule 3 5 3]"
    by (simp add: sample_rule_def)
  then show ?thesis
    using dt_inserted_rules_sorted[of "[sample_rule 1 5 1, sample_rule 2 9 2, sample_rule 3 5 3]" "sample_rule 0 0 0" 0]
    by (metis list.distinct(1))
qed

text \<open>
  \<open>dt_insert_rule_simple\<close>, which shifts the rules of a leaf in place, sorts in the same way, never
  writes outside the array it has grown, and stays within its capacity.
\<close>
theorem dt_simple_insertion_sorts:
  "\<exists>t n. run_ops (simple_put slot) rs (DtNull, nx) = Some (t, n) \<and> single_leaf t \<and>
     left_rules t = sort_key (\<lambda>r. - cr_priority r) rs"
proof -
  have "single_leaf (fst (DtNull, nx))" "left_rules (fst (DtNull, nx)) = []" by (simp_all add: left_rules_def)
  from simple_store.put_all_sorts[OF this, of slot rs] show ?thesis by auto
qed

text \<open>
  C22: Copy-on-write insertion in a tree.  On a full tree with at most 64 nodes on its leftmost path and a
  leftmost leaf that is not empty, \<open>dt_insert_rule\<close> adds exactly the new rule, keeps the shape of the
  tree and every other leaf, and keeps the leaves ordered by priority if they were.
\<close>
theorem dt_insert_rule_adds_one:
  assumes "dt_cow_ok dt" and "left_rules (dt_root dt) \<noteq> []"
  shows "\<exists>dt'. dt_insert_rule slot dt r = Some (True, dt') \<and>
    tree_rules (dt_root dt') = add_mset r (tree_rules (dt_root dt)) \<and>
    tl (tree_leaves (dt_root dt')) = tl (tree_leaves (dt_root dt)) \<and> dt_cow_ok dt' \<and>
    (list_all (by_priority cr_priority) (tree_leaves (dt_root dt)) \<longrightarrow>
      list_all (by_priority cr_priority) (tree_leaves (dt_root dt')))"
proof -
  have nn: "dt_full (dt_root dt)" "dt_root dt \<noteq> DtNull" using assms(1) by (auto simp: dt_cow_ok_def)
  note hd = left_rules_hd[OF nn]
  obtain dt' where dt': "dt_insert_rule slot dt r = Some (True, dt')" "cow_inv dt'"
    "tree_leaves (dt_root dt') = put_rule cr_priority r (left_rules (dt_root dt)) # tl (tree_leaves (dt_root dt))"
    using insert_rule_inv[of dt slot r] assms by (auto simp: cow_inv_def)
  have "dt_root dt' \<noteq> DtNull" using dt'(3) by auto
  then have "dt_cow_ok dt'" using dt'(2) by (simp add: cow_inv_def)
  moreover have "tree_rules (dt_root dt') = add_mset r (tree_rules (dt_root dt))"
    unfolding tree_rules_def dt'(3) by (subst (2) hd) simp
  moreover have "list_all (by_priority cr_priority) (tree_leaves (dt_root dt')) "
    if "list_all (by_priority cr_priority) (tree_leaves (dt_root dt))"
    unfolding dt'(3) using that by (subst (asm) hd) (simp add: put_rule_sorted[of cr_priority])
  ultimately show ?thesis using dt'(1,3) by auto
qed

theorem dt_insert_rule_adds_one_witness:
  "\<exists>dt'. dt_insert_rule (sample_rule 0 0 0) sample_tree (sample_rule 104 6 3) = Some (True, dt') \<and>
     tree_rules (dt_root dt') = add_mset (sample_rule 104 6 3) (tree_rules (dt_root sample_tree))"
proof -
  have "left_rules (dt_root sample_tree) \<noteq> []" using sample_tree_ok(2) by simp
  from dt_insert_rule_adds_one[OF sample_tree_ok(1) this] show ?thesis by blast
qed

text \<open>
  C23: On a full tree with at most 64 nodes on its leftmost path and a leftmost leaf that is not empty and
  does not hold the rule, inserting the rule and removing it again both succeed and restore every leaf
  of the tree and the rule count.
\<close>
theorem dt_remove_undoes_insert:
  assumes "dt_cow_ok dt" and "left_rules (dt_root dt) \<noteq> []"
    and "\<forall>x \<in> set (left_rules (dt_root dt)). cr_addr x \<noteq> cr_addr r"
  shows "\<exists>dt1 dt2. dt_insert_rule slot dt r = Some (True, dt1) \<and> dt_remove_rule dt1 r = Some (True, dt2) \<and>
    tree_leaves (dt_root dt2) = tree_leaves (dt_root dt) \<and> dt_n_rules dt2 = dt_n_rules dt"
proof -
  have nn: "dt_full (dt_root dt)" "dt_root dt \<noteq> DtNull" using assms(1) by (auto simp: dt_cow_ok_def)
  obtain dt1 where dt1: "dt_insert_rule slot dt r = Some (True, dt1)" "cow_inv dt1"
    "left_rules (dt_root dt1) = put_rule cr_priority r (left_rules (dt_root dt))"
    "tree_leaves (dt_root dt1) = put_rule cr_priority r (left_rules (dt_root dt)) # tl (tree_leaves (dt_root dt))"
    "dt_n_rules dt1 = dt_n_rules dt + 1"
    using insert_rule_inv[of dt slot r] assms by (auto simp: cow_inv_def)
  have ok1: "dt_cow_ok dt1" using dt1(2,4) by (auto simp: cow_inv_def)
  obtain a rules c i where leaf: "left_leaf (dt_root dt1) = DtLeaf a rules c i"
    using left_leaf_cases[of "dt_root dt1"] ok1 unfolding dt_cow_ok_def by metis
  then have rules: "rules = put_rule cr_priority r (left_rules (dt_root dt))"
    using dt1(3) by (simp add: left_rules_def)
  let ?l = "DtLeaf (dt_next dt1) (drop_rule (cr_addr r) rules) (length rules) i"
  have "dt_remove_rule dt1 r = Some (True, dt_replace_left dt1 ?l (-1))"
    using remove_rule_cow[OF ok1 leaf, of r] rules by auto
  moreover have "tree_leaves (dt_root (dt_replace_left dt1 ?l (-1))) = tree_leaves (dt_root dt)"
    using replace_left_props(2)[OF ok1 refl] dt1(4) drop_put_rule[OF assms(3)] rules left_rules_hd[OF nn] by simp
  ultimately show ?thesis using dt1(1,5) by (auto simp: dt_replace_left_def)
qed

theorem dt_remove_undoes_insert_witness:
  "\<exists>dt1 dt2. dt_insert_rule (sample_rule 0 0 0) sample_tree (sample_rule 104 6 3) = Some (True, dt1) \<and>
     dt_remove_rule dt1 (sample_rule 104 6 3) = Some (True, dt2) \<and>
     tree_leaves (dt_root dt2) = tree_leaves (dt_root sample_tree)"
proof -
  have "left_rules (dt_root sample_tree) \<noteq> []"
    "\<forall>x \<in> set (left_rules (dt_root sample_tree)). cr_addr x \<noteq> cr_addr (sample_rule 104 6 3)"
    using sample_tree_ok(2) by (simp_all add: sample_rule_def)
  from dt_remove_undoes_insert[OF sample_tree_ok(1) this] show ?thesis by blast
qed

text \<open>
  C24: Path copying.  An insertion gives new addresses exactly to the nodes on the leftmost path: the
  published tree and the old one, which readers may still use, share the nodes off that path and no
  others, and no address is used twice.
\<close>
theorem dt_insert_rule_path_copying:
  assumes "dt_cow_ok dt" and "left_rules (dt_root dt) \<noteq> []" and "dt_addrs_ok dt"
  shows "\<exists>dt'. dt_insert_rule slot dt r = Some (True, dt') \<and> dt_addrs_ok dt' \<and>
    set (dt_node_destroy (dt_root dt')) \<inter> set (dt_node_destroy (dt_root dt)) = set (off_spine (dt_root dt)) \<and>
    dt_postponed dt' = dt_postponed dt @ [dt_root dt] \<and> dt_freed dt' = dt_freed dt"
proof -
  obtain a rules c i where leaf: "left_leaf (dt_root dt) = DtLeaf a rules c i"
    using left_leaf_cases[of "dt_root dt"] assms(1) unfolding dt_cow_ok_def by metis
  then have "rules \<noteq> []" using assms(2) by (simp add: left_rules_def)
  note ins = insert_rule_cow[OF assms(1) leaf this, of slot r]
  show ?thesis using ins replace_left_addrs[OF assms(3) refl] by (simp add: dt_replace_left_def)
qed

theorem dt_insert_rule_path_copying_witness:
  "\<exists>dt'. dt_insert_rule (sample_rule 0 0 0) sample_tree (sample_rule 104 6 3) = Some (True, dt') \<and>
     set (dt_node_destroy (dt_root dt')) \<inter> {1, 2, 3} = {2}"
proof -
  have "left_rules (dt_root sample_tree) \<noteq> []" "dt_addrs_ok sample_tree"
    using sample_tree_ok(2) by (simp_all add: dt_addrs_ok_def sample_tree_def dt_init_def)
  from dt_insert_rule_path_copying[OF sample_tree_ok(1) this, of "sample_rule 0 0 0" "sample_rule 104 6 3"]
  obtain dt' where dt': "dt_insert_rule (sample_rule 0 0 0) sample_tree (sample_rule 104 6 3) = Some (True, dt')"
    "set (dt_node_destroy (dt_root dt')) \<inter> set (dt_node_destroy (dt_root sample_tree)) = set (off_spine (dt_root sample_tree))"
    by blast
  have "set (dt_node_destroy (dt_root sample_tree)) = {1, 2, 3}" "set (off_spine (dt_root sample_tree)) = {2}"
    by (auto simp: sample_tree_def)
  then show ?thesis using dt' by auto
qed



text \<open>
  C26: Lazy building.  Rules added with \<open>dt_add_rule_lazy\<close> to a new tree always fit the pending array;
  the first use builds a tree of exactly these rules, with the number of rules, internal nodes and leaves
  of the tree and its height, the number of internal nodes on a longest path, as the statistics, and
  building again changes nothing.
\<close>
theorem dt_lazy_build:
  assumes "rs \<noteq> []"
  shows "let dt = fold (\<lambda>r dt. dt_add_rule_lazy dt r) rs (dt_init nx); dt' = dt_ensure_tree_built junk dt in
    length (dt_pending_rules dt) \<le> dt_pending_capacity dt \<and> tree_rules (dt_root dt') = mset rs \<and>
    dt_n_rules dt' = int (length rs) \<and> dt_n_internal_nodes dt' = int (n_internals (dt_root dt')) \<and>
    dt_n_leaf_nodes dt' = int (length (tree_leaves (dt_root dt'))) \<and>
    dt_n_leaf_nodes dt' = dt_n_internal_nodes dt' + 1 \<and> dt_max_depth dt' = int (dt_height (dt_root dt')) \<and>
    dt_ensure_tree_built junk' dt' = dt'"
proof -
  define dt where "dt = fold (\<lambda>r dt. dt_add_rule_lazy dt r) rs (dt_init nx)"
  define dt' where "dt' = dt_ensure_tree_built junk dt"
  have p: "lazy_inv dt" "\<not> dt_tree_built dt" "dt_pending_rules dt = rs"
    using lazy_built[OF assms, of nx] by (simp_all add: dt_def Let_def)
  note b = ensure_built[of dt junk, folded dt'_def, unfolded p(3) Let_def, OF p(2) assms]
  have full: "dt_full (dt_root dt')" "dt_root dt' \<noteq> DtNull" using b assms by (auto simp: build_ok_def)
  have "dt_ensure_tree_built junk' dt' = dt'" unfolding dt'_def by (rule ensure_built_twice)
  then show ?thesis
    unfolding dt_def[symmetric] dt'_def[symmetric] Let_def
    using p b full_tree_counts[OF full] by (simp add: lazy_inv_def build_ok_def)
qed

theorem dt_lazy_build_witness:
  "\<exists>dt. dt = dt_ensure_tree_built (\<lambda>p k i. 0) (dt_add_rule_lazy (dt_init 0) (sample_rule 1 5 1)) \<and>
     dt_n_rules dt = 1 \<and> dt_max_depth dt = int (dt_height (dt_root dt))"
  using dt_lazy_build[of "[sample_rule 1 5 1]" 0 "\<lambda>p k i. 0"] by (simp add: Let_def)

text \<open>
  C27: \<open>dt_lookup\<close> on a lazily built tree follows the flow to a leaf, going right at an internal node
  exactly if the value of the flow is the value of the test, and returns a rule of that leaf: when the
  rules of the highest priority among those of the leaf visible in the version match the flow, the
  result is one of them, and the first one of these if the rules were added by descending priority;
  when no rule of the leaf is visible, it returns nothing.  Priorities are at least 0, as in the
  classifier.
\<close>
theorem dt_lookup_best_in_leaf:
  assumes "rs \<noteq> []" and "list_all priority_ok rs" and "dt = fold (\<lambda>r dt. dt_add_rule_lazy dt r) rs (dt_init nx)"
  shows "\<exists>path leaf res wc'. follows junk' flow 0 (dt_root (dt_ensure_tree_built junk dt)) path leaf \<and>
    dt_lookup junk junk' dt version flow wc = Some (res, wc', dt_ensure_tree_built junk dt) \<and>
    (list_all (\<lambda>r. \<not> dt_rule_visible version r) leaf \<longrightarrow> res = None) \<and>
    (list_ex (dt_rule_visible version) leaf \<and> list_all (flow_matches flow) (filter (best_visible version leaf) leaf) \<longrightarrow>
      (\<exists>b. res = Some b \<and> b \<in> set (filter (best_visible version leaf) leaf) \<and>
        (by_priority cr_priority rs \<longrightarrow> b = hd (filter (best_visible version leaf) leaf))))"
proof -
  define dt' where "dt' = dt_ensure_tree_built junk dt"
  have p: "\<not> dt_tree_built dt" "dt_pending_rules dt = rs"
    using lazy_built[OF assms(1), of nx] by (simp_all add: assms(3) Let_def)
  have b: "build_ok rs (dt_root dt')"
    using ensure_built[of dt junk, folded dt'_def, unfolded p(2) Let_def, OF p(1) assms(1)] by blast
  have full: "dt_full (dt_root dt')" "dt_root dt' \<noteq> DtNull" using b assms(1) by (auto simp: build_ok_def)
  obtain path a leaf c i where leaf: "dt_traverse junk' flow 0 (dt_root dt') = Some (DtLeaf a leaf c i)"
    "follows junk' flow 0 (dt_root dt') path leaf" "leaf \<in> set (tree_leaves (dt_root dt'))" using traverse_follows[OF full] by blast
  have ok: "\<forall>r \<in> set leaf. priority_ok r"
    using assms(2) leaf_rules_in[OF leaf(3)] b by (auto simp: list_all_iff build_ok_def)
  have look: "dt_lookup junk junk' dt version flow wc = Some (dt_leaf_best version leaf, map_option (\<lambda>_. zero_flow) wc, dt')"
    using leaf(1) full(2) by (simp add: dt_lookup_def Let_def dt'_def[symmetric] split: option.split)
  have "by_priority cr_priority rs \<Longrightarrow> by_priority cr_priority leaf" using build_ok_sorted[OF b] leaf(3) by blast
  then show ?thesis unfolding dt'_def[symmetric] using look leaf(2) leaf_best_visible[OF ok, of version] by blast
qed

theorem dt_lookup_best_in_leaf_witness:
  "\<exists>b wc' dt'. dt_lookup (\<lambda>p k i. 0) (\<lambda>d. 0)
      (fold (\<lambda>r dt. dt_add_rule_lazy dt r) [sample_rule 1 5 7, sample_rule 2 9 7] (dt_init 0)) 0 (zero_flow\<lparr>fl_nw_src := 7\<rparr>) None =
      Some (Some b, wc', dt') \<and> cr_priority b = 9"
proof -
  let ?rs = "[sample_rule 1 5 7, sample_rule 2 9 7]" and ?fl = "zero_flow\<lparr>fl_nw_src := 7\<rparr>"
  let ?dt = "fold (\<lambda>r dt. dt_add_rule_lazy dt r) ?rs (dt_init 0)"
  have ok: "?rs \<noteq> []" "list_all priority_ok ?rs" by (simp_all add: priority_ok_def sample_rule_def)
  have root: "\<exists>a c i. dt_root (dt_ensure_tree_built (\<lambda>p k i. 0) ?dt) = DtLeaf a ?rs c i"
    by (simp add: dt_ensure_tree_built_def dt_add_rule_lazy_def dt_init_def dt_build_tree_from_array.simps dt_build_leaf_eq
        dt_update_stats_def Let_def)
  obtain path leaf res wc' where l: "follows (\<lambda>d. 0) ?fl 0 (dt_root (dt_ensure_tree_built (\<lambda>p k i. 0) ?dt)) path leaf"
    "dt_lookup (\<lambda>p k i. 0) (\<lambda>d. 0) ?dt 0 ?fl None = Some (res, wc', dt_ensure_tree_built (\<lambda>p k i. 0) ?dt)"
    "list_ex (dt_rule_visible 0) leaf \<and> list_all (flow_matches ?fl) (filter (best_visible 0 leaf) leaf) \<longrightarrow>
      (\<exists>b. res = Some b \<and> b \<in> set (filter (best_visible 0 leaf) leaf))"
    using dt_lookup_best_in_leaf[OF ok refl, of "\<lambda>d. 0" ?fl "\<lambda>p k i. 0" 0 0 None] by blast
  have "leaf = ?rs" using l(1) root by (auto elim: follows.cases)
  moreover have "filter (best_visible 0 ?rs) ?rs = [sample_rule 2 9 7]" "list_ex (dt_rule_visible 0) ?rs"
    "flow_matches ?fl (sample_rule 2 9 7)"
    by (simp_all add: best_visible_def dt_rule_visible_def sample_rule_def flow_matches_def zero_flow_def)
  ultimately have "res = Some (sample_rule 2 9 7)" using l(3) by simp
  then show ?thesis using l(2) by (simp add: sample_rule_def)
qed

text \<open>
  C28: On a built tree whose leaves are not empty and ordered by descending priority, and in which every
  rule is visible, the optimised \<open>dt_lookup_simple\<close>, which takes the first rule of the leaf, returns the
  same rule as \<open>dt_lookup\<close>, which scans the leaf.
\<close>
theorem dt_lookup_simple_agrees:
  assumes "dt_tree_built dt" and "dt_full (dt_root dt)"
    and "list_all (\<lambda>leaf. leaf \<noteq> [] \<and> by_priority cr_priority leaf) (tree_leaves (dt_root dt))"
    and "list_all (list_all (\<lambda>r. priority_ok r \<and> dt_rule_visible version r)) (tree_leaves (dt_root dt))"
  shows "map_option fst (dt_lookup_simple junk junk' dt flow) = map_option fst (dt_lookup junk junk' dt version flow wc)"
proof (cases "dt_root dt = DtNull")
  case True
  then show ?thesis using assms(1) by (simp add: dt_lookup_simple_def dt_lookup_def dt_ensure_tree_built_def)
next
  case False
  obtain a leaf c i where leaf: "dt_traverse junk' flow 0 (dt_root dt) = Some (DtLeaf a leaf c i)"
    "leaf \<in> set (tree_leaves (dt_root dt))" using traverse_full[OF assms(2) False] by blast
  have l: "leaf \<noteq> []" "by_priority cr_priority leaf" "\<forall>r \<in> set leaf. priority_ok r \<and> dt_rule_visible version r"
    using assms(3,4) leaf(2) by (auto simp: list_all_iff)
  have "dt_leaf_best version leaf = List.find (dt_rule_visible version) leaf" using leaf_best(3) l by blast
  also have "\<dots> = Some (leaf ! 0)" using l(1,3) by (cases leaf) auto
  finally show ?thesis
    using leaf(1) l(1) assms(1) False by (simp add: dt_lookup_simple_def dt_lookup_def dt_ensure_tree_built_def Let_def)
qed

theorem dt_lookup_simple_agrees_witness:
  "map_option fst (dt_lookup (\<lambda>p k i. 0) (\<lambda>d. 0) sample_tree 0 (zero_flow\<lparr>fl_nw_src := 4\<rparr>) None) = Some (Some (sample_rule 103 7 4))"
proof -
  have "dt_tree_built sample_tree" "dt_full (dt_root sample_tree)"
    "list_all (\<lambda>leaf. leaf \<noteq> [] \<and> by_priority cr_priority leaf) (tree_leaves (dt_root sample_tree))"
    "list_all (list_all (\<lambda>r. priority_ok r \<and> dt_rule_visible 0 r)) (tree_leaves (dt_root sample_tree))"
    by (simp_all add: sample_tree_def sample_rule_def priority_ok_def dt_rule_visible_def)
  note agree = dt_lookup_simple_agrees[OF this, of "\<lambda>p k i. 0" "\<lambda>d. 0" "zero_flow\<lparr>fl_nw_src := 4\<rparr>" None]
  show ?thesis unfolding agree[symmetric]
    by (simp add: dt_lookup_simple_def dt_ensure_tree_built_def sample_tree_def dt_test_match_def mf_get_value_def)
qed

subsection \<open>Limits of the code\<close>

text \<open>
  The build sends values of at least the split value to the right, the lookup only equal ones.  Of six
  rules for the sources 1 to 6 the split value is 4; the rule for source 5 is in the right leaf, and a
  packet from source 5 is looked up in the left one, where no rule matches it.
\<close>

definition six_rules :: "cls_rule list" where
  "six_rules = map (\<lambda>k. sample_rule k (int k) (of_nat k)) [1, 2, 3, 4, 5, 6]"

lemma six_rules_misrouted:
  "map_option fst (dt_lookup (\<lambda>p k i. 0) (\<lambda>d. 0) (fold (\<lambda>r dt. dt_add_rule_lazy dt r) six_rules (dt_init 0)) 0
     (zero_flow\<lparr>fl_nw_src := 5\<rparr>) None) = Some (Some (sample_rule 3 3 3))"
  by code_simp

text \<open>\<open>dt_lookup_simple\<close> returns the only rule, for source 1, for a flow from source 2.\<close>

lemma lookup_ignores_match:
  "Option.bind (dt_insert_rule s (dt_init 0) (sample_rule 1 5 1)) (\<lambda>(_, dt).
     map_option fst (dt_lookup_simple (\<lambda>p k i. 0) (\<lambda>d. 0) dt (zero_flow\<lparr>fl_nw_src := 2\<rparr>))) = Some (Some (sample_rule 1 5 1))"
  by code_simp

text \<open>The source address was tested on the way to the leaf, and all masks are left zero.\<close>

lemma lookup_keeps_tested_field_wildcarded:
  "map_option (\<lambda>x. fst (snd x)) (dt_lookup (\<lambda>p k i. 0) (\<lambda>d. 0) sample_tree 0 zero_flow (Some zero_flow)) = Some (Some zero_flow)"
  by code_simp

text \<open>Inserting into a tree whose only leaf was emptied writes past a rule array of capacity 0.\<close>

lemma insert_into_emptied_leaf:
  "Option.bind (dt_insert_rule s (dt_init 0) (sample_rule 1 5 1)) (\<lambda>(_, dt).
     Option.bind (dt_remove_rule dt (sample_rule 1 5 1)) (\<lambda>(_, dt). dt_insert_rule s dt (sample_rule 2 5 2))) = None"
  by code_simp

text \<open>The old tree, destroyed as a whole after the grace period, still contains nodes of the new one.\<close>

lemma postponed_destruction_shares_nodes:
  assumes "dt_cow_ok dt" and "left_rules (dt_root dt) \<noteq> []" and "dt_root dt = DtInternal a f ty te l r"
  shows "\<exists>dt'. dt_insert_rule slot dt rule = Some (True, dt') \<and> dt_root dt \<in> set (dt_postponed dt') \<and>
    set (dt_node_destroy r) \<subseteq> set (dt_node_destroy (dt_root dt')) \<inter> set (dt_node_destroy (dt_root dt))"
proof -
  obtain x rules c i where leaf: "left_leaf (dt_root dt) = DtLeaf x rules c i"
    using left_leaf_cases[of "dt_root dt"] assms(1) unfolding dt_cow_ok_def by metis
  then have "rules \<noteq> []" using assms(2) by (simp add: left_rules_def)
  from insert_rule_cow[OF assms(1) leaf this, of slot rule] show ?thesis
    using assms(3) by (auto simp: dt_replace_left_def case_prod_unfold)
qed

text \<open>Building after a lazy addition replaces the tree, and with it the rules inserted directly.\<close>

lemma lazy_addition_drops_inserted_rules:
  "tree_rules (dt_root (dt_ensure_tree_built junk (dt_add_rule_lazy (dt\<lparr>dt_pending_rules := []\<rparr>) r))) = {#r#}"
  using ensure_built[of "dt_add_rule_lazy (dt\<lparr>dt_pending_rules := []\<rparr>) r" junk]
  by (simp add: dt_add_rule_lazy_def build_ok_def Let_def)

end
