(* ===== verification/Conntrack_Tp.thy ===== *)
theory Conntrack_Tp
  imports Ovs_Prelude
begin

text \<open>
  What the connection tracker's protocol modules share (\<open>lib/conntrack-private.h\<close>, \<open>lib/ct-dpif.h\<close>),
  and the timeout policies (\<open>lib/conntrack-tp.c\<close>).  Of \<open>struct conntrack\<close> and \<open>struct conn\<close> the
  members that the protocol modules and the policies use are modelled.  Locks are left out.
\<close>

subsection \<open>Attributes and timeouts\<close>

datatype ct_dpif_tp_attr =
    CT_DPIF_TP_ATTR_TCP_SYN_SENT | CT_DPIF_TP_ATTR_TCP_SYN_RECV | CT_DPIF_TP_ATTR_TCP_ESTABLISHED
  | CT_DPIF_TP_ATTR_TCP_FIN_WAIT | CT_DPIF_TP_ATTR_TCP_CLOSE_WAIT | CT_DPIF_TP_ATTR_TCP_LAST_ACK
  | CT_DPIF_TP_ATTR_TCP_TIME_WAIT | CT_DPIF_TP_ATTR_TCP_CLOSE | CT_DPIF_TP_ATTR_TCP_SYN_SENT2
  | CT_DPIF_TP_ATTR_TCP_RETRANSMIT | CT_DPIF_TP_ATTR_TCP_UNACK
  | CT_DPIF_TP_ATTR_UDP_FIRST | CT_DPIF_TP_ATTR_UDP_SINGLE | CT_DPIF_TP_ATTR_UDP_MULTIPLE
  | CT_DPIF_TP_ATTR_ICMP_FIRST | CT_DPIF_TP_ATTR_ICMP_REPLY

text \<open>The value of an enumerator; \<open>CT_DPIF_TP_ATTR_MAX\<close> is the number of attributes.\<close>

fun attr_index :: "ct_dpif_tp_attr \<Rightarrow> nat" where
  "attr_index CT_DPIF_TP_ATTR_TCP_SYN_SENT = 0"
| "attr_index CT_DPIF_TP_ATTR_TCP_SYN_RECV = 1"
| "attr_index CT_DPIF_TP_ATTR_TCP_ESTABLISHED = 2"
| "attr_index CT_DPIF_TP_ATTR_TCP_FIN_WAIT = 3"
| "attr_index CT_DPIF_TP_ATTR_TCP_CLOSE_WAIT = 4"
| "attr_index CT_DPIF_TP_ATTR_TCP_LAST_ACK = 5"
| "attr_index CT_DPIF_TP_ATTR_TCP_TIME_WAIT = 6"
| "attr_index CT_DPIF_TP_ATTR_TCP_CLOSE = 7"
| "attr_index CT_DPIF_TP_ATTR_TCP_SYN_SENT2 = 8"
| "attr_index CT_DPIF_TP_ATTR_TCP_RETRANSMIT = 9"
| "attr_index CT_DPIF_TP_ATTR_TCP_UNACK = 10"
| "attr_index CT_DPIF_TP_ATTR_UDP_FIRST = 11"
| "attr_index CT_DPIF_TP_ATTR_UDP_SINGLE = 12"
| "attr_index CT_DPIF_TP_ATTR_UDP_MULTIPLE = 13"
| "attr_index CT_DPIF_TP_ATTR_ICMP_FIRST = 14"
| "attr_index CT_DPIF_TP_ATTR_ICMP_REPLY = 15"

definition CT_DPIF_TP_ATTR_MAX :: nat where
  "CT_DPIF_TP_ATTR_MAX = 16"

lemma attr_index_less: "attr_index a < CT_DPIF_TP_ATTR_MAX"
  by (cases a) (simp_all add: CT_DPIF_TP_ATTR_MAX_def)

datatype ct_timeout =
    CT_TM_TCP_FIRST_PACKET | CT_TM_TCP_OPENING | CT_TM_TCP_ESTABLISHED | CT_TM_TCP_CLOSING
  | CT_TM_TCP_FIN_WAIT | CT_TM_TCP_CLOSED | CT_TM_OTHER_FIRST | CT_TM_OTHER_MULTIPLE
  | CT_TM_OTHER_BIDIR | CT_TM_ICMP_FIRST | CT_TM_ICMP_REPLY

fun tm_to_ct_dpif_tp :: "ct_timeout \<Rightarrow> ct_dpif_tp_attr" where
  "tm_to_ct_dpif_tp CT_TM_TCP_FIRST_PACKET = CT_DPIF_TP_ATTR_TCP_SYN_SENT"
| "tm_to_ct_dpif_tp CT_TM_TCP_OPENING = CT_DPIF_TP_ATTR_TCP_SYN_RECV"
| "tm_to_ct_dpif_tp CT_TM_TCP_ESTABLISHED = CT_DPIF_TP_ATTR_TCP_ESTABLISHED"
| "tm_to_ct_dpif_tp CT_TM_TCP_CLOSING = CT_DPIF_TP_ATTR_TCP_FIN_WAIT"
| "tm_to_ct_dpif_tp CT_TM_TCP_FIN_WAIT = CT_DPIF_TP_ATTR_TCP_TIME_WAIT"
| "tm_to_ct_dpif_tp CT_TM_TCP_CLOSED = CT_DPIF_TP_ATTR_TCP_CLOSE"
| "tm_to_ct_dpif_tp CT_TM_OTHER_FIRST = CT_DPIF_TP_ATTR_UDP_FIRST"
| "tm_to_ct_dpif_tp CT_TM_OTHER_BIDIR = CT_DPIF_TP_ATTR_UDP_MULTIPLE"
| "tm_to_ct_dpif_tp CT_TM_OTHER_MULTIPLE = CT_DPIF_TP_ATTR_UDP_SINGLE"
| "tm_to_ct_dpif_tp CT_TM_ICMP_FIRST = CT_DPIF_TP_ATTR_ICMP_FIRST"
| "tm_to_ct_dpif_tp CT_TM_ICMP_REPLY = CT_DPIF_TP_ATTR_ICMP_REPLY"

text \<open>The designated initialisers of the array, which leave the other elements 0.\<close>

definition ct_dpif_netdev_tp_def :: "uint32_t list" where
  "ct_dpif_netdev_tp_def = (replicate CT_DPIF_TP_ATTR_MAX 0)
     [attr_index CT_DPIF_TP_ATTR_TCP_SYN_SENT := 30,
      attr_index CT_DPIF_TP_ATTR_TCP_SYN_RECV := 30,
      attr_index CT_DPIF_TP_ATTR_TCP_ESTABLISHED := 24 * 60 * 60,
      attr_index CT_DPIF_TP_ATTR_TCP_FIN_WAIT := 15 * 60,
      attr_index CT_DPIF_TP_ATTR_TCP_TIME_WAIT := 45,
      attr_index CT_DPIF_TP_ATTR_TCP_CLOSE := 30,
      attr_index CT_DPIF_TP_ATTR_UDP_FIRST := 60,
      attr_index CT_DPIF_TP_ATTR_UDP_SINGLE := 60,
      attr_index CT_DPIF_TP_ATTR_UDP_MULTIPLE := 30,
      attr_index CT_DPIF_TP_ATTR_ICMP_FIRST := 60,
      attr_index CT_DPIF_TP_ATTR_ICMP_REPLY := 30]"

subsection \<open>State\<close>

record timeout_policy =
  tp_id :: uint32_t
  tp_present :: uint32_t
  tp_attrs :: "uint32_t list"

text \<open>
  The concurrent map of policies is the list of its nodes: a policy's hash is a function of its
  identifier, so a search over the nodes with the hash of an identifier sees every policy with it.
\<close>

record conntrack =
  ct_timeout_policies :: "timeout_policy list"
  ct_tcp_seq_chk :: bool

record conn =
  cn_tp_id :: uint32_t
  cn_expiration :: int

datatype ct_update_res = CT_UPDATE_INVALID | CT_UPDATE_VALID | CT_UPDATE_NEW | CT_UPDATE_VALID_NEW

definition ENOENT :: int where
  "ENOENT = 2"

definition DEFAULT_TP_ID :: uint32_t where
  "DEFAULT_TP_ID = 0"

subsection \<open>Policies\<close>

text \<open>The protected search differs from the other one only in the lock that the caller holds.\<close>

definition timeout_policy_lookup_protected :: "conntrack \<Rightarrow> uint32_t \<Rightarrow> timeout_policy option" where
  "timeout_policy_lookup_protected ct i = List.find (\<lambda>tp. tp_id tp = i) (ct_timeout_policies ct)"

definition timeout_policy_lookup :: "conntrack \<Rightarrow> uint32_t \<Rightarrow> timeout_policy option" where
  "timeout_policy_lookup ct i = List.find (\<lambda>tp. tp_id tp = i) (ct_timeout_policies ct)"

definition timeout_policy_get :: "conntrack \<Rightarrow> uint32_t \<Rightarrow> timeout_policy option" where
  "timeout_policy_get ct i = timeout_policy_lookup ct i"

definition update_attr :: "timeout_policy \<Rightarrow> nat \<Rightarrow> timeout_policy \<Rightarrow> timeout_policy" where
  "update_attr src i dst =
     (if tp_present src AND push_bit i 1 \<noteq> 0
      then dst\<lparr>tp_attrs := (tp_attrs dst)[i := tp_attrs src ! i], tp_present := tp_present dst OR push_bit i 1\<rparr>
      else dst)"

definition update_existing_tp :: "timeout_policy \<Rightarrow> timeout_policy \<Rightarrow> timeout_policy" where
  "update_existing_tp dst src = fold (update_attr src) [0..<CT_DPIF_TP_ATTR_MAX] dst"

definition init_default_tp :: "uint32_t \<Rightarrow> timeout_policy" where
  "init_default_tp i = \<lparr>tp_id = i, tp_present = 0, tp_attrs = ct_dpif_netdev_tp_def\<rparr>"

definition timeout_policy_create :: "conntrack \<Rightarrow> timeout_policy \<Rightarrow> conntrack" where
  "timeout_policy_create ct new_tp =
     (let tp = init_default_tp (tp_id new_tp);
          tp = update_existing_tp tp new_tp
      in ct\<lparr>ct_timeout_policies := tp # ct_timeout_policies ct\<rparr>)"

definition timeout_policy_clean :: "conntrack \<Rightarrow> timeout_policy \<Rightarrow> conntrack" where
  "timeout_policy_clean ct tp = ct\<lparr>ct_timeout_policies := remove1 tp (ct_timeout_policies ct)\<rparr>"

definition timeout_policy_delete' :: "conntrack \<Rightarrow> uint32_t \<Rightarrow> bool \<Rightarrow> int \<times> conntrack" where
  "timeout_policy_delete' ct i warn_on_error =
     (case timeout_policy_lookup_protected ct i of
        Some tp \<Rightarrow> (0, timeout_policy_clean ct tp)
      | None \<Rightarrow> (if warn_on_error then ENOENT else 0, ct))"

definition timeout_policy_delete :: "conntrack \<Rightarrow> uint32_t \<Rightarrow> int \<times> conntrack" where
  "timeout_policy_delete ct i = timeout_policy_delete' ct i True"

definition timeout_policy_init :: "conntrack \<Rightarrow> conntrack" where
  "timeout_policy_init ct =
     timeout_policy_create (ct\<lparr>ct_timeout_policies := []\<rparr>)
       \<lparr>tp_id = DEFAULT_TP_ID, tp_present = 0, tp_attrs = replicate CT_DPIF_TP_ATTR_MAX 0\<rparr>"

definition timeout_policy_update :: "conntrack \<Rightarrow> timeout_policy \<Rightarrow> int \<times> conntrack" where
  "timeout_policy_update ct new_tp =
     (let (_, ct) = timeout_policy_delete' ct (tp_id new_tp) False
      in (0, timeout_policy_create ct new_tp))"

subsection \<open>Expiration\<close>

text \<open>The product \<open>val * 1000\<close> is computed in 32 bits.\<close>

definition tp_timeout :: "conntrack \<Rightarrow> uint32_t \<Rightarrow> ct_timeout \<Rightarrow> uint32_t" where
  "tp_timeout ct i tm =
     (case timeout_policy_lookup ct i of
        Some tp \<Rightarrow> tp_attrs tp ! attr_index (tm_to_ct_dpif_tp tm)
      | None \<Rightarrow> ct_dpif_netdev_tp_def ! attr_index (tm_to_ct_dpif_tp tm))"

definition conn_update_expiration :: "conntrack \<Rightarrow> conn \<Rightarrow> ct_timeout \<Rightarrow> int \<Rightarrow> conn" where
  "conn_update_expiration ct conn tm now =
     (let val = tp_timeout ct (cn_tp_id conn) tm
      in conn\<lparr>cn_expiration := now + uint (val * 1000)\<rparr>)"

definition conn_init_expiration :: "conntrack \<Rightarrow> conn \<Rightarrow> ct_timeout \<Rightarrow> int \<Rightarrow> conn" where
  "conn_init_expiration ct conn tm now =
     (let val = tp_timeout ct (cn_tp_id conn) tm
      in conn\<lparr>cn_expiration := now + uint (val * 1000)\<rparr>)"

definition conn_expired :: "conn \<Rightarrow> int \<Rightarrow> bool" where
  "conn_expired conn now \<longleftrightarrow> now \<ge> cn_expiration conn"

subsection \<open>Facts on policies\<close>

lemma length_tp_def [simp]: "length ct_dpif_netdev_tp_def = CT_DPIF_TP_ATTR_MAX"
  by (simp add: ct_dpif_netdev_tp_def_def)

lemma update_attr_simps [simp]:
  "tp_id (update_attr src i dst) = tp_id dst"
  "length (tp_attrs (update_attr src i dst)) = length (tp_attrs dst)"
  by (simp_all add: update_attr_def)

lemma present_bit: "(x :: uint32_t) AND 2 ^ i = 0 \<longleftrightarrow> \<not> bit x i"
  by (rule and_exp_eq_0_iff_not_bit)

lemma update_existing_fold:
  assumes "length (tp_attrs dst) = CT_DPIF_TP_ATTR_MAX" and "n \<le> CT_DPIF_TP_ATTR_MAX"
  shows "tp_id (fold (update_attr src) [0..<n] dst) = tp_id dst \<and>
    length (tp_attrs (fold (update_attr src) [0..<n] dst)) = CT_DPIF_TP_ATTR_MAX \<and>
    (\<forall>i < CT_DPIF_TP_ATTR_MAX. tp_attrs (fold (update_attr src) [0..<n] dst) ! i =
      (if i < n \<and> bit (tp_present src) i then tp_attrs src ! i else tp_attrs dst ! i))"
  using assms(2)
proof (induction n)
  case (Suc n)
  let ?t = "fold (update_attr src) [0..<n] dst"
  have IH: "tp_id ?t = tp_id dst" "length (tp_attrs ?t) = CT_DPIF_TP_ATTR_MAX"
    "\<forall>i < CT_DPIF_TP_ATTR_MAX. tp_attrs ?t ! i = (if i < n \<and> bit (tp_present src) i then tp_attrs src ! i else tp_attrs dst ! i)"
    using Suc by auto
  have "tp_attrs (update_attr src n ?t) ! i =
      (if i < Suc n \<and> bit (tp_present src) i then tp_attrs src ! i else tp_attrs dst ! i)" if "i < CT_DPIF_TP_ATTR_MAX" for i
    using IH(2,3) that Suc.prems by (cases "i = n") (auto simp: update_attr_def present_bit nth_list_update)
  then show ?case using IH(1,2) by simp
qed (use assms in simp)

lemma find_removed:
  assumes "distinct (map tp_id tps)" and "List.find (\<lambda>tp. tp_id tp = i) tps = Some tp"
  shows "List.find (\<lambda>tp. tp_id tp = j) (remove1 tp tps) = (if j = i then None else List.find (\<lambda>tp. tp_id tp = j) tps)"
  using assms
proof (induction tps)
  case (Cons t tps)
  show ?case
  proof (cases "tp_id t = i")
    case True
    then have "tp = t" "i \<notin> tp_id ` set tps" using Cons.prems by auto
    then show ?thesis using True by (auto simp: find_None_iff image_iff)
  next
    case False
    then have f: "List.find (\<lambda>tp. tp_id tp = i) tps = Some tp" using Cons.prems(2) by simp
    then have "tp \<in> set tps \<and> tp_id tp = i" by (auto simp: find_Some_iff)
    then have "tp \<noteq> t" using False by auto
    then show ?thesis using Cons.IH f Cons.prems(1) False by auto
  qed
qed simp

definition policies_ok :: "conntrack \<Rightarrow> bool" where
  "policies_ok ct \<longleftrightarrow> distinct (map tp_id (ct_timeout_policies ct)) \<and>
     (\<forall>tp \<in> set (ct_timeout_policies ct). length (tp_attrs tp) = CT_DPIF_TP_ATTR_MAX)"

lemma distinct_map_remove1: "distinct (map f xs) \<Longrightarrow> distinct (map f (remove1 x xs))"
  using set_remove1_subset by (induction xs) fastforce+

lemma policy_delete:
  assumes "policies_ok ct"
  shows "policies_ok (snd (timeout_policy_delete' ct i w))"
    and "timeout_policy_get (snd (timeout_policy_delete' ct i w)) j = (if j = i then None else timeout_policy_get ct j)"
proof -
  have d: "distinct (map tp_id (ct_timeout_policies ct))" using assms by (simp add: policies_ok_def)
  show "policies_ok (snd (timeout_policy_delete' ct i w))"
    using assms notin_set_remove1
    by (fastforce simp: timeout_policy_delete'_def policies_ok_def timeout_policy_clean_def distinct_map_remove1
        split: option.splits)
  show "timeout_policy_get (snd (timeout_policy_delete' ct i w)) j = (if j = i then None else timeout_policy_get ct j)"
    using find_removed[OF d, of i _ j]
    by (auto simp: timeout_policy_delete'_def timeout_policy_get_def timeout_policy_lookup_def
        timeout_policy_lookup_protected_def timeout_policy_clean_def split: option.splits)
qed

lemma policy_fresh: "timeout_policy_get ct i = None \<longleftrightarrow> i \<notin> tp_id ` set (ct_timeout_policies ct)"
  by (auto simp: timeout_policy_get_def timeout_policy_lookup_def find_None_iff)

text \<open>The policy that an update installs: the given values where present, defaults elsewhere.\<close>

definition merged_attr :: "timeout_policy \<Rightarrow> nat \<Rightarrow> uint32_t" where
  "merged_attr tp i = (if bit (tp_present tp) i then tp_attrs tp ! i else ct_dpif_netdev_tp_def ! i)"

lemma policy_create:
  assumes "policies_ok ct" and "timeout_policy_get ct (tp_id new) = None"
  shows "policies_ok (timeout_policy_create ct new)"
    and "j \<noteq> tp_id new \<Longrightarrow> timeout_policy_get (timeout_policy_create ct new) j = timeout_policy_get ct j"
    and "\<exists>tp. timeout_policy_get (timeout_policy_create ct new) (tp_id new) = Some tp \<and> tp_id tp = tp_id new \<and>
      tp_attrs tp = map (merged_attr new) [0..<CT_DPIF_TP_ATTR_MAX]"
proof -
  let ?t = "update_existing_tp (init_default_tp (tp_id new)) new"
  have t: "tp_id ?t = tp_id new" "length (tp_attrs ?t) = CT_DPIF_TP_ATTR_MAX"
    "\<forall>i < CT_DPIF_TP_ATTR_MAX. tp_attrs ?t ! i = merged_attr new i"
    using update_existing_fold[of "init_default_tp (tp_id new)" CT_DPIF_TP_ATTR_MAX new]
    by (simp_all add: update_existing_tp_def init_default_tp_def merged_attr_def)
  then have "tp_attrs ?t = map (merged_attr new) [0..<CT_DPIF_TP_ATTR_MAX]" by (intro nth_equalityI) auto
  then show "\<exists>tp. timeout_policy_get (timeout_policy_create ct new) (tp_id new) = Some tp \<and> tp_id tp = tp_id new \<and>
      tp_attrs tp = map (merged_attr new) [0..<CT_DPIF_TP_ATTR_MAX]"
    using t(1) by (simp add: timeout_policy_create_def timeout_policy_get_def timeout_policy_lookup_def)
  show "policies_ok (timeout_policy_create ct new)"
    using assms t policy_fresh[of ct "tp_id new"] by (simp add: timeout_policy_create_def policies_ok_def Let_def)
  show "timeout_policy_get (timeout_policy_create ct new) j = timeout_policy_get ct j" if "j \<noteq> tp_id new"
    using that t(1) by (simp add: timeout_policy_create_def timeout_policy_get_def timeout_policy_lookup_def Let_def)
qed

end
