(* ===== verification/Conntrack_Tcp.thy ===== *)
theory Conntrack_Tcp
  imports Conntrack_Tp
begin

text \<open>
  Tracking of TCP connections (\<open>lib/conntrack-tcp.c\<close>) with the packet accessors it uses
  (\<open>lib/dp-packet.h\<close>, \<open>lib/packets.h\<close>).  \<open>None\<close> is an access outside the packet.
\<close>

subsection \<open>Packets\<close>

record dp_packet =
  pk_data :: "uint8_t list"
  pk_l4_ofs :: uint16_t
  pk_l2_pad_size :: uint16_t

definition UINT16_MAX :: uint16_t where
  "UINT16_MAX = 0xffff"

text \<open>The bytes from the transport header to the end of the packet; \<open>None\<close> is the null pointer.\<close>

definition dp_packet_l4 :: "dp_packet \<Rightarrow> uint8_t list option" where
  "dp_packet_l4 b = (if pk_l4_ofs b \<noteq> UINT16_MAX then Some (drop (unat (pk_l4_ofs b)) (pk_data b)) else None)"

definition dp_packet_l4_size :: "dp_packet \<Rightarrow> uint64_t" where
  "dp_packet_l4_size b =
     (if pk_l4_ofs b \<noteq> UINT16_MAX
      then word_of_int (int (length (pk_data b)) - uint (pk_l4_ofs b) - uint (pk_l2_pad_size b))
      else 0)"

definition TCP_HEADER_LEN :: nat where
  "TCP_HEADER_LEN = 20"

text \<open>The members of \<open>struct tcp_header\<close> that are used, in host order, and the bytes after the structure.\<close>

record tcp_header =
  tcp_seq :: uint32_t
  tcp_ack :: uint32_t
  tcp_ctl :: uint16_t
  tcp_winsz :: uint16_t
  tcp_options :: "uint8_t list"

definition tcp_header_at :: "uint8_t list \<Rightarrow> tcp_header option" where
  "tcp_header_at bs =
     (if length bs \<ge> TCP_HEADER_LEN
      then Some \<lparr>tcp_seq = be_value (take 4 (drop 4 bs)), tcp_ack = be_value (take 4 (drop 8 bs)),
                 tcp_ctl = be_value (take 2 (drop 12 bs)), tcp_winsz = be_value (take 2 (drop 14 bs)),
                 tcp_options = drop TCP_HEADER_LEN bs\<rparr>
      else None)"

definition packet_tcp :: "dp_packet \<Rightarrow> tcp_header option" where
  "packet_tcp b = Option.bind (dp_packet_l4 b) tcp_header_at"

definition TCP_FLAGS :: "uint16_t \<Rightarrow> uint16_t" where
  "TCP_FLAGS ctl = ctl AND 0x0fff"

definition TCP_OFFSET :: "uint16_t \<Rightarrow> int" where
  "TCP_OFFSET ctl = uint (drop_bit 12 ctl)"

definition TCP_FIN :: uint16_t where "TCP_FIN = 0x001"
definition TCP_SYN :: uint16_t where "TCP_SYN = 0x002"
definition TCP_RST :: uint16_t where "TCP_RST = 0x004"
definition TCP_PSH :: uint16_t where "TCP_PSH = 0x008"
definition TCP_ACK :: uint16_t where "TCP_ACK = 0x010"
definition TCP_URG :: uint16_t where "TCP_URG = 0x020"

lemmas tcp_flag_defs = TCP_FIN_def TCP_SYN_def TCP_RST_def TCP_PSH_def TCP_ACK_def TCP_URG_def

text \<open>The offset of the payload from the transport header, if there is a payload.\<close>

definition dp_packet_get_tcp_payload :: "dp_packet \<Rightarrow> int option" where
  "dp_packet_get_tcp_payload b =
     (let l4_size = dp_packet_l4_size b
      in if l4_size \<ge> of_nat TCP_HEADER_LEN
         then (case packet_tcp b of
                 Some tcp \<Rightarrow>
                   let tcp_len = TCP_OFFSET (tcp_ctl tcp) * 4
                   in if tcp_len \<ge> int TCP_HEADER_LEN \<and> tcp_len \<le> uint l4_size then Some tcp_len else None
               | None \<Rightarrow> None)
         else None)"

definition dp_packet_get_tcp_payload_length :: "dp_packet \<Rightarrow> uint32_t" where
  "dp_packet_get_tcp_payload_length pkt =
     (case dp_packet_get_tcp_payload pkt of
        Some payload \<Rightarrow>
          word_of_int (int (length (pk_data pkt)) - uint (pk_l2_pad_size pkt) - (uint (pk_l4_ofs pkt) + payload))
      | None \<Rightarrow> 0)"

subsection \<open>States\<close>

datatype ct_dpif_tcp_state =
    CT_DPIF_TCPS_CLOSED | CT_DPIF_TCPS_LISTEN | CT_DPIF_TCPS_SYN_SENT | CT_DPIF_TCPS_SYN_RECV
  | CT_DPIF_TCPS_ESTABLISHED | CT_DPIF_TCPS_CLOSE_WAIT | CT_DPIF_TCPS_FIN_WAIT_1 | CT_DPIF_TCPS_CLOSING
  | CT_DPIF_TCPS_LAST_ACK | CT_DPIF_TCPS_FIN_WAIT_2 | CT_DPIF_TCPS_TIME_WAIT | CT_DPIF_TCPS_MAX_NUM

text \<open>The code compares states as integers: the order of the enumeration.\<close>

fun tcps_rank :: "ct_dpif_tcp_state \<Rightarrow> nat" where
  "tcps_rank CT_DPIF_TCPS_CLOSED = 0"
| "tcps_rank CT_DPIF_TCPS_LISTEN = 1"
| "tcps_rank CT_DPIF_TCPS_SYN_SENT = 2"
| "tcps_rank CT_DPIF_TCPS_SYN_RECV = 3"
| "tcps_rank CT_DPIF_TCPS_ESTABLISHED = 4"
| "tcps_rank CT_DPIF_TCPS_CLOSE_WAIT = 5"
| "tcps_rank CT_DPIF_TCPS_FIN_WAIT_1 = 6"
| "tcps_rank CT_DPIF_TCPS_CLOSING = 7"
| "tcps_rank CT_DPIF_TCPS_LAST_ACK = 8"
| "tcps_rank CT_DPIF_TCPS_FIN_WAIT_2 = 9"
| "tcps_rank CT_DPIF_TCPS_TIME_WAIT = 10"
| "tcps_rank CT_DPIF_TCPS_MAX_NUM = 11"

lemma tcps_rank_inj: "tcps_rank a = tcps_rank b \<Longrightarrow> a = b"
  by (cases a; cases b) simp_all

instantiation ct_dpif_tcp_state :: linorder
begin

definition less_eq_tcp_state_def: "a \<le> b \<longleftrightarrow> tcps_rank a \<le> tcps_rank b"

definition less_tcp_state_def: "a < b \<longleftrightarrow> tcps_rank a < tcps_rank b"

instance
  by standard (auto simp: less_eq_tcp_state_def less_tcp_state_def intro: tcps_rank_inj)

end

lemmas tcps_order = less_eq_tcp_state_def less_tcp_state_def

record tcp_peer =
  pe_seqlo :: uint32_t
  pe_seqhi :: uint32_t
  pe_max_win :: uint16_t
  pe_wscale :: uint8_t
  pe_state :: ct_dpif_tcp_state

record conn_tcp =
  ctc_up :: conn
  ctc_peer0 :: tcp_peer
  ctc_peer1 :: tcp_peer

text \<open>Comparison of sequence numbers modulo \<open>2 ^ 32\<close>, by the sign of their difference.\<close>

definition SEQ_GT :: "uint32_t \<Rightarrow> uint32_t \<Rightarrow> bool" where
  "SEQ_GT a b \<longleftrightarrow> sint (a - b) > 0"

definition SEQ_GEQ :: "uint32_t \<Rightarrow> uint32_t \<Rightarrow> bool" where
  "SEQ_GEQ a b \<longleftrightarrow> sint (a - b) \<ge> 0"

subsection \<open>Flags and options\<close>

definition tcp_invalid_flags :: "uint16_t \<Rightarrow> bool" where
  "tcp_invalid_flags flags =
     (if flags AND TCP_SYN \<noteq> 0 \<and> (flags AND TCP_RST \<noteq> 0 \<or> flags AND TCP_FIN \<noteq> 0) then True
      else if flags AND TCP_SYN = 0 \<and> flags AND (TCP_ACK OR TCP_RST) = 0 then True
      else if flags AND TCP_ACK = 0
              \<and> (flags AND TCP_FIN \<noteq> 0 \<or> flags AND TCP_PSH \<noteq> 0 \<or> flags AND TCP_URG \<noteq> 0) then True
      else False)"

definition TCP_MAX_WSCALE :: uint8_t where "TCP_MAX_WSCALE = 14"
definition CT_WSCALE_FLAG :: uint8_t where "CT_WSCALE_FLAG = 0x80"
definition CT_WSCALE_UNKNOWN :: uint8_t where "CT_WSCALE_UNKNOWN = 0x40"
definition CT_WSCALE_MASK :: uint8_t where "CT_WSCALE_MASK = 0xf"

lemmas wscale_defs = TCP_MAX_WSCALE_def CT_WSCALE_FLAG_def CT_WSCALE_UNKNOWN_def CT_WSCALE_MASK_def

definition TCPOPT_EOL :: uint8_t where "TCPOPT_EOL = 0"
definition TCPOPT_NOP :: uint8_t where "TCPOPT_NOP = 1"
definition TCPOPT_WINDOW :: uint8_t where "TCPOPT_WINDOW = 3"

definition byte_at :: "uint8_t list \<Rightarrow> nat \<Rightarrow> uint8_t option" where
  "byte_at bs i = (if i < length bs then Some (bs ! i) else None)"

text \<open>The loop over the options; \<open>opt\<close> are the bytes from the current option on.\<close>

function tcp_wscale_loop :: "uint8_t list \<Rightarrow> int \<Rightarrow> uint8_t \<Rightarrow> uint8_t option" where
  "tcp_wscale_loop opt len wscale =
     (if len \<ge> 3
      then Option.bind (byte_at opt 0) (\<lambda>kind.
             if kind = TCPOPT_EOL then Some wscale
             else if kind = TCPOPT_NOP then tcp_wscale_loop (drop 1 opt) (len - 1) wscale
             else Option.bind
                    (if kind = TCPOPT_WINDOW
                     then map_option (\<lambda>b. min b TCP_MAX_WSCALE OR CT_WSCALE_FLAG) (byte_at opt 2)
                     else Some wscale) (\<lambda>wscale.
                  Option.bind (byte_at opt 1) (\<lambda>optlen.
                    let optlen = (if optlen < 2 then 2 else optlen)
                    in tcp_wscale_loop (drop (unat optlen) opt) (len - uint optlen) wscale)))
      else Some wscale)"
  by pat_completeness auto
termination
proof (relation "measure (\<lambda>(opt, len, wscale). nat len)", goal_cases)
  case (3 opt len wscale kind wscale' optlen optlen')
  have "2 \<le> optlen'" using 3 by (auto simp: not_less split: if_splits)
  then have "uint (2 :: uint8_t) \<le> uint optlen'" by (simp only: word_le_def)
  then show ?case using 3 by simp
qed auto

declare tcp_wscale_loop.simps [simp del]

definition tcp_get_wscale :: "tcp_header \<Rightarrow> uint8_t option" where
  "tcp_get_wscale tcp = tcp_wscale_loop (tcp_options tcp) (TCP_OFFSET (tcp_ctl tcp) * 4 - int TCP_HEADER_LEN) 0"

definition tcp_bypass_seq_chk :: "conntrack \<Rightarrow> bool" where
  "tcp_bypass_seq_chk ct = (\<not> ct_tcp_seq_chk ct)"

subsection \<open>Updating a connection\<close>

text \<open>The peer that sent the packet and the peer that should receive it.\<close>

definition tcp_src :: "bool \<Rightarrow> conn_tcp \<Rightarrow> tcp_peer" where
  "tcp_src reply conn = (if reply then ctc_peer1 conn else ctc_peer0 conn)"

definition tcp_dst :: "bool \<Rightarrow> conn_tcp \<Rightarrow> tcp_peer" where
  "tcp_dst reply conn = (if reply then ctc_peer0 conn else ctc_peer1 conn)"

definition set_peers :: "bool \<Rightarrow> tcp_peer \<Rightarrow> tcp_peer \<Rightarrow> conn_tcp \<Rightarrow> conn_tcp" where
  "set_peers reply src dst conn =
     (if reply then conn\<lparr>ctc_peer1 := src, ctc_peer0 := dst\<rparr> else conn\<lparr>ctc_peer0 := src, ctc_peer1 := dst\<rparr>)"

text \<open>The scaling factor in a \<open>wscale\<close> member.\<close>

definition wscale_factor :: "uint8_t \<Rightarrow> nat" where
  "wscale_factor wscale = unat (wscale AND CT_WSCALE_MASK)"

text \<open>A window shifted as an \<open>int\<close>; the result is less than \<open>2 ^ 31\<close> for factors up to 15.\<close>

definition win_shift :: "uint16_t \<Rightarrow> nat \<Rightarrow> uint32_t" where
  "win_shift win n = push_bit n (ucast win)"

definition unscale_win :: "uint16_t \<Rightarrow> nat \<Rightarrow> uint16_t" where
  "unscale_win win sws = ucast ((ucast win + (push_bit sws 1 - 1)) div push_bit sws 1 :: uint32_t)"

definition MAXACKWINDOW :: int where
  "MAXACKWINDOW = 0xffff + 1500"

definition tcp_scales :: "tcp_peer \<Rightarrow> tcp_peer \<Rightarrow> uint16_t \<Rightarrow> nat \<times> nat" where
  "tcp_scales src dst flags =
     (if pe_wscale src AND CT_WSCALE_FLAG \<noteq> 0 \<and> pe_wscale dst AND CT_WSCALE_FLAG \<noteq> 0 \<and> flags AND TCP_SYN = 0
      then (wscale_factor (pe_wscale src), wscale_factor (pe_wscale dst))
      else if pe_wscale src AND CT_WSCALE_UNKNOWN \<noteq> 0 \<and> pe_wscale dst AND CT_WSCALE_UNKNOWN \<noteq> 0
              \<and> flags AND TCP_SYN = 0
      then (unat TCP_MAX_WSCALE, unat TCP_MAX_WSCALE)
      else (0, 0))"

text \<open>The local variables of \<open>tcp_conn_update\<close> that the treatment of a first packet changes.\<close>

record tcp_vars =
  tv_src :: tcp_peer
  tv_dst :: tcp_peer
  tv_win :: uint16_t
  tv_sws :: nat
  tv_dws :: nat

text \<open>The scaling options of a first packet with SYN.\<close>

definition tcp_first_scale :: "tcp_header \<Rightarrow> tcp_vars \<Rightarrow> tcp_vars option" where
  "tcp_first_scale tcp v =
     (if pe_wscale (tv_dst v) AND CT_WSCALE_FLAG \<noteq> 0
      then Option.bind (tcp_get_wscale tcp) (\<lambda>wscale.
             let v = v\<lparr>tv_src := (tv_src v)\<lparr>pe_wscale := wscale\<rparr>\<rparr>
             in Some (if wscale AND CT_WSCALE_FLAG \<noteq> 0
                  then v\<lparr>tv_sws := wscale_factor wscale, tv_win := unscale_win (tv_win v) (wscale_factor wscale),
                         tv_dws := wscale_factor (pe_wscale (tv_dst v))\<rparr>
                  else v\<lparr>tv_dst := (tv_dst v)
                           \<lparr>pe_max_win := push_bit (wscale_factor (pe_wscale (tv_dst v))) (pe_max_win (tv_dst v)),
                            pe_wscale := 0\<rparr>\<rparr>))
      else Some v)"

definition tcp_end :: "uint32_t \<Rightarrow> uint32_t \<Rightarrow> uint16_t \<Rightarrow> uint32_t" where
  "tcp_end seq p_len flags =
     seq + p_len + (if flags AND TCP_SYN \<noteq> 0 then 1 else 0) + (if flags AND TCP_FIN \<noteq> 0 then 1 else 0)"

text \<open>The first packet of an end: the new variables and \<open>check_ackskew\<close>.\<close>

definition tcp_first_packet ::
  "tcp_header \<Rightarrow> uint16_t \<Rightarrow> uint32_t \<Rightarrow> uint32_t \<Rightarrow> tcp_vars \<Rightarrow> (tcp_vars \<times> bool) option" where
  "tcp_first_packet tcp flags seq end_seq v =
     Option.bind (if flags AND TCP_SYN \<noteq> 0 then tcp_first_scale tcp v else Some v) (\<lambda>v.
       let src = (tv_src v)\<lparr>pe_seqlo := seq, pe_state := CT_DPIF_TCPS_SYN_SENT\<rparr>;
           hi = end_seq + max 1 (win_shift (pe_max_win (tv_dst v)) (tv_dws v));
           slide = (pe_seqhi src = 1 \<or> SEQ_GEQ hi (pe_seqhi src));
           src = (if slide then src\<lparr>pe_seqhi := hi\<rparr> else src);
           src = (if tv_win v > pe_max_win src then src\<lparr>pe_max_win := tv_win v\<rparr> else src)
       in Some (v\<lparr>tv_src := src\<rparr>, \<not> slide))"

definition tcp_fix_ack :: "uint16_t \<Rightarrow> uint32_t \<Rightarrow> tcp_peer \<Rightarrow> uint32_t" where
  "tcp_fix_ack flags ack dst =
     (if flags AND TCP_ACK = 0 then pe_seqlo dst
      else if ack = 0 \<and> flags AND (TCP_ACK OR TCP_RST) = TCP_ACK OR TCP_RST then pe_seqlo dst
      else ack)"

definition tcp_in_window ::
  "uint16_t \<Rightarrow> uint32_t \<Rightarrow> uint32_t \<Rightarrow> uint32_t \<Rightarrow> int \<Rightarrow> tcp_vars \<Rightarrow> bool" where
  "tcp_in_window flags orig_seq seq end_seq ackskew v \<longleftrightarrow>
     SEQ_GEQ (pe_seqhi (tv_src v)) end_seq
     \<and> SEQ_GEQ seq (pe_seqlo (tv_src v) - win_shift (pe_max_win (tv_dst v)) (tv_dws v))
     \<and> ackskew \<ge> - MAXACKWINDOW
     \<and> ackskew \<le> s32 (MAXACKWINDOW * 2 ^ tv_sws v)
     \<and> (flags AND TCP_RST = 0 \<or> orig_seq = pe_seqlo (tv_src v)
        \<or> orig_seq = pe_seqlo (tv_src v) + 1 \<or> orig_seq + 1 = pe_seqlo (tv_src v))"

text \<open>The three updates of windows and sequence numbers that both accepting branches make.\<close>

definition tcp_sync :: "uint32_t \<Rightarrow> uint32_t \<Rightarrow> tcp_vars \<Rightarrow> tcp_vars" where
  "tcp_sync end_seq ack v =
     (let src = tv_src v; dst = tv_dst v; win = tv_win v; shifted = win_shift win (tv_sws v);
          src = (if pe_max_win src < win then src\<lparr>pe_max_win := win\<rparr> else src);
          src = (if SEQ_GT end_seq (pe_seqlo src) then src\<lparr>pe_seqlo := end_seq\<rparr> else src);
          dst = (if SEQ_GEQ (ack + shifted) (pe_seqhi dst) then dst\<lparr>pe_seqhi := ack + max shifted 1\<rparr> else dst)
      in v\<lparr>tv_src := src, tv_dst := dst\<rparr>)"

definition tcp_states :: "uint16_t \<Rightarrow> tcp_vars \<Rightarrow> tcp_vars" where
  "tcp_states flags v =
     (let src = tv_src v; dst = tv_dst v;
          src = (if flags AND TCP_SYN \<noteq> 0 \<and> pe_state src < CT_DPIF_TCPS_SYN_SENT
                 then src\<lparr>pe_state := CT_DPIF_TCPS_SYN_SENT\<rparr> else src);
          src = (if flags AND TCP_FIN \<noteq> 0 \<and> pe_state src < CT_DPIF_TCPS_CLOSING
                 then src\<lparr>pe_state := CT_DPIF_TCPS_CLOSING\<rparr> else src);
          dst = (if flags AND TCP_ACK \<noteq> 0
                 then if pe_state dst = CT_DPIF_TCPS_SYN_SENT then dst\<lparr>pe_state := CT_DPIF_TCPS_ESTABLISHED\<rparr>
                      else if pe_state dst = CT_DPIF_TCPS_CLOSING then dst\<lparr>pe_state := CT_DPIF_TCPS_FIN_WAIT_2\<rparr>
                      else dst
                 else dst);
          rst = (flags AND TCP_RST \<noteq> 0);
          src = (if rst then src\<lparr>pe_state := CT_DPIF_TCPS_TIME_WAIT\<rparr> else src);
          dst = (if rst then dst\<lparr>pe_state := CT_DPIF_TCPS_TIME_WAIT\<rparr> else dst)
      in v\<lparr>tv_src := src, tv_dst := dst\<rparr>)"

definition tcp_timeout :: "ct_dpif_tcp_state \<Rightarrow> ct_dpif_tcp_state \<Rightarrow> ct_timeout" where
  "tcp_timeout src dst =
     (if src \<ge> CT_DPIF_TCPS_FIN_WAIT_2 \<and> dst \<ge> CT_DPIF_TCPS_FIN_WAIT_2 then CT_TM_TCP_CLOSED
      else if src \<ge> CT_DPIF_TCPS_CLOSING \<and> dst \<ge> CT_DPIF_TCPS_CLOSING then CT_TM_TCP_FIN_WAIT
      else if src < CT_DPIF_TCPS_ESTABLISHED \<or> dst < CT_DPIF_TCPS_ESTABLISHED then CT_TM_TCP_OPENING
      else if src \<ge> CT_DPIF_TCPS_CLOSING \<or> dst \<ge> CT_DPIF_TCPS_CLOSING then CT_TM_TCP_CLOSING
      else CT_TM_TCP_ESTABLISHED)"

text \<open>The states after a packet that is accepted only because the connection opens or closes.\<close>

definition tcp_loose_states :: "uint16_t \<Rightarrow> tcp_vars \<Rightarrow> tcp_vars" where
  "tcp_loose_states flags v =
     (let src = tv_src v; dst = tv_dst v;
          src = (if flags AND TCP_FIN \<noteq> 0 \<and> pe_state src < CT_DPIF_TCPS_CLOSING
                 then src\<lparr>pe_state := CT_DPIF_TCPS_CLOSING\<rparr> else src);
          rst = (flags AND TCP_RST \<noteq> 0);
          src = (if rst then src\<lparr>pe_state := CT_DPIF_TCPS_TIME_WAIT\<rparr> else src);
          dst = (if rst then dst\<lparr>pe_state := CT_DPIF_TCPS_TIME_WAIT\<rparr> else dst)
      in v\<lparr>tv_src := src, tv_dst := dst\<rparr>)"

definition tcp_loose_window :: "uint32_t \<Rightarrow> uint32_t \<Rightarrow> tcp_vars \<Rightarrow> bool" where
  "tcp_loose_window seq end_seq v \<longleftrightarrow>
     (pe_state (tv_dst v) < CT_DPIF_TCPS_SYN_SENT \<or> pe_state (tv_dst v) \<ge> CT_DPIF_TCPS_FIN_WAIT_2
      \<or> pe_state (tv_src v) \<ge> CT_DPIF_TCPS_FIN_WAIT_2)
     \<and> SEQ_GEQ (pe_seqhi (tv_src v) + word_of_int MAXACKWINDOW) end_seq
     \<and> SEQ_GEQ seq (pe_seqlo (tv_src v) - word_of_int MAXACKWINDOW)"

text \<open>The sequence tracking, from the comment on the algorithm to the end of the function.\<close>

definition tcp_track ::
  "conntrack \<Rightarrow> conn_tcp \<Rightarrow> tcp_header \<Rightarrow> uint32_t \<Rightarrow> bool \<Rightarrow> int \<Rightarrow> (ct_update_res \<times> conn_tcp) option" where
  "tcp_track ct conn tcp p_len reply now =
     (let flags = TCP_FLAGS (tcp_ctl tcp);
          src = tcp_src reply conn; dst = tcp_dst reply conn;
          (sws, dws) = tcp_scales src dst flags;
          orig_seq = tcp_seq tcp;
          end_seq = tcp_end orig_seq p_len flags;
          v = \<lparr>tv_src = src, tv_dst = dst, tv_win = tcp_winsz tcp, tv_sws = sws, tv_dws = dws\<rparr>
      in Option.bind
           (if pe_state src < CT_DPIF_TCPS_SYN_SENT then tcp_first_packet tcp flags orig_seq end_seq v
            else Some (v, True)) (\<lambda>(v, check_ackskew).
         let ack = tcp_fix_ack flags (tcp_ack tcp) (tv_dst v);
             (seq, end_seq) = (if orig_seq = end_seq then (pe_seqlo (tv_src v), pe_seqlo (tv_src v)) else (orig_seq, end_seq));
             ackskew = (if check_ackskew then sint (pe_seqlo (tv_dst v) - ack) else 0)
         in Some
              (if tcp_in_window flags orig_seq seq end_seq ackskew v \<or> tcp_bypass_seq_chk ct
               then let v = tcp_states flags (tcp_sync end_seq ack v);
                        conn = set_peers reply (tv_src v) (tv_dst v) conn;
                        tm = tcp_timeout (pe_state (tv_src v)) (pe_state (tv_dst v))
                    in (CT_UPDATE_VALID, conn\<lparr>ctc_up := conn_update_expiration ct (ctc_up conn) tm now\<rparr>)
               else if tcp_loose_window seq end_seq v
               then let v = tcp_loose_states flags (tcp_sync end_seq ack v)
                    in (CT_UPDATE_VALID, set_peers reply (tv_src v) (tv_dst v) conn)
               else (CT_UPDATE_INVALID, set_peers reply (tv_src v) (tv_dst v) conn))))"

definition tcp_conn_update ::
  "conntrack \<Rightarrow> conn_tcp \<Rightarrow> dp_packet \<Rightarrow> bool \<Rightarrow> int \<Rightarrow> (ct_update_res \<times> conn_tcp) option" where
  "tcp_conn_update ct conn pkt reply now =
     Option.bind (packet_tcp pkt) (\<lambda>tcp.
       let src = tcp_src reply conn; dst = tcp_dst reply conn;
           flags = TCP_FLAGS (tcp_ctl tcp);
           p_len = dp_packet_get_tcp_payload_length pkt;
           syn = (flags AND (TCP_SYN OR TCP_ACK) = TCP_SYN)
       in if tcp_invalid_flags flags then Some (CT_UPDATE_INVALID, conn)
          else if syn \<and> pe_state dst \<ge> CT_DPIF_TCPS_FIN_WAIT_2 \<and> pe_state src \<ge> CT_DPIF_TCPS_FIN_WAIT_2
          then Some (CT_UPDATE_NEW, set_peers reply (src\<lparr>pe_state := CT_DPIF_TCPS_CLOSED\<rparr>)
                                      (dst\<lparr>pe_state := CT_DPIF_TCPS_CLOSED\<rparr>) conn)
          else if syn \<and> pe_state src \<le> CT_DPIF_TCPS_SYN_SENT
          then let conn = set_peers reply (src\<lparr>pe_state := CT_DPIF_TCPS_SYN_SENT\<rparr>) dst conn
               in Some (CT_UPDATE_VALID_NEW,
                    conn\<lparr>ctc_up := conn_update_expiration ct (ctc_up conn) CT_TM_TCP_FIRST_PACKET now\<rparr>)
          else tcp_track ct conn tcp p_len reply now)"

subsection \<open>New connections\<close>

definition tcp_valid_new :: "dp_packet \<Rightarrow> bool option" where
  "tcp_valid_new pkt =
     Option.bind (packet_tcp pkt) (\<lambda>tcp.
       let flags = TCP_FLAGS (tcp_ctl tcp)
       in Some (if tcp_invalid_flags flags then False
                else if flags AND TCP_SYN \<noteq> 0 \<and> flags AND TCP_ACK \<noteq> 0 then False
                else True))"

definition tcp_new_conn :: "conntrack \<Rightarrow> dp_packet \<Rightarrow> int \<Rightarrow> uint32_t \<Rightarrow> conn_tcp option" where
  "tcp_new_conn ct pkt now i =
     Option.bind (packet_tcp pkt) (\<lambda>tcp.
       let flags = TCP_FLAGS (tcp_ctl tcp);
           seqlo = tcp_seq tcp;
           seqhi = seqlo + dp_packet_get_tcp_payload_length pkt + 1;
           seqhi = (if flags AND TCP_SYN \<noteq> 0 then seqhi + 1 else seqhi);
           seqhi = (if flags AND TCP_FIN \<noteq> 0 then seqhi + 1 else seqhi);
           dst_wscale = (if flags AND TCP_SYN \<noteq> 0 then 0 else CT_WSCALE_UNKNOWN)
       in Option.bind (if flags AND TCP_SYN \<noteq> 0 then tcp_get_wscale tcp else Some CT_WSCALE_UNKNOWN) (\<lambda>wscale.
            let max_win = max (tcp_winsz tcp) 1;
                max_win = (if wscale AND CT_WSCALE_MASK \<noteq> 0 then unscale_win max_win (wscale_factor wscale) else max_win);
                up = conn_init_expiration ct \<lparr>cn_tp_id = i, cn_expiration = 0\<rparr> CT_TM_TCP_FIRST_PACKET now
            in Some \<lparr>ctc_up = up,
                 ctc_peer0 = \<lparr>pe_seqlo = seqlo, pe_seqhi = seqhi, pe_max_win = max_win, pe_wscale = wscale,
                              pe_state = CT_DPIF_TCPS_SYN_SENT\<rparr>,
                 ctc_peer1 = \<lparr>pe_seqlo = 0, pe_seqhi = 1, pe_max_win = 1, pe_wscale = dst_wscale,
                              pe_state = CT_DPIF_TCPS_CLOSED\<rparr>\<rparr>))"

subsection \<open>Protocol information\<close>

definition CT_DPIF_TCPF_WINDOW_SCALE :: uint8_t where "CT_DPIF_TCPF_WINDOW_SCALE = 1"
definition CT_DPIF_TCPF_BE_LIBERAL :: uint8_t where "CT_DPIF_TCPF_BE_LIBERAL = 8"

definition tcp_peer_to_protoinfo_flags :: "tcp_peer \<Rightarrow> uint8_t" where
  "tcp_peer_to_protoinfo_flags peer =
     (let res = 0;
          res = (if pe_wscale peer AND CT_WSCALE_FLAG \<noteq> 0 then res OR CT_DPIF_TCPF_WINDOW_SCALE else res)
      in if pe_wscale peer AND CT_WSCALE_UNKNOWN \<noteq> 0 then res OR CT_DPIF_TCPF_BE_LIBERAL else res)"

record ct_dpif_protoinfo =
  pi_proto :: uint16_t
  pi_state_orig :: ct_dpif_tcp_state
  pi_state_reply :: ct_dpif_tcp_state
  pi_wscale_orig :: uint8_t
  pi_wscale_reply :: uint8_t
  pi_flags_orig :: uint8_t
  pi_flags_reply :: uint8_t

definition tcp_conn_get_protoinfo :: "conn_tcp \<Rightarrow> ct_dpif_protoinfo" where
  "tcp_conn_get_protoinfo conn =
     \<lparr>pi_proto = 6,
      pi_state_orig = pe_state (ctc_peer0 conn), pi_state_reply = pe_state (ctc_peer1 conn),
      pi_wscale_orig = pe_wscale (ctc_peer0 conn) AND CT_WSCALE_MASK,
      pi_wscale_reply = pe_wscale (ctc_peer1 conn) AND CT_WSCALE_MASK,
      pi_flags_orig = tcp_peer_to_protoinfo_flags (ctc_peer0 conn),
      pi_flags_reply = tcp_peer_to_protoinfo_flags (ctc_peer1 conn)\<rparr>"

end
