(* ===== verification/Conntrack_Proto.thy ===== *)
theory Conntrack_Proto
  imports Conntrack_Tcp
begin

text \<open>
  Tracking of ICMP and of all other protocols (\<open>lib/conntrack-icmp.c\<close>, \<open>lib/conntrack-other.c\<close>) and the
  choice of a protocol module (\<open>lib/conntrack.c\<close>).
\<close>

subsection \<open>ICMP\<close>

datatype icmp_state = ICMPS_FIRST | ICMPS_REPLY

record conn_icmp =
  ci_up :: conn
  ci_state :: icmp_state

fun icmp_timeouts :: "icmp_state \<Rightarrow> ct_timeout" where
  "icmp_timeouts ICMPS_FIRST = CT_TM_ICMP_FIRST"
| "icmp_timeouts ICMPS_REPLY = CT_TM_ICMP_REPLY"

definition icmp_conn_update :: "conntrack \<Rightarrow> conn_icmp \<Rightarrow> bool \<Rightarrow> int \<Rightarrow> ct_update_res \<times> conn_icmp" where
  "icmp_conn_update ct conn reply now =
     (let (ret, conn) = (if reply \<and> ci_state conn = ICMPS_FIRST
                         then (CT_UPDATE_VALID, conn\<lparr>ci_state := ICMPS_REPLY\<rparr>)
                         else if ci_state conn = ICMPS_FIRST then (CT_UPDATE_VALID_NEW, conn)
                         else (CT_UPDATE_VALID, conn))
      in (ret, conn\<lparr>ci_up := conn_update_expiration ct (ci_up conn) (icmp_timeouts (ci_state conn)) now\<rparr>))"

definition ICMP4_ECHO_REQUEST :: uint8_t where "ICMP4_ECHO_REQUEST = 8"
definition ICMP4_TIMESTAMP :: uint8_t where "ICMP4_TIMESTAMP = 13"
definition ICMP4_INFOREQUEST :: uint8_t where "ICMP4_INFOREQUEST = 15"
definition ICMP6_ECHO_REQUEST :: uint8_t where "ICMP6_ECHO_REQUEST = 128"

text \<open>The type is the first byte of both headers.\<close>

definition icmp4_valid_new :: "dp_packet \<Rightarrow> bool option" where
  "icmp4_valid_new pkt =
     Option.bind (dp_packet_l4 pkt) (\<lambda>icmp. Option.bind (byte_at icmp 0) (\<lambda>icmp_type.
       Some (icmp_type = ICMP4_ECHO_REQUEST \<or> icmp_type = ICMP4_INFOREQUEST \<or> icmp_type = ICMP4_TIMESTAMP)))"

definition icmp6_valid_new :: "dp_packet \<Rightarrow> bool option" where
  "icmp6_valid_new pkt =
     Option.bind (dp_packet_l4 pkt) (\<lambda>icmp6. Option.bind (byte_at icmp6 0) (\<lambda>icmp6_type.
       Some (icmp6_type = ICMP6_ECHO_REQUEST)))"

definition icmp_new_conn :: "conntrack \<Rightarrow> int \<Rightarrow> uint32_t \<Rightarrow> conn_icmp" where
  "icmp_new_conn ct now i =
     \<lparr>ci_up = conn_init_expiration ct \<lparr>cn_tp_id = i, cn_expiration = 0\<rparr> (icmp_timeouts ICMPS_FIRST) now,
      ci_state = ICMPS_FIRST\<rparr>"

subsection \<open>Other protocols\<close>

datatype other_state = OTHERS_FIRST | OTHERS_MULTIPLE | OTHERS_BIDIR

record conn_other =
  co_up :: conn
  co_state :: other_state

fun other_timeouts :: "other_state \<Rightarrow> ct_timeout" where
  "other_timeouts OTHERS_FIRST = CT_TM_OTHER_FIRST"
| "other_timeouts OTHERS_MULTIPLE = CT_TM_OTHER_MULTIPLE"
| "other_timeouts OTHERS_BIDIR = CT_TM_OTHER_BIDIR"

definition other_conn_update :: "conntrack \<Rightarrow> conn_other \<Rightarrow> bool \<Rightarrow> int \<Rightarrow> ct_update_res \<times> conn_other" where
  "other_conn_update ct conn reply now =
     (let conn = (if reply \<and> co_state conn \<noteq> OTHERS_BIDIR then conn\<lparr>co_state := OTHERS_BIDIR\<rparr>
                  else if co_state conn = OTHERS_FIRST then conn\<lparr>co_state := OTHERS_MULTIPLE\<rparr>
                  else conn);
          conn = conn\<lparr>co_up := conn_update_expiration ct (co_up conn) (other_timeouts (co_state conn)) now\<rparr>
      in (if co_state conn = OTHERS_BIDIR then CT_UPDATE_VALID else CT_UPDATE_VALID_NEW, conn))"

definition other_valid_new :: "dp_packet \<Rightarrow> bool" where
  "other_valid_new pkt = True"

definition other_new_conn :: "conntrack \<Rightarrow> int \<Rightarrow> uint32_t \<Rightarrow> conn_other" where
  "other_new_conn ct now i =
     \<lparr>co_up = conn_init_expiration ct \<lparr>cn_tp_id = i, cn_expiration = 0\<rparr> (other_timeouts OTHERS_FIRST) now,
      co_state = OTHERS_FIRST\<rparr>"

subsection \<open>Choice of the protocol\<close>

text \<open>The table of modules, and a connection as the module that created it sees it.\<close>

datatype ct_l4_proto = Ct_proto_tcp | Ct_proto_icmp4 | Ct_proto_icmp6 | Ct_proto_other

datatype l4_conn = ConnTcp conn_tcp | ConnIcmp conn_icmp | ConnOther conn_other

definition l4_protos :: "uint8_t \<Rightarrow> ct_l4_proto" where
  "l4_protos nw_proto =
     (if nw_proto = 6 then Ct_proto_tcp else if nw_proto = 1 then Ct_proto_icmp4
      else if nw_proto = 58 then Ct_proto_icmp6 else Ct_proto_other)"

definition valid_new :: "uint8_t \<Rightarrow> dp_packet \<Rightarrow> bool option" where
  "valid_new nw_proto pkt = (case l4_protos nw_proto of
     Ct_proto_tcp \<Rightarrow> tcp_valid_new pkt
   | Ct_proto_icmp4 \<Rightarrow> icmp4_valid_new pkt
   | Ct_proto_icmp6 \<Rightarrow> icmp6_valid_new pkt
   | Ct_proto_other \<Rightarrow> Some (other_valid_new pkt))"

definition new_conn :: "uint8_t \<Rightarrow> conntrack \<Rightarrow> dp_packet \<Rightarrow> int \<Rightarrow> uint32_t \<Rightarrow> l4_conn option" where
  "new_conn nw_proto ct pkt now i = (case l4_protos nw_proto of
     Ct_proto_tcp \<Rightarrow> map_option ConnTcp (tcp_new_conn ct pkt now i)
   | Ct_proto_icmp4 \<Rightarrow> Some (ConnIcmp (icmp_new_conn ct now i))
   | Ct_proto_icmp6 \<Rightarrow> Some (ConnIcmp (icmp_new_conn ct now i))
   | Ct_proto_other \<Rightarrow> Some (ConnOther (other_new_conn ct now i)))"

text \<open>A module called with a connection of another one would read foreign memory.\<close>

definition conn_update ::
  "uint8_t \<Rightarrow> conntrack \<Rightarrow> l4_conn \<Rightarrow> dp_packet \<Rightarrow> bool \<Rightarrow> int \<Rightarrow> (ct_update_res \<times> l4_conn) option" where
  "conn_update nw_proto ct conn pkt reply now = (case (l4_protos nw_proto, conn) of
     (Ct_proto_tcp, ConnTcp c) \<Rightarrow> map_option (\<lambda>(res, c). (res, ConnTcp c)) (tcp_conn_update ct c pkt reply now)
   | (Ct_proto_icmp4, ConnIcmp c) \<Rightarrow> Some (map_prod id ConnIcmp (icmp_conn_update ct c reply now))
   | (Ct_proto_icmp6, ConnIcmp c) \<Rightarrow> Some (map_prod id ConnIcmp (icmp_conn_update ct c reply now))
   | (Ct_proto_other, ConnOther c) \<Rightarrow> Some (map_prod id ConnOther (other_conn_update ct c reply now))
   | _ \<Rightarrow> None)"

end
