(* ===== verification/Conntrack_Props.thy ===== *)
theory Conntrack_Props
  imports Conntrack_Proto
begin

text \<open>
  Correctness of connection tracking: the contract of a protocol module as a locale with its client's
  facts on the life of a connection, and the facts on TCP windows and states.
\<close>

subsection \<open>The contract of a protocol module\<close>

text \<open>A timeout in milliseconds.\<close>

definition timeout_ms :: "conntrack \<Rightarrow> uint32_t \<Rightarrow> ct_timeout \<Rightarrow> int" where
  "timeout_ms ct i tm = uint (tp_timeout ct i tm * 1000)"

fun track :: "('c \<Rightarrow> dp_packet \<Rightarrow> bool \<Rightarrow> int \<Rightarrow> (ct_update_res \<times> 'c) option) \<Rightarrow>
    (dp_packet \<times> bool \<times> int) list \<Rightarrow> 'c \<Rightarrow> 'c option" where
  "track upd [] c = Some c"
| "track upd ((pkt, reply, now) # ps) c = Option.bind (upd c pkt reply now) (\<lambda>(res, c). track upd ps c)"

locale l4_module =
  fixes new :: "conntrack \<Rightarrow> dp_packet \<Rightarrow> int \<Rightarrow> uint32_t \<Rightarrow> 'c option"
    and upd :: "conntrack \<Rightarrow> 'c \<Rightarrow> dp_packet \<Rightarrow> bool \<Rightarrow> int \<Rightarrow> (ct_update_res \<times> 'c) option"
    and up :: "'c \<Rightarrow> conn"
    and ok :: "dp_packet \<Rightarrow> bool"
    and inv :: "'c \<Rightarrow> bool"
  assumes new_ok: "ok pkt \<Longrightarrow> \<exists>c. new ct pkt now i = Some c \<and> inv c \<and> cn_tp_id (up c) = i \<and>
      (\<exists>tm. cn_expiration (up c) = now + timeout_ms ct i tm)"
    and upd_ok: "ok pkt \<Longrightarrow> inv c \<Longrightarrow> \<exists>res c'. upd ct c pkt reply now = Some (res, c') \<and> inv c' \<and>
      cn_tp_id (up c') = cn_tp_id (up c) \<and>
      (cn_expiration (up c') = cn_expiration (up c) \<or>
       (\<exists>tm. cn_expiration (up c') = now + timeout_ms ct (cn_tp_id (up c)) tm))"
begin

lemma track_expires:
  assumes "inv c" and "list_all (\<lambda>(pkt, reply, now). ok pkt \<and> now \<le> t) ps"
    and "cn_expiration (up c) \<le> t + b" and "\<forall>tm. timeout_ms ct (cn_tp_id (up c)) tm \<le> b"
  shows "\<exists>c'. track (upd ct) ps c = Some c' \<and> inv c' \<and> cn_expiration (up c') \<le> t + b"
  using assms
proof (induction ps arbitrary: c)
  case (Cons p ps)
  obtain pkt reply now where p: "p = (pkt, reply, now)" by (cases p)
  have pk: "ok pkt" "now \<le> t" using Cons.prems(2) p by auto
  obtain res c' where c': "upd ct c pkt reply now = Some (res, c')" "inv c'" "cn_tp_id (up c') = cn_tp_id (up c)"
    "cn_expiration (up c') = cn_expiration (up c) \<or>
       (\<exists>tm. cn_expiration (up c') = now + timeout_ms ct (cn_tp_id (up c)) tm)"
    using upd_ok[OF pk(1) Cons.prems(1)] by metis
  have "cn_expiration (up c') \<le> t + b"
    using c'(4)
  proof
    assume "\<exists>tm. cn_expiration (up c') = now + timeout_ms ct (cn_tp_id (up c)) tm"
    then obtain tm where "cn_expiration (up c') = now + timeout_ms ct (cn_tp_id (up c)) tm" ..
    moreover have "timeout_ms ct (cn_tp_id (up c)) tm \<le> b" using Cons.prems(4) by simp
    ultimately show ?thesis using pk(2) by simp
  qed (use Cons.prems(3) in simp)
  from Cons.IH[OF c'(2) _ this] show ?case using Cons.prems(2,4) c'(1,3) p by simp
qed simp

lemma tracked_expires:
  assumes "ok pkt" and "start \<le> t" and "list_all (\<lambda>(pkt, reply, now). ok pkt \<and> now \<le> t) ps"
    and "\<forall>tm. timeout_ms ct i tm \<le> b"
  shows "\<exists>c c'. new ct pkt start i = Some c \<and> track (upd ct) ps c = Some c' \<and> conn_expired (up c') (t + b)"
proof -
  obtain c tm where c: "new ct pkt start i = Some c" "inv c" "cn_tp_id (up c) = i"
    "cn_expiration (up c) = start + timeout_ms ct i tm" using new_ok[OF assms(1)] by metis
  have "timeout_ms ct i tm \<le> b" using assms(4) by simp
  then have "cn_expiration (up c) \<le> t + b" using c(4) assms(2) by simp
  with track_expires[OF c(2) assms(3)] c(3) assms(4)
  obtain c' where "track (upd ct) ps c = Some c'" "cn_expiration (up c') \<le> t + b" by blast
  then show ?thesis using c(1) by (simp add: conn_expired_def)
qed

end

subsection \<open>ICMP and other protocols\<close>

lemma expiration_simps [simp]:
  "cn_tp_id (conn_update_expiration ct c tm now) = cn_tp_id c"
  "cn_tp_id (conn_init_expiration ct c tm now) = cn_tp_id c"
  "cn_expiration (conn_update_expiration ct c tm now) = now + timeout_ms ct (cn_tp_id c) tm"
  "cn_expiration (conn_init_expiration ct c tm now) = now + timeout_ms ct (cn_tp_id c) tm"
  by (simp_all add: conn_update_expiration_def conn_init_expiration_def timeout_ms_def Let_def)

interpretation icmp: l4_module "\<lambda>ct pkt now i. Some (icmp_new_conn ct now i)"
  "\<lambda>ct c pkt reply now. Some (icmp_conn_update ct c reply now)" ci_up "\<lambda>pkt. True" "\<lambda>c. True"
  by unfold_locales (auto simp: icmp_new_conn_def icmp_conn_update_def)

interpretation other: l4_module "\<lambda>ct pkt now i. Some (other_new_conn ct now i)"
  "\<lambda>ct c pkt reply now. Some (other_conn_update ct c reply now)" co_up "\<lambda>pkt. True" "\<lambda>c. True"
  by unfold_locales (auto simp: other_new_conn_def other_conn_update_def Let_def)

subsection \<open>Window scaling\<close>

text \<open>A scale member whose factor is at most 14, so that every shift stays in range.\<close>

definition wscale_ok :: "uint8_t \<Rightarrow> bool" where
  "wscale_ok w \<longleftrightarrow> w AND CT_WSCALE_MASK \<le> TCP_MAX_WSCALE"

lemma wscale_ok_option: "wscale_ok (min b TCP_MAX_WSCALE OR CT_WSCALE_FLAG)"
proof -
  let ?m = "min b TCP_MAX_WSCALE"
  have "(?m OR CT_WSCALE_FLAG) AND CT_WSCALE_MASK = ?m AND CT_WSCALE_MASK"
    by (simp add: bit.conj_disj_distrib2 CT_WSCALE_FLAG_def CT_WSCALE_MASK_def)
  also have "\<dots> \<le> ?m" by (rule word_and_le2)
  also have "\<dots> \<le> TCP_MAX_WSCALE" by simp
  finally show ?thesis unfolding wscale_ok_def .
qed

lemma wscale_loop_ok:
  assumes "len \<le> int (length opt)" and "wscale_ok wscale"
  shows "\<exists>w. tcp_wscale_loop opt len wscale = Some w \<and> wscale_ok w"
  using assms
proof (induction opt len wscale rule: tcp_wscale_loop.induct)
  case (1 opt len wscale)
  show ?case
  proof (cases "len \<ge> 3")
    case True
    then have b: "byte_at opt 0 = Some (opt ! 0)" "byte_at opt 1 = Some (opt ! 1)" "byte_at opt 2 = Some (opt ! 2)"
      using 1(3) by (auto simp: byte_at_def)
    consider "opt ! 0 = TCPOPT_EOL" | "opt ! 0 \<noteq> TCPOPT_EOL" "opt ! 0 = TCPOPT_NOP"
      | "opt ! 0 \<noteq> TCPOPT_EOL" "opt ! 0 \<noteq> TCPOPT_NOP" by blast
    then show ?thesis
    proof cases
      case 1
      then show ?thesis using True b "1.prems" by (subst tcp_wscale_loop.simps) simp
    next
      case 2
      then have "\<exists>w. tcp_wscale_loop (drop 1 opt) (len - 1) wscale = Some w \<and> wscale_ok w"
        using "1.IH"(1)[OF True b(1)] "1.prems" True by auto
      then show ?thesis using True b 2 by (subst tcp_wscale_loop.simps) simp
    next
      case 3
      define w' where "w' = (if opt ! 0 = TCPOPT_WINDOW then min (opt ! 2) TCP_MAX_WSCALE OR CT_WSCALE_FLAG else wscale)"
      define n where "n = (if opt ! 1 < 2 then 2 else opt ! 1)"
      have w': "wscale_ok w'" using wscale_ok_option "1.prems"(2) by (simp add: w'_def)
      have wopt: "(if opt ! 0 = TCPOPT_WINDOW
          then map_option (\<lambda>b. min b TCP_MAX_WSCALE OR CT_WSCALE_FLAG) (byte_at opt 2) else Some wscale) = Some w'"
        by (simp add: b w'_def)
      have "int (length opt) - int (unat n) \<le> int (length opt - unat n)" by linarith
      then have len: "len - uint n \<le> int (length (drop (unat n) opt))" using "1.prems"(1) by simp
      have "\<exists>w. tcp_wscale_loop (drop (unat n) opt) (len - uint n) w' = Some w \<and> wscale_ok w"
        using "1.IH"(2)[OF True b(1) 3 wopt b(2) n_def len w'] .
      moreover have "tcp_wscale_loop opt len wscale = tcp_wscale_loop (drop (unat n) opt) (len - uint n) w'"
        by (subst tcp_wscale_loop.simps) (simp only: True b(1,2) 3 wopt n_def if_True if_False bind.bind_lunit Let_def)
      ultimately show ?thesis by simp
    qed
  qed (use 1 in \<open>subst tcp_wscale_loop.simps, simp\<close>)
qed

subsection \<open>TCP packets and peers\<close>

text \<open>A packet whose transport header is complete, as the tracker checks before it calls a module.\<close>

definition tcp_packet_ok :: "dp_packet \<Rightarrow> bool" where
  "tcp_packet_ok pkt = (case dp_packet_l4 pkt of
     None \<Rightarrow> False
   | Some bs \<Rightarrow> length bs \<ge> TCP_HEADER_LEN \<and>
       (case tcp_header_at bs of None \<Rightarrow> False | Some tcp \<Rightarrow> TCP_OFFSET (tcp_ctl tcp) * 4 \<le> int (length bs)))"

lemma tcp_packet_header:
  assumes "tcp_packet_ok pkt"
  obtains tcp w where "packet_tcp pkt = Some tcp" "tcp_get_wscale tcp = Some w" "wscale_ok w"
proof -
  obtain bs tcp where bs: "dp_packet_l4 pkt = Some bs" "tcp_header_at bs = Some tcp" "length bs \<ge> TCP_HEADER_LEN"
    "TCP_OFFSET (tcp_ctl tcp) * 4 \<le> int (length bs)"
    using assms by (auto simp: tcp_packet_ok_def split: option.splits)
  have "tcp_options tcp = drop TCP_HEADER_LEN bs" using bs(2,3) by (auto simp: tcp_header_at_def)
  then have "TCP_OFFSET (tcp_ctl tcp) * 4 - int TCP_HEADER_LEN \<le> int (length (tcp_options tcp))" using bs(3,4) by simp
  moreover have "wscale_ok 0" by (simp add: wscale_ok_def wscale_defs)
  ultimately obtain w where "tcp_get_wscale tcp = Some w" "wscale_ok w"
    unfolding tcp_get_wscale_def using wscale_loop_ok by blast
  with that bs(1,2) show ?thesis by (simp add: packet_tcp_def)
qed

definition peer_ok :: "tcp_peer \<Rightarrow> bool" where
  "peer_ok p \<longleftrightarrow> wscale_ok (pe_wscale p) \<and> pe_state p \<le> CT_DPIF_TCPS_TIME_WAIT"

definition conn_tcp_ok :: "conn_tcp \<Rightarrow> bool" where
  "conn_tcp_ok c \<longleftrightarrow> peer_ok (ctc_peer0 c) \<and> peer_ok (ctc_peer1 c)"

lemma conn_tcp_ok_peers: "conn_tcp_ok c \<longleftrightarrow> peer_ok (tcp_src reply c) \<and> peer_ok (tcp_dst reply c)"
  by (auto simp: conn_tcp_ok_def tcp_src_def tcp_dst_def)

lemma set_peers_simps [simp]:
  "tcp_src reply (set_peers reply s d c) = s" "tcp_dst reply (set_peers reply s d c) = d"
  "ctc_up (set_peers reply s d c) = ctc_up c"
  "set_peers reply (tcp_src reply c) (tcp_dst reply c) c = c"
  by (simp_all add: set_peers_def tcp_src_def tcp_dst_def)

lemma up_peers [simp]:
  "tcp_src reply (c\<lparr>ctc_up := u\<rparr>) = tcp_src reply c" "tcp_dst reply (c\<lparr>ctc_up := u\<rparr>) = tcp_dst reply c"
  by (simp_all add: tcp_src_def tcp_dst_def)

text \<open>What the stages of an update do to the scales and the states of both peers.\<close>

definition stage_ok :: "tcp_vars \<Rightarrow> tcp_vars \<Rightarrow> bool" where
  "stage_ok v v' \<longleftrightarrow> (peer_ok (tv_src v) \<and> peer_ok (tv_dst v) \<longrightarrow> peer_ok (tv_src v') \<and> peer_ok (tv_dst v') \<and>
     pe_state (tv_src v) \<le> pe_state (tv_src v') \<and> pe_state (tv_dst v) \<le> pe_state (tv_dst v'))"

lemma stage_trans: "stage_ok u v \<Longrightarrow> stage_ok v w \<Longrightarrow> stage_ok u w"
  by (auto simp: stage_ok_def)

lemma sync_ok: "stage_ok v (tcp_sync end_seq ack v)"
  by (simp add: stage_ok_def tcp_sync_def peer_ok_def Let_def)

lemma sync_states [simp]:
  "pe_state (tv_src (tcp_sync e a v)) = pe_state (tv_src v)" "pe_state (tv_dst (tcp_sync e a v)) = pe_state (tv_dst v)"
  by (simp_all add: tcp_sync_def Let_def)

lemma state_steps [simp]:
  "CT_DPIF_TCPS_SYN_SENT \<le> CT_DPIF_TCPS_ESTABLISHED" "CT_DPIF_TCPS_CLOSING \<le> CT_DPIF_TCPS_FIN_WAIT_2"
  "CT_DPIF_TCPS_SYN_SENT \<le> CT_DPIF_TCPS_TIME_WAIT" "CT_DPIF_TCPS_ESTABLISHED \<le> CT_DPIF_TCPS_TIME_WAIT"
  "CT_DPIF_TCPS_CLOSING \<le> CT_DPIF_TCPS_TIME_WAIT" "CT_DPIF_TCPS_FIN_WAIT_2 \<le> CT_DPIF_TCPS_TIME_WAIT"
  "CT_DPIF_TCPS_CLOSED \<le> s" "CT_DPIF_TCPS_SYN_SENT \<le> CT_DPIF_TCPS_CLOSING"
  by (simp_all add: tcps_order)

lemma states_ok: "stage_ok v (tcp_states flags v)"
  by (auto simp: stage_ok_def tcp_states_def peer_ok_def Let_def)

lemma loose_states_ok: "stage_ok v (tcp_loose_states flags v)"
  by (auto simp: stage_ok_def tcp_loose_states_def peer_ok_def Let_def)

lemma first_scale_ok:
  assumes "tcp_get_wscale tcp = Some w" and "wscale_ok w"
  shows "\<exists>v'. tcp_first_scale tcp v = Some v' \<and> stage_ok v v' \<and> pe_state (tv_src v') = pe_state (tv_src v)"
proof -
  have "wscale_ok 0" by (simp add: wscale_ok_def wscale_defs)
  then show ?thesis using assms by (auto simp: tcp_first_scale_def stage_ok_def peer_ok_def Let_def)
qed

lemma first_packet_ok:
  assumes "tcp_get_wscale tcp = Some w" and "wscale_ok w" and "pe_state (tv_src v) < CT_DPIF_TCPS_SYN_SENT"
  shows "\<exists>v' chk. tcp_first_packet tcp flags seq end_seq v = Some (v', chk) \<and> stage_ok v v'"
proof -
  have "\<exists>u. (if flags AND TCP_SYN \<noteq> 0 then tcp_first_scale tcp v else Some v) = Some u \<and> stage_ok v u \<and>
      pe_state (tv_src u) = pe_state (tv_src v)"
  proof (cases "flags AND TCP_SYN = 0")
    case True
    then show ?thesis by (simp add: stage_ok_def)
  next
    case False
    then show ?thesis using first_scale_ok[OF assms(1,2), of v] by (simp only: if_True not_False_eq_True)
  qed
  then obtain u where u: "(if flags AND TCP_SYN \<noteq> 0 then tcp_first_scale tcp v else Some v) = Some u" "stage_ok v u"
    "pe_state (tv_src u) = pe_state (tv_src v)" by blast
  obtain v' chk where v': "tcp_first_packet tcp flags seq end_seq v = Some (v', chk)" "tv_dst v' = tv_dst u"
    "pe_state (tv_src v') = CT_DPIF_TCPS_SYN_SENT" "pe_wscale (tv_src v') = pe_wscale (tv_src u)"
    unfolding tcp_first_packet_def u(1) by (simp add: Let_def)
  have "stage_ok v v'"
    using u(2,3) v'(2-4) less_imp_le[OF assms(3)] by (simp add: stage_ok_def peer_ok_def)
  then show ?thesis using v'(1) by blast
qed

text \<open>The tracking stage as a whole.\<close>

lemma track_cases:
  assumes "conn_tcp_ok conn" and "tcp_get_wscale tcp = Some w" and "wscale_ok w"
  shows "\<exists>res c'. tcp_track ct conn tcp p_len reply now = Some (res, c') \<and> conn_tcp_ok c' \<and>
    res \<in> {CT_UPDATE_VALID, CT_UPDATE_INVALID} \<and>
    pe_state (tcp_src reply conn) \<le> pe_state (tcp_src reply c') \<and> pe_state (tcp_dst reply conn) \<le> pe_state (tcp_dst reply c') \<and>
    cn_tp_id (ctc_up c') = cn_tp_id (ctc_up conn) \<and>
    (cn_expiration (ctc_up c') = cn_expiration (ctc_up conn) \<or>
     (\<exists>tm. cn_expiration (ctc_up c') = now + timeout_ms ct (cn_tp_id (ctc_up conn)) tm))"
proof -
  define flags where "flags = TCP_FLAGS (tcp_ctl tcp)"
  obtain sws dws where sc: "tcp_scales (tcp_src reply conn) (tcp_dst reply conn) flags = (sws, dws)" by fastforce
  define e where "e = tcp_end (tcp_seq tcp) p_len flags"
  define v where "v = \<lparr>tv_src = tcp_src reply conn, tv_dst = tcp_dst reply conn, tv_win = tcp_winsz tcp, tv_sws = sws, tv_dws = dws\<rparr>"
  have fp: "\<exists>u chk. (if pe_state (tcp_src reply conn) < CT_DPIF_TCPS_SYN_SENT
      then tcp_first_packet tcp flags (tcp_seq tcp) e v else Some (v, True)) = Some (u, chk) \<and> stage_ok v u"
  proof (cases "pe_state (tcp_src reply conn) < CT_DPIF_TCPS_SYN_SENT")
    case True
    then have "pe_state (tv_src v) < CT_DPIF_TCPS_SYN_SENT" by (simp add: v_def)
    then show ?thesis using first_packet_ok[OF assms(2,3)] True by simp
  qed (auto simp: stage_ok_def)
  then obtain u chk where u: "(if pe_state (tcp_src reply conn) < CT_DPIF_TCPS_SYN_SENT
      then tcp_first_packet tcp flags (tcp_seq tcp) e v else Some (v, True)) = Some (u, chk)" "stage_ok v u"
    using fp by blast
  have vok: "peer_ok (tv_src v)" "peer_ok (tv_dst v)" using assms(1) conn_tcp_ok_peers by (auto simp: v_def)
  obtain sq en where se: "(if tcp_seq tcp = e then (pe_seqlo (tv_src u), pe_seqlo (tv_src u)) else (tcp_seq tcp, e)) = (sq, en)"
    by fastforce
  define ack where "ack = tcp_fix_ack flags (tcp_ack tcp) (tv_dst u)"
  have s: "stage_ok v u" "stage_ok v (tcp_states flags (tcp_sync en ack u))" "stage_ok v (tcp_loose_states flags (tcp_sync en ack u))"
    using u(2) stage_trans sync_ok states_ok loose_states_ok by meson+
  show ?thesis
    unfolding tcp_track_def Let_def flags_def[symmetric] sc case_prod_conv e_def[symmetric] v_def[symmetric] u(1)
      bind.bind_lunit ack_def[symmetric] se
    using s vok by (auto simp: stage_ok_def conn_tcp_ok_peers[of _ reply] v_def)
qed

lemma tcp_update_cases:
  assumes "tcp_packet_ok pkt" and "conn_tcp_ok conn"
  shows "\<exists>res c'. tcp_conn_update ct conn pkt reply now = Some (res, c') \<and> conn_tcp_ok c' \<and>
    (res \<noteq> CT_UPDATE_NEW \<longrightarrow> pe_state (tcp_src reply conn) \<le> pe_state (tcp_src reply c') \<and>
       pe_state (tcp_dst reply conn) \<le> pe_state (tcp_dst reply c')) \<and>
    (res = CT_UPDATE_NEW \<longrightarrow> CT_DPIF_TCPS_FIN_WAIT_2 \<le> pe_state (tcp_src reply conn) \<and>
       CT_DPIF_TCPS_FIN_WAIT_2 \<le> pe_state (tcp_dst reply conn)) \<and>
    cn_tp_id (ctc_up c') = cn_tp_id (ctc_up conn) \<and>
    (cn_expiration (ctc_up c') = cn_expiration (ctc_up conn) \<or>
     (\<exists>tm. cn_expiration (ctc_up c') = now + timeout_ms ct (cn_tp_id (ctc_up conn)) tm))"
proof -
  obtain tcp w where tcp: "packet_tcp pkt = Some tcp" "tcp_get_wscale tcp = Some w" "wscale_ok w"
    using tcp_packet_header[OF assms(1)] .
  have ok: "peer_ok (tcp_src reply conn)" "peer_ok (tcp_dst reply conn)" using assms(2) conn_tcp_ok_peers by auto
  define flags where "flags = TCP_FLAGS (tcp_ctl tcp)"
  note tr = track_cases[OF assms(2) tcp(2,3), of ct "dp_packet_get_tcp_payload_length pkt" reply now]
  define syn where "syn \<longleftrightarrow> flags AND (TCP_SYN OR TCP_ACK) = TCP_SYN"
  consider "tcp_invalid_flags flags"
    | "\<not> tcp_invalid_flags flags" "syn" "pe_state (tcp_dst reply conn) \<ge> CT_DPIF_TCPS_FIN_WAIT_2"
        "pe_state (tcp_src reply conn) \<ge> CT_DPIF_TCPS_FIN_WAIT_2"
    | "\<not> tcp_invalid_flags flags" "\<not> (syn \<and> pe_state (tcp_dst reply conn) \<ge> CT_DPIF_TCPS_FIN_WAIT_2
        \<and> pe_state (tcp_src reply conn) \<ge> CT_DPIF_TCPS_FIN_WAIT_2)" "syn" "pe_state (tcp_src reply conn) \<le> CT_DPIF_TCPS_SYN_SENT"
    | "\<not> tcp_invalid_flags flags" "\<not> (syn \<and> pe_state (tcp_dst reply conn) \<ge> CT_DPIF_TCPS_FIN_WAIT_2
        \<and> pe_state (tcp_src reply conn) \<ge> CT_DPIF_TCPS_FIN_WAIT_2)" "\<not> (syn \<and> pe_state (tcp_src reply conn) \<le> CT_DPIF_TCPS_SYN_SENT)"
    by blast
  then show ?thesis
  proof cases
    case 4
    then have "tcp_conn_update ct conn pkt reply now = tcp_track ct conn tcp (dp_packet_get_tcp_payload_length pkt) reply now"
      unfolding tcp_conn_update_def tcp(1) bind.bind_lunit Let_def flags_def[symmetric] syn_def[symmetric] by auto
    then show ?thesis using tr by auto
  qed (use ok assms(2) in \<open>auto simp: tcp_conn_update_def tcp(1) Let_def conn_tcp_ok_peers[of _ reply] peer_ok_def simp flip: flags_def syn_def\<close>)
qed

interpretation tcp: l4_module tcp_new_conn tcp_conn_update ctc_up tcp_packet_ok conn_tcp_ok
proof
  fix pkt ct now i assume "tcp_packet_ok pkt"
  then obtain tcp w where "packet_tcp pkt = Some tcp" "tcp_get_wscale tcp = Some w" "wscale_ok w"
    by (rule tcp_packet_header)
  moreover have "wscale_ok 0" "wscale_ok CT_WSCALE_UNKNOWN" by (simp_all add: wscale_ok_def wscale_defs)
  ultimately show "\<exists>c. tcp_new_conn ct pkt now i = Some c \<and> conn_tcp_ok c \<and> cn_tp_id (ctc_up c) = i \<and>
      (\<exists>tm. cn_expiration (ctc_up c) = now + timeout_ms ct i tm)"
    by (auto simp: tcp_new_conn_def conn_tcp_ok_def peer_ok_def Let_def)
next
  fix pkt c ct reply now assume "tcp_packet_ok pkt" "conn_tcp_ok c"
  from tcp_update_cases[OF this, of ct reply now]
  show "\<exists>res c'. tcp_conn_update ct c pkt reply now = Some (res, c') \<and> conn_tcp_ok c' \<and>
      cn_tp_id (ctc_up c') = cn_tp_id (ctc_up c) \<and>
      (cn_expiration (ctc_up c') = cn_expiration (ctc_up c) \<or>
       (\<exists>tm. cn_expiration (ctc_up c') = now + timeout_ms ct (cn_tp_id (ctc_up c)) tm))" by blast
qed

subsection \<open>The choice of a protocol as a module\<close>

fun l4_up :: "l4_conn \<Rightarrow> conn" where
  "l4_up (ConnTcp c) = ctc_up c"
| "l4_up (ConnIcmp c) = ci_up c"
| "l4_up (ConnOther c) = co_up c"

definition l4_packet_ok :: "uint8_t \<Rightarrow> dp_packet \<Rightarrow> bool" where
  "l4_packet_ok nw_proto pkt \<longleftrightarrow> l4_protos nw_proto \<noteq> Ct_proto_tcp \<or> tcp_packet_ok pkt"

definition l4_conn_ok :: "uint8_t \<Rightarrow> l4_conn \<Rightarrow> bool" where
  "l4_conn_ok nw_proto c = (case (l4_protos nw_proto, c) of
     (Ct_proto_tcp, ConnTcp c) \<Rightarrow> conn_tcp_ok c
   | (Ct_proto_icmp4, ConnIcmp c) \<Rightarrow> True
   | (Ct_proto_icmp6, ConnIcmp c) \<Rightarrow> True
   | (Ct_proto_other, ConnOther c) \<Rightarrow> True
   | _ \<Rightarrow> False)"

interpretation l4: l4_module "new_conn nw" "conn_update nw" l4_up "l4_packet_ok nw" "l4_conn_ok nw" for nw
proof
  fix pkt ct now i assume ok: "l4_packet_ok nw pkt"
  show "\<exists>c. new_conn nw ct pkt now i = Some c \<and> l4_conn_ok nw c \<and> cn_tp_id (l4_up c) = i \<and>
      (\<exists>tm. cn_expiration (l4_up c) = now + timeout_ms ct i tm)"
    using ok tcp.new_ok[of pkt ct now i] icmp.new_ok[of ct now i] other.new_ok[of ct now i]
    by (cases "l4_protos nw") (auto simp: new_conn_def l4_conn_ok_def l4_packet_ok_def)
next
  fix pkt c ct reply now assume ok: "l4_packet_ok nw pkt" "l4_conn_ok nw c"
  show "\<exists>res c'. conn_update nw ct c pkt reply now = Some (res, c') \<and> l4_conn_ok nw c' \<and>
      cn_tp_id (l4_up c') = cn_tp_id (l4_up c) \<and>
      (cn_expiration (l4_up c') = cn_expiration (l4_up c) \<or>
       (\<exists>tm. cn_expiration (l4_up c') = now + timeout_ms ct (cn_tp_id (l4_up c)) tm))"
  proof (cases c)
    case (ConnTcp d)
    then have nw: "l4_protos nw = Ct_proto_tcp" "conn_tcp_ok d"
      using ok(2) by (auto simp: l4_conn_ok_def split: ct_l4_proto.splits)
    then obtain res d' where "tcp_conn_update ct d pkt reply now = Some (res, d')" "conn_tcp_ok d'"
      "cn_tp_id (ctc_up d') = cn_tp_id (ctc_up d)"
      "cn_expiration (ctc_up d') = cn_expiration (ctc_up d) \<or>
       (\<exists>tm. cn_expiration (ctc_up d') = now + timeout_ms ct (cn_tp_id (ctc_up d)) tm)"
      using tcp.upd_ok[of pkt d ct reply now] ok(1) by (auto simp: l4_packet_ok_def)
    then show ?thesis using ConnTcp nw by (auto simp: conn_update_def l4_conn_ok_def)
  next
    case (ConnIcmp d)
    then have "l4_protos nw = Ct_proto_icmp4 \<or> l4_protos nw = Ct_proto_icmp6"
      using ok(2) by (auto simp: l4_conn_ok_def split: ct_l4_proto.splits)
    then show ?thesis using ConnIcmp icmp.upd_ok[of ct d reply now]
      by (auto simp: conn_update_def l4_conn_ok_def)
  next
    case (ConnOther d)
    then have "l4_protos nw = Ct_proto_other"
      using ok(2) by (auto simp: l4_conn_ok_def split: ct_l4_proto.splits)
    then show ?thesis using ConnOther other.upd_ok[of ct d reply now]
      by (auto simp: conn_update_def l4_conn_ok_def)
  qed
qed

subsection \<open>Sequence numbers\<close>

lemma seq_geq_diff: "SEQ_GEQ (a + d) a \<longleftrightarrow> 0 \<le> sint d" "SEQ_GEQ a (a - d) \<longleftrightarrow> 0 \<le> sint d"
  by (simp_all add: SEQ_GEQ_def)

lemma sint_win: "sint (ucast (w :: uint16_t) :: uint32_t) = uint w"
proof -
  have "uint w < 2 ^ 16" using uint_lt2p[of w] by simp
  then have "uint w < 2 ^ 31" by simp
  then have "take_bit 32 (uint w) = uint w" by (intro take_bit_int_eq_self) simp_all
  then have u: "uint (ucast w :: uint32_t) = uint w" by (simp add: unsigned_ucast_eq)
  then have "int (unat (ucast w :: uint32_t)) < 2 ^ 31" using \<open>uint w < 2 ^ 31\<close> by (simp only: of_nat_unat)
  then have "unat (ucast w :: uint32_t) < 2 ^ 31" by (simp only: of_nat_less_numeral_power_cancel_iff)
  then show ?thesis using u by (simp add: sint_small)
qed

subsection \<open>Established connections\<close>

lemma accepted_seqlo:
  "pe_seqlo (tv_src (tcp_states flags (tcp_sync en ack v))) = (if SEQ_GT en (pe_seqlo (tv_src v)) then en else pe_seqlo (tv_src v))"
  by (simp add: tcp_states_def tcp_sync_def Let_def)

lemma tcp_src_set_peers [simp]: "tcp_src reply ((set_peers reply a b c)\<lparr>ctc_up := u\<rparr>) = a"
  by (simp add: tcp_src_def set_peers_def)

lemma tcp_established_cases:
  assumes tcp: "packet_tcp pkt = Some tcp" and chk: "ct_tcp_seq_chk ct"
    and src: "CT_DPIF_TCPS_ESTABLISHED \<le> pe_state (tcp_src reply conn)" "pe_state (tcp_src reply conn) < CT_DPIF_TCPS_FIN_WAIT_2"
    and dst: "CT_DPIF_TCPS_SYN_SENT \<le> pe_state (tcp_dst reply conn)" "pe_state (tcp_dst reply conn) < CT_DPIF_TCPS_FIN_WAIT_2"
  defines "flags \<equiv> TCP_FLAGS (tcp_ctl tcp)" and "p \<equiv> tcp_src reply conn" and "q \<equiv> tcp_dst reply conn"
  defines "e \<equiv> tcp_end (tcp_seq tcp) (dp_packet_get_tcp_payload_length pkt) flags"
  shows "\<exists>res c'. tcp_conn_update ct conn pkt reply now = Some (res, c') \<and>
    (res = CT_UPDATE_INVALID \<and> c' = conn \<or>
     res = CT_UPDATE_VALID \<and>
     (if tcp_seq tcp = e then pe_seqlo (tcp_src reply c') = pe_seqlo p
      else SEQ_GEQ (pe_seqhi p) e \<and>
        SEQ_GEQ (tcp_seq tcp) (pe_seqlo p - win_shift (pe_max_win q) (snd (tcp_scales p q flags)))) \<and>
     (flags AND TCP_ACK \<noteq> 0 \<and> tcp_ack tcp \<noteq> 0 \<longrightarrow>
        - MAXACKWINDOW \<le> sint (pe_seqlo q - tcp_ack tcp) \<and>
        sint (pe_seqlo q - tcp_ack tcp) \<le> s32 (MAXACKWINDOW * 2 ^ fst (tcp_scales p q flags))) \<and>
     (flags AND TCP_RST \<noteq> 0 \<longrightarrow> tcp_seq tcp \<in> {pe_seqlo p - 1, pe_seqlo p, pe_seqlo p + 1}))"
proof -
  obtain sws dws where sc: "tcp_scales p q flags = (sws, dws)" by fastforce
  define v where "v = \<lparr>tv_src = p, tv_dst = q, tv_win = tcp_winsz tcp, tv_sws = sws, tv_dws = dws\<rparr>"
  define ack where "ack = tcp_fix_ack flags (tcp_ack tcp) q"
  obtain sq en where se: "(if tcp_seq tcp = e then (pe_seqlo p, pe_seqlo p) else (tcp_seq tcp, e)) = (sq, en)" by fastforce
  let ?skew = "sint (pe_seqlo q - ack)"
  have st: "\<not> pe_state p < CT_DPIF_TCPS_SYN_SENT" "\<not> pe_state p \<le> CT_DPIF_TCPS_SYN_SENT" "\<not> CT_DPIF_TCPS_FIN_WAIT_2 \<le> pe_state p"
    "\<not> pe_state q < CT_DPIF_TCPS_SYN_SENT" "\<not> CT_DPIF_TCPS_FIN_WAIT_2 \<le> pe_state q"
    using src dst by (auto simp: p_def q_def tcps_order)
  have loose: "\<not> tcp_loose_window sq en v" using st by (simp add: tcp_loose_window_def v_def)
  have byp: "\<not> tcp_bypass_seq_chk ct" using chk by (simp add: tcp_bypass_seq_chk_def)
  have v: "tv_src v = p" "tv_dst v = q" by (simp_all add: v_def)
  let ?len = "dp_packet_get_tcp_payload_length pkt"
  define w where "w = tcp_states flags (tcp_sync en ack v)"
  define c' where "c' = (set_peers reply (tv_src w) (tv_dst w) conn)
    \<lparr>ctc_up := conn_update_expiration ct (ctc_up (set_peers reply (tv_src w) (tv_dst w) conn)) (tcp_timeout (pe_state (tv_src w)) (pe_state (tv_dst w))) now\<rparr>"
  have "tcp_track ct conn tcp ?len reply now =
      Some (if tcp_in_window flags (tcp_seq tcp) sq en ?skew v then (CT_UPDATE_VALID, c') else (CT_UPDATE_INVALID, conn))"
    unfolding tcp_track_def Let_def flags_def[symmetric] p_def[symmetric] q_def[symmetric] sc case_prod_conv
      e_def[symmetric] v_def[symmetric]
    by (simp only: st if_False if_True bind.bind_lunit case_prod_conv v ack_def[symmetric] se loose byp simp_thms w_def[symmetric])
      (simp add: p_def q_def c'_def)
  then have upd: "tcp_conn_update ct conn pkt reply now =
      (if tcp_invalid_flags flags \<or> \<not> tcp_in_window flags (tcp_seq tcp) sq en ?skew v
       then Some (CT_UPDATE_INVALID, conn) else Some (CT_UPDATE_VALID, c'))"
    unfolding tcp_conn_update_def tcp bind.bind_lunit Let_def flags_def[symmetric] p_def[symmetric] q_def[symmetric]
    using st by auto
  have lo: "pe_seqlo (tcp_src reply c') = pe_seqlo p" if "tcp_seq tcp = e"
    using that se v accepted_seqlo[of flags en ack v] by (auto simp: c'_def w_def)
  have "tcp_seq tcp \<noteq> e \<longrightarrow> SEQ_GEQ (pe_seqhi p) e \<and>
        SEQ_GEQ (tcp_seq tcp) (pe_seqlo p - win_shift (pe_max_win q) dws)"
    "flags AND TCP_ACK \<noteq> 0 \<and> tcp_ack tcp \<noteq> 0 \<longrightarrow>
        - MAXACKWINDOW \<le> sint (pe_seqlo q - tcp_ack tcp) \<and> sint (pe_seqlo q - tcp_ack tcp) \<le> s32 (MAXACKWINDOW * 2 ^ sws)"
    "flags AND TCP_RST \<noteq> 0 \<longrightarrow> tcp_seq tcp \<in> {pe_seqlo p - 1, pe_seqlo p, pe_seqlo p + 1}"
    if "tcp_in_window flags (tcp_seq tcp) sq en ?skew v"
    using that se by (auto simp: tcp_in_window_def v_def eq_diff_eq ack_def tcp_fix_ack_def split: if_splits)
  then show ?thesis using upd sc lo by auto
qed

subsection \<open>The three-way handshake\<close>

text \<open>A segment without options: the header of 20 bytes and the payload.\<close>

definition tcp_segment :: "uint32_t \<Rightarrow> uint32_t \<Rightarrow> uint16_t \<Rightarrow> uint16_t \<Rightarrow> uint8_t list \<Rightarrow> dp_packet" where
  "tcp_segment seq ack flags win payload =
     \<lparr>pk_data = be16_bytes 1000 @ be16_bytes 80 @ be32_bytes seq @ be32_bytes ack @
        be16_bytes (flags OR 0x5000) @ be16_bytes win @ be16_bytes 0 @ be16_bytes 0 @ payload,
      pk_l4_ofs = 0, pk_l2_pad_size = 0\<rparr>"

lemma segment_header:
  "packet_tcp (tcp_segment seq ack flags win payload) =
     Some \<lparr>tcp_seq = seq, tcp_ack = ack, tcp_ctl = flags OR 0x5000, tcp_winsz = win, tcp_options = payload\<rparr>"
  by (simp add: packet_tcp_def dp_packet_l4_def tcp_segment_def UINT16_MAX_def tcp_header_at_def TCP_HEADER_LEN_def)

lemma segment_payload:
  assumes "TCP_OFFSET (flags OR 0x5000) = 5"
  shows "dp_packet_get_tcp_payload_length (tcp_segment seq ack flags win []) = 0"
proof -
  have "dp_packet_l4_size (tcp_segment seq ack flags win []) = 20"
    by (simp add: dp_packet_l4_size_def tcp_segment_def UINT16_MAX_def)
  then have "dp_packet_get_tcp_payload (tcp_segment seq ack flags win []) = Some 20"
    using assms by (simp add: dp_packet_get_tcp_payload_def segment_header TCP_HEADER_LEN_def)
  then show ?thesis by (simp add: dp_packet_get_tcp_payload_length_def tcp_segment_def)
qed

lemma no_options: "TCP_OFFSET (tcp_ctl tcp) = 5 \<Longrightarrow> tcp_get_wscale tcp = Some 0"
  by (simp add: tcp_get_wscale_def TCP_HEADER_LEN_def tcp_wscale_loop.simps)

lemma handshake_flags:
  "TCP_OFFSET (TCP_SYN OR 0x5000) = 5" "TCP_OFFSET ((TCP_SYN OR TCP_ACK) OR 0x5000) = 5"
  "TCP_OFFSET (TCP_ACK OR 0x5000) = 5" "TCP_FLAGS (TCP_SYN OR 0x5000) = TCP_SYN"
  "TCP_FLAGS ((TCP_SYN OR TCP_ACK) OR 0x5000) = TCP_SYN OR TCP_ACK" "TCP_FLAGS (TCP_ACK OR 0x5000) = TCP_ACK"
  by (simp_all add: TCP_OFFSET_def TCP_FLAGS_def tcp_flag_defs)

lemma handshake_syn:
  "tcp_new_conn ct (tcp_segment x a TCP_SYN w []) now i =
     Some \<lparr>ctc_up = conn_init_expiration ct \<lparr>cn_tp_id = i, cn_expiration = 0\<rparr> CT_TM_TCP_FIRST_PACKET now,
       ctc_peer0 = \<lparr>pe_seqlo = x, pe_seqhi = x + 2, pe_max_win = max w 1, pe_wscale = 0, pe_state = CT_DPIF_TCPS_SYN_SENT\<rparr>,
       ctc_peer1 = \<lparr>pe_seqlo = 0, pe_seqhi = 1, pe_max_win = 1, pe_wscale = 0, pe_state = CT_DPIF_TCPS_CLOSED\<rparr>\<rparr>"
  by (simp add: tcp_new_conn_def segment_header segment_payload handshake_flags no_options Let_def)
    (simp add: tcp_flag_defs)

text \<open>The window arithmetic that the handshake needs.\<close>

lemma win_shift_0 [simp]: "win_shift w 0 = ucast w"
  by (simp add: win_shift_def)

lemma max_win_sint:
  "0 \<le> sint (max 1 (ucast (w :: uint16_t)) :: uint32_t)" "0 \<le> sint (ucast (w :: uint16_t) :: uint32_t)"
  "0 \<le> sint (max (ucast (w :: uint16_t)) 1 :: uint32_t)"
  by (simp_all add: sint_win max_def)

lemma win_plus_one: "0 \<le> sint (1 + max (ucast (w :: uint16_t)) 1 :: uint32_t)"
proof -
  have "uint w < 2 ^ 16" using uint_lt2p[of w] by simp
  then have "take_bit 32 (uint w) = uint w" by (intro take_bit_int_eq_self) simp_all
  then have "uint (ucast w :: uint32_t) = uint w" by (simp add: unsigned_ucast_eq)
  then have m: "uint (max (ucast w) 1 :: uint32_t) \<le> 2 ^ 16" using \<open>uint w < 2 ^ 16\<close> by (simp add: max_def)
  then have u: "uint (1 + max (ucast w) 1 :: uint32_t) = 1 + uint (max (ucast w) 1 :: uint32_t)"
    by (subst uint_add_lem[THEN iffD1]) simp_all
  then have "int (unat (1 + max (ucast w) 1 :: uint32_t)) < 2 ^ 31" using m by (simp only: of_nat_unat) simp
  then have "unat (1 + max (ucast w) 1 :: uint32_t) < 2 ^ 31" by (simp only: of_nat_less_numeral_power_cancel_iff)
  then show ?thesis by (simp add: sint_small)
qed

lemma track_eq:
  assumes "TCP_FLAGS (tcp_ctl tcp) = flags" and "tcp_src reply conn = p" and "tcp_dst reply conn = q"
    and "tcp_scales p q flags = (sws, dws)" and "tcp_end (tcp_seq tcp) p_len flags = e"
    and "(if pe_state p < CT_DPIF_TCPS_SYN_SENT
      then tcp_first_packet tcp flags (tcp_seq tcp) e
        \<lparr>tv_src = p, tv_dst = q, tv_win = tcp_winsz tcp, tv_sws = sws, tv_dws = dws\<rparr>
      else Some (\<lparr>tv_src = p, tv_dst = q, tv_win = tcp_winsz tcp, tv_sws = sws, tv_dws = dws\<rparr>, True)) = Some (u, chk)"
    and "(if tcp_seq tcp = e then (pe_seqlo (tv_src u), pe_seqlo (tv_src u)) else (tcp_seq tcp, e)) = (sq, en)"
    and "tcp_fix_ack flags (tcp_ack tcp) (tv_dst u) = ack"
    and "tcp_in_window flags (tcp_seq tcp) sq en (if chk then sint (pe_seqlo (tv_dst u) - ack) else 0) u"
    and "tcp_states flags (tcp_sync en ack u) = w"
  shows "tcp_track ct conn tcp p_len reply now = Some (CT_UPDATE_VALID,
    (set_peers reply (tv_src w) (tv_dst w) conn)
      \<lparr>ctc_up := conn_update_expiration ct (ctc_up conn) (tcp_timeout (pe_state (tv_src w)) (pe_state (tv_dst w))) now\<rparr>)"
  unfolding tcp_track_def Let_def assms(1-5) case_prod_conv assms(6) bind.bind_lunit assms(7,8)
  by (simp only: assms(9,10) simp_thms if_True set_peers_simps)

definition handshake_state2 :: "uint32_t \<Rightarrow> uint32_t \<Rightarrow> uint16_t \<Rightarrow> uint16_t \<Rightarrow> conn \<Rightarrow> conn_tcp" where
  "handshake_state2 x y m w2 up =
     \<lparr>ctc_up = up,
      ctc_peer0 = \<lparr>pe_seqlo = x, pe_seqhi = (if SEQ_GEQ (x + 1 + ucast w2) (x + 2) then x + 1 + max (ucast w2) 1 else x + 2),
        pe_max_win = m, pe_wscale = 0, pe_state = CT_DPIF_TCPS_ESTABLISHED\<rparr>,
      ctc_peer1 = \<lparr>pe_seqlo = y + 1, pe_seqhi = y + 1 + max 1 (ucast m), pe_max_win = (if w2 > 1 then w2 else 1), pe_wscale = 0,
        pe_state = CT_DPIF_TCPS_SYN_SENT\<rparr>\<rparr>"

lemma handshake_syn_ack:
  "tcp_conn_update ct
     \<lparr>ctc_up = up,
       ctc_peer0 = \<lparr>pe_seqlo = x, pe_seqhi = x + 2, pe_max_win = m, pe_wscale = 0, pe_state = CT_DPIF_TCPS_SYN_SENT\<rparr>,
       ctc_peer1 = \<lparr>pe_seqlo = 0, pe_seqhi = 1, pe_max_win = 1, pe_wscale = 0, pe_state = CT_DPIF_TCPS_CLOSED\<rparr>\<rparr>
     (tcp_segment y (x + 1) (TCP_SYN OR TCP_ACK) w2 []) True now =
   Some (CT_UPDATE_VALID, handshake_state2 x y m w2 (conn_update_expiration ct up CT_TM_TCP_OPENING now))"
  (is "tcp_conn_update ct ?c ?pkt True now = _")
proof -
  let ?flags = "TCP_SYN OR TCP_ACK"
  define tcp where "tcp = \<lparr>tcp_seq = y, tcp_ack = x + 1, tcp_ctl = ?flags OR 0x5000, tcp_winsz = w2, tcp_options = ([] :: uint8_t list)\<rparr>"
  define p where "p = \<lparr>pe_seqlo = 0, pe_seqhi = 1, pe_max_win = 1, pe_wscale = 0, pe_state = CT_DPIF_TCPS_CLOSED\<rparr>"
  define q where "q = \<lparr>pe_seqlo = x, pe_seqhi = x + 2, pe_max_win = m, pe_wscale = 0, pe_state = CT_DPIF_TCPS_SYN_SENT\<rparr>"
  define hi where "hi = y + 1 + max 1 (ucast m)"
  define mw where "mw = (if w2 > 1 then w2 else 1)"
  define u where "u = \<lparr>tv_src = \<lparr>pe_seqlo = y, pe_seqhi = hi, pe_max_win = mw, pe_wscale = 0, pe_state = CT_DPIF_TCPS_SYN_SENT\<rparr>,
      tv_dst = q, tv_win = w2, tv_sws = 0, tv_dws = 0\<rparr>"
  define w where "w = tcp_states ?flags (tcp_sync (y + 1) (x + 1) u)"
  have hdr: "packet_tcp ?pkt = Some tcp" by (simp add: segment_header tcp_def)
  have len: "dp_packet_get_tcp_payload_length ?pkt = 0" by (simp add: segment_payload handshake_flags)
  have flags: "TCP_FLAGS (tcp_ctl tcp) = ?flags" by (simp add: tcp_def handshake_flags)
  have peers: "tcp_src True ?c = p" "tcp_dst True ?c = q" by (simp_all add: tcp_src_def tcp_dst_def p_def q_def)
  have "tcp_conn_update ct ?c ?pkt True now = tcp_track ct ?c tcp 0 True now"
    unfolding tcp_conn_update_def hdr bind.bind_lunit Let_def flags len
    by (simp add: tcp_invalid_flags_def tcp_flag_defs)
  also have "\<dots> = Some (CT_UPDATE_VALID, (set_peers True (tv_src w) (tv_dst w) ?c)
      \<lparr>ctc_up := conn_update_expiration ct (ctc_up ?c) (tcp_timeout (pe_state (tv_src w)) (pe_state (tv_dst w))) now\<rparr>)"
  proof (rule track_eq[OF flags peers])
    show "tcp_scales p q ?flags = (0, 0)" by (simp add: tcp_scales_def p_def q_def)
    show "tcp_end (tcp_seq tcp) 0 ?flags = y + 1" by (simp add: tcp_end_def tcp_def tcp_flag_defs)
    show "(if pe_state p < CT_DPIF_TCPS_SYN_SENT
        then tcp_first_packet tcp ?flags (tcp_seq tcp) (y + 1) \<lparr>tv_src = p, tv_dst = q, tv_win = tcp_winsz tcp, tv_sws = 0, tv_dws = 0\<rparr>
        else Some (\<lparr>tv_src = p, tv_dst = q, tv_win = tcp_winsz tcp, tv_sws = 0, tv_dws = 0\<rparr>, True)) = Some (u, False)"
      by (simp add: p_def q_def tcps_order tcp_first_packet_def tcp_first_scale_def Let_def u_def mw_def hi_def tcp_def)
    show "(if tcp_seq tcp = y + 1 then (pe_seqlo (tv_src u), pe_seqlo (tv_src u)) else (tcp_seq tcp, y + 1)) = (y, y + 1)"
      by (simp add: tcp_def)
    show "tcp_fix_ack ?flags (tcp_ack tcp) (tv_dst u) = x + 1" by (simp add: tcp_fix_ack_def tcp_def tcp_flag_defs)
    show "tcp_in_window ?flags (tcp_seq tcp) y (y + 1) (if False then sint (pe_seqlo (tv_dst u) - (x + 1)) else 0) u"
      by (simp add: tcp_in_window_def u_def q_def hi_def seq_geq_diff max_win_sint MAXACKWINDOW_def s32_def tcp_flag_defs)
  qed (simp add: w_def)
  also have "w = u\<lparr>tv_src := (tv_src u)\<lparr>pe_seqlo := y + 1\<rparr>,
      tv_dst := q\<lparr>pe_seqhi := (if SEQ_GEQ (x + 1 + ucast w2) (x + 2) then x + 1 + max (ucast w2) 1 else x + 2),
        pe_state := CT_DPIF_TCPS_ESTABLISHED\<rparr>\<rparr>"
    by (simp add: w_def tcp_sync_def tcp_states_def Let_def u_def q_def tcp_flag_defs tcps_order SEQ_GT_def mw_def)
  finally show ?thesis
    by (simp add: u_def q_def set_peers_def handshake_state2_def tcp_timeout_def tcps_order hi_def mw_def)
qed

lemma handshake_ack:
  "\<exists>c. tcp_conn_update ct (handshake_state2 x y m w2 up) (tcp_segment (x + 1) (y + 1) TCP_ACK w3 []) False now =
     Some (CT_UPDATE_VALID, c) \<and>
     pe_state (ctc_peer0 c) = CT_DPIF_TCPS_ESTABLISHED \<and> pe_state (ctc_peer1 c) = CT_DPIF_TCPS_ESTABLISHED \<and>
     ctc_up c = conn_update_expiration ct up CT_TM_TCP_ESTABLISHED now"
  (is "\<exists>c. tcp_conn_update ct ?c ?pkt False now = _ \<and> _")
proof -
  define tcp where "tcp = \<lparr>tcp_seq = x + 1, tcp_ack = y + 1, tcp_ctl = TCP_ACK OR 0x5000, tcp_winsz = w3, tcp_options = ([] :: uint8_t list)\<rparr>"
  define p where "p = ctc_peer0 ?c"
  define q where "q = ctc_peer1 ?c"
  define u where "u = \<lparr>tv_src = p, tv_dst = q, tv_win = w3, tv_sws = 0, tv_dws = 0\<rparr>"
  define w where "w = tcp_states TCP_ACK (tcp_sync x (y + 1) u)"
  have p: "pe_seqlo p = x" "pe_wscale p = 0" "pe_state p = CT_DPIF_TCPS_ESTABLISHED" by (simp_all add: p_def handshake_state2_def)
  have q: "pe_seqlo q = y + 1" "pe_wscale q = 0" "pe_state q = CT_DPIF_TCPS_SYN_SENT" by (simp_all add: q_def handshake_state2_def)
  have "SEQ_GEQ (x + 1 + max (ucast w2) 1) x"
    using win_plus_one[of w2] by (simp add: SEQ_GEQ_def add.assoc)
  then have hi: "SEQ_GEQ (pe_seqhi p) x" by (simp add: p_def handshake_state2_def SEQ_GEQ_def)
  have hdr: "packet_tcp ?pkt = Some tcp" by (simp add: segment_header tcp_def)
  have len: "dp_packet_get_tcp_payload_length ?pkt = 0" by (simp add: segment_payload handshake_flags)
  have flags: "TCP_FLAGS (tcp_ctl tcp) = TCP_ACK" by (simp add: tcp_def handshake_flags)
  have peers: "tcp_src False ?c = p" "tcp_dst False ?c = q" by (simp_all add: tcp_src_def tcp_dst_def p_def q_def)
  have "tcp_conn_update ct ?c ?pkt False now = tcp_track ct ?c tcp 0 False now"
    unfolding tcp_conn_update_def hdr bind.bind_lunit Let_def flags len
    by (simp add: tcp_invalid_flags_def tcp_flag_defs)
  also have "\<dots> = Some (CT_UPDATE_VALID, (set_peers False (tv_src w) (tv_dst w) ?c)
      \<lparr>ctc_up := conn_update_expiration ct (ctc_up ?c) (tcp_timeout (pe_state (tv_src w)) (pe_state (tv_dst w))) now\<rparr>)"
  proof (rule track_eq[OF flags peers])
    show "tcp_scales p q TCP_ACK = (0, 0)" by (simp add: tcp_scales_def p q)
    show "tcp_end (tcp_seq tcp) 0 TCP_ACK = x + 1" by (simp add: tcp_end_def tcp_def tcp_flag_defs)
    show "(if pe_state p < CT_DPIF_TCPS_SYN_SENT
        then tcp_first_packet tcp TCP_ACK (tcp_seq tcp) (x + 1) \<lparr>tv_src = p, tv_dst = q, tv_win = tcp_winsz tcp, tv_sws = 0, tv_dws = 0\<rparr>
        else Some (\<lparr>tv_src = p, tv_dst = q, tv_win = tcp_winsz tcp, tv_sws = 0, tv_dws = 0\<rparr>, True)) = Some (u, True)"
      by (simp add: p tcps_order u_def tcp_def)
    show "(if tcp_seq tcp = x + 1 then (pe_seqlo (tv_src u), pe_seqlo (tv_src u)) else (tcp_seq tcp, x + 1)) = (x, x)"
      by (simp add: tcp_def u_def p)
    show "tcp_fix_ack TCP_ACK (tcp_ack tcp) (tv_dst u) = y + 1" by (simp add: tcp_fix_ack_def tcp_def tcp_flag_defs)
    show "tcp_in_window TCP_ACK (tcp_seq tcp) x x (if True then sint (pe_seqlo (tv_dst u) - (y + 1)) else 0) u"
      by (simp add: tcp_in_window_def u_def p q hi seq_geq_diff max_win_sint MAXACKWINDOW_def s32_def tcp_flag_defs)
  qed (simp add: w_def)
  also have "pe_state (tv_src w) = CT_DPIF_TCPS_ESTABLISHED" by (simp add: w_def tcp_states_def Let_def u_def p tcp_flag_defs)
  also have "pe_state (tv_dst w) = CT_DPIF_TCPS_ESTABLISHED" by (simp add: w_def tcp_states_def Let_def u_def q tcp_flag_defs)
  finally show ?thesis
    using \<open>pe_state (tv_src w) = CT_DPIF_TCPS_ESTABLISHED\<close> \<open>pe_state (tv_dst w) = CT_DPIF_TCPS_ESTABLISHED\<close>
    by (simp add: set_peers_def tcp_timeout_def tcps_order handshake_state2_def)
qed

subsection \<open>Properties\<close>

definition sample_ct :: conntrack where
  "sample_ct = timeout_policy_init \<lparr>ct_timeout_policies = [], ct_tcp_seq_chk = True\<rparr>"

lemma sample_ct_ok: "policies_ok sample_ct"
proof -
  have "policies_ok \<lparr>ct_timeout_policies = [], ct_tcp_seq_chk = True\<rparr>" by (simp add: policies_ok_def)
  then show ?thesis using policy_create(1)
    by (simp add: sample_ct_def timeout_policy_init_def timeout_policy_get_def timeout_policy_lookup_def)
qed

lemma sample_timeouts: "timeout_ms sample_ct i tm \<le> 86400000"
proof -
  have "update_existing_tp (init_default_tp j) \<lparr>tp_id = j, tp_present = 0, tp_attrs = a\<rparr> = init_default_tp j" for j a
    by (simp add: update_existing_tp_def update_attr_def CT_DPIF_TP_ATTR_MAX_def upt_rec)
  then have "tp_timeout sample_ct i tm = ct_dpif_netdev_tp_def ! attr_index (tm_to_ct_dpif_tp tm)"
    by (simp add: tp_timeout_def timeout_policy_lookup_def sample_ct_def timeout_policy_init_def timeout_policy_create_def
        init_default_tp_def)
  then show ?thesis
    by (cases tm) (simp_all add: timeout_ms_def ct_dpif_netdev_tp_def_def CT_DPIF_TP_ATTR_MAX_def)
qed

text \<open>
  C29: TCP tracking lets an established connection be changed only by plausible packets: with sequence
  checking, a packet is either rejected as invalid and changes nothing, or it is accepted as valid.  An
  accepted packet that takes sequence space lies between the allowed bounds; one that takes none, for
  which the code eases the restrictions, leaves the sequence number of its sender alone; a packet with a
  non-zero acknowledgment acknowledges inside the allowed bounds; and a reset is accepted only at the
  expected sequence number or next to it.
\<close>
theorem tcp_established_only_in_window:
  assumes "packet_tcp pkt = Some tcp" and "ct_tcp_seq_chk ct"
    and "CT_DPIF_TCPS_ESTABLISHED \<le> pe_state (tcp_src reply conn)" and "pe_state (tcp_src reply conn) < CT_DPIF_TCPS_FIN_WAIT_2"
    and "CT_DPIF_TCPS_SYN_SENT \<le> pe_state (tcp_dst reply conn)" and "pe_state (tcp_dst reply conn) < CT_DPIF_TCPS_FIN_WAIT_2"
  shows "let flags = TCP_FLAGS (tcp_ctl tcp); p = tcp_src reply conn; q = tcp_dst reply conn;
      e = tcp_end (tcp_seq tcp) (dp_packet_get_tcp_payload_length pkt) flags in
    \<exists>res c'. tcp_conn_update ct conn pkt reply now = Some (res, c') \<and>
    (res = CT_UPDATE_INVALID \<and> c' = conn \<or>
     res = CT_UPDATE_VALID \<and>
     (if tcp_seq tcp = e then pe_seqlo (tcp_src reply c') = pe_seqlo p
      else SEQ_GEQ (pe_seqhi p) e \<and>
        SEQ_GEQ (tcp_seq tcp) (pe_seqlo p - win_shift (pe_max_win q) (snd (tcp_scales p q flags)))) \<and>
     (flags AND TCP_ACK \<noteq> 0 \<and> tcp_ack tcp \<noteq> 0 \<longrightarrow>
        - MAXACKWINDOW \<le> sint (pe_seqlo q - tcp_ack tcp) \<and>
        sint (pe_seqlo q - tcp_ack tcp) \<le> s32 (MAXACKWINDOW * 2 ^ fst (tcp_scales p q flags))) \<and>
     (flags AND TCP_RST \<noteq> 0 \<longrightarrow> tcp_seq tcp \<in> {pe_seqlo p - 1, pe_seqlo p, pe_seqlo p + 1}))"
  unfolding Let_def by (rule tcp_established_cases[OF assms])

definition sample_established :: conn_tcp where
  "sample_established =
     \<lparr>ctc_up = \<lparr>cn_tp_id = 0, cn_expiration = 500\<rparr>,
      ctc_peer0 = \<lparr>pe_seqlo = 1000, pe_seqhi = 9000, pe_max_win = 8000, pe_wscale = 0, pe_state = CT_DPIF_TCPS_ESTABLISHED\<rparr>,
      ctc_peer1 = \<lparr>pe_seqlo = 5000, pe_seqhi = 13000, pe_max_win = 8000, pe_wscale = 0, pe_state = CT_DPIF_TCPS_ESTABLISHED\<rparr>\<rparr>"

text \<open>A blind reset 100 bytes away from the expected sequence number.\<close>

theorem tcp_established_only_in_window_witness:
  "tcp_conn_update sample_ct sample_established (tcp_segment 1100 0 TCP_RST 0 []) False 0 =
     Some (CT_UPDATE_INVALID, sample_established)"
proof -
  let ?pkt = "tcp_segment 1100 0 TCP_RST 0 []"
  have "ct_tcp_seq_chk sample_ct"
    by (simp add: sample_ct_def timeout_policy_init_def timeout_policy_create_def Let_def)
  from tcp_established_only_in_window[OF segment_header this, of False sample_established 1100 0 TCP_RST 0 "[]" 0]
  show ?thesis
    by (simp add: sample_established_def tcp_src_def tcp_dst_def tcps_order TCP_FLAGS_def TCP_RST_def Let_def)
qed

text \<open>
  C30: The states of both ends only advance in the order of the enumeration, for every packet with a
  complete header; the one exception is a new connection request on a connection that both ends have
  closed, which restarts it.  The update always returns, and keeps the scaling factors within 14.
\<close>
theorem tcp_states_advance:
  assumes "tcp_packet_ok pkt" and "conn_tcp_ok conn"
  shows "\<exists>res c'. tcp_conn_update ct conn pkt reply now = Some (res, c') \<and> conn_tcp_ok c' \<and>
    (if res = CT_UPDATE_NEW
     then CT_DPIF_TCPS_FIN_WAIT_2 \<le> pe_state (tcp_src reply conn) \<and> CT_DPIF_TCPS_FIN_WAIT_2 \<le> pe_state (tcp_dst reply conn)
     else pe_state (tcp_src reply conn) \<le> pe_state (tcp_src reply c') \<and>
          pe_state (tcp_dst reply conn) \<le> pe_state (tcp_dst reply c'))"
proof -
  obtain res c' where c: "tcp_conn_update ct conn pkt reply now = Some (res, c')" "conn_tcp_ok c'"
    "res \<noteq> CT_UPDATE_NEW \<longrightarrow> pe_state (tcp_src reply conn) \<le> pe_state (tcp_src reply c') \<and>
       pe_state (tcp_dst reply conn) \<le> pe_state (tcp_dst reply c')"
    "res = CT_UPDATE_NEW \<longrightarrow> CT_DPIF_TCPS_FIN_WAIT_2 \<le> pe_state (tcp_src reply conn) \<and>
       CT_DPIF_TCPS_FIN_WAIT_2 \<le> pe_state (tcp_dst reply conn)"
    using tcp_update_cases[OF assms, of ct reply now] by blast
  then show ?thesis by (cases "res = CT_UPDATE_NEW") auto
qed

lemma sample_packets_ok:
  "tcp_packet_ok (tcp_segment x a TCP_SYN w [])" "tcp_packet_ok (tcp_segment x a TCP_RST w [])"
  by (simp_all add: tcp_packet_ok_def dp_packet_l4_def tcp_header_at_def tcp_segment_def UINT16_MAX_def TCP_HEADER_LEN_def
      TCP_OFFSET_def tcp_flag_defs)

theorem tcp_states_advance_witness:
  "\<exists>res c'. tcp_conn_update sample_ct sample_established (tcp_segment 1000 0 TCP_RST 0 []) False 0 = Some (res, c') \<and>
     conn_tcp_ok c'"
proof -
  have "conn_tcp_ok sample_established"
    by (simp add: conn_tcp_ok_def peer_ok_def sample_established_def wscale_ok_def wscale_defs)
  from tcp_states_advance[OF sample_packets_ok(2) this] show ?thesis by blast
qed

text \<open>
  C31: The three-way handshake establishes a connection, for all initial sequence numbers and windows:
  the reply and the final acknowledgment are accepted, both ends are then established, and the
  connection gets the timeout of established connections.
\<close>
theorem tcp_handshake_establishes:
  "\<exists>c1 c2 c3. tcp_new_conn ct (tcp_segment x a TCP_SYN w1 []) now1 i = Some c1 \<and>
     tcp_conn_update ct c1 (tcp_segment y (x + 1) (TCP_SYN OR TCP_ACK) w2 []) True now2 = Some (CT_UPDATE_VALID, c2) \<and>
     tcp_conn_update ct c2 (tcp_segment (x + 1) (y + 1) TCP_ACK w3 []) False now3 = Some (CT_UPDATE_VALID, c3) \<and>
     pe_state (ctc_peer0 c3) = CT_DPIF_TCPS_ESTABLISHED \<and> pe_state (ctc_peer1 c3) = CT_DPIF_TCPS_ESTABLISHED \<and>
     cn_expiration (ctc_up c3) = now3 + timeout_ms ct i CT_TM_TCP_ESTABLISHED"
proof -
  let ?up = "conn_update_expiration ct (conn_init_expiration ct \<lparr>cn_tp_id = i, cn_expiration = 0\<rparr> CT_TM_TCP_FIRST_PACKET now1)
    CT_TM_TCP_OPENING now2"
  obtain c3 where "tcp_conn_update ct (handshake_state2 x y (max w1 1) w2 ?up) (tcp_segment (x + 1) (y + 1) TCP_ACK w3 []) False now3 =
     Some (CT_UPDATE_VALID, c3)" "pe_state (ctc_peer0 c3) = CT_DPIF_TCPS_ESTABLISHED"
    "pe_state (ctc_peer1 c3) = CT_DPIF_TCPS_ESTABLISHED" "ctc_up c3 = conn_update_expiration ct ?up CT_TM_TCP_ESTABLISHED now3"
    using handshake_ack by blast
  then show ?thesis using handshake_syn handshake_syn_ack by simp
qed

text \<open>
  C32: Whatever the protocol, a tracked connection whose packets have complete headers is always
  updated, and it has expired once the longest timeout of its policy has passed after the last packet.
\<close>
theorem tracked_connection_expires:
  assumes "l4_packet_ok nw pkt" and "start \<le> t" and "list_all (\<lambda>(pkt, reply, now). l4_packet_ok nw pkt \<and> now \<le> t) ps"
    and "\<forall>tm. timeout_ms ct i tm \<le> b"
  shows "\<exists>c c'. new_conn nw ct pkt start i = Some c \<and> track (conn_update nw ct) ps c = Some c' \<and> conn_expired (l4_up c') (t + b)"
  by (rule l4.tracked_expires[OF assms])

theorem tracked_connection_expires_witness:
  "\<exists>c c'. new_conn 6 sample_ct (tcp_segment 7 0 TCP_SYN 100 []) 50 0 = Some c \<and>
     track (conn_update 6 sample_ct) [(tcp_segment 8 0 TCP_RST 0 [], False, 60)] c = Some c' \<and>
     conn_expired (l4_up c') (60 + 86400000)"
proof -
  have "l4_packet_ok 6 (tcp_segment 7 0 TCP_SYN 100 [])" "(50 :: int) \<le> 60"
    "list_all (\<lambda>(pkt, reply, now). l4_packet_ok 6 pkt \<and> now \<le> (60 :: int)) [(tcp_segment 8 0 TCP_RST 0 [], False, 60)]"
    by (simp_all add: l4_packet_ok_def sample_packets_ok)
  from tracked_connection_expires[OF this] show ?thesis using sample_timeouts by blast
qed

text \<open>
  C33: Updating a timeout policy installs the given values where they are present and the defaults
  elsewhere, leaves every other policy alone, and keeps identifiers unique.
\<close>
theorem timeout_policy_update_merges:
  assumes "policies_ok ct"
  shows "case timeout_policy_update ct new of (err, ct') \<Rightarrow> err = 0 \<and> policies_ok ct' \<and>
    map_option tp_attrs (timeout_policy_get ct' (tp_id new)) = Some (map (merged_attr new) [0..<CT_DPIF_TP_ATTR_MAX]) \<and>
    (\<forall>j. j \<noteq> tp_id new \<longrightarrow> timeout_policy_get ct' j = timeout_policy_get ct j)"
proof -
  let ?ct = "snd (timeout_policy_delete' ct (tp_id new) False)"
  have d: "policies_ok ?ct" "\<And>j. timeout_policy_get ?ct j = (if j = tp_id new then None else timeout_policy_get ct j)"
    using policy_delete[OF assms] by auto
  then have none: "timeout_policy_get ?ct (tp_id new) = None" by simp
  obtain tp where "timeout_policy_get (timeout_policy_create ?ct new) (tp_id new) = Some tp"
    "tp_attrs tp = map (merged_attr new) [0..<CT_DPIF_TP_ATTR_MAX]"
    using policy_create(3)[OF d(1) none] by auto
  then show ?thesis
    using policy_create(1,2)[OF d(1) none] d(2) by (simp add: timeout_policy_update_def case_prod_unfold)
qed

theorem timeout_policy_update_merges_witness:
  "fst (timeout_policy_update sample_ct \<lparr>tp_id = 5, tp_present = 4, tp_attrs = replicate 16 99\<rparr>) = 0"
  using timeout_policy_update_merges[OF sample_ct_ok, of "\<lparr>tp_id = 5, tp_present = 4, tp_attrs = replicate 16 99\<rparr>"] by auto

text \<open>
  C34: Deleting a policy that exists returns 0 and removes exactly it; deleting one that does not exist
  returns \<open>ENOENT\<close> and changes nothing.
\<close>
theorem timeout_policy_delete_result:
  assumes "policies_ok ct"
  shows "case timeout_policy_delete ct i of (err, ct') \<Rightarrow>
    (if timeout_policy_get ct i = None then err = ENOENT \<and> ct' = ct
     else err = 0 \<and> policies_ok ct' \<and>
       (\<forall>j. timeout_policy_get ct' j = (if j = i then None else timeout_policy_get ct j)))"
proof (cases "timeout_policy_get ct i")
  case None
  then show ?thesis
    by (simp add: timeout_policy_delete_def timeout_policy_delete'_def timeout_policy_get_def timeout_policy_lookup_def
        timeout_policy_lookup_protected_def)
next
  case (Some tp)
  then have "fst (timeout_policy_delete ct i) = 0"
    by (simp add: timeout_policy_delete_def timeout_policy_delete'_def timeout_policy_get_def timeout_policy_lookup_def
        timeout_policy_lookup_protected_def)
  then show ?thesis
    using policy_delete[OF assms, of i True] Some by (simp add: timeout_policy_delete_def case_prod_unfold)
qed

theorem timeout_policy_delete_result_witness:
  "timeout_policy_delete sample_ct 3 = (ENOENT, sample_ct)"
proof -
  have "timeout_policy_get sample_ct 3 = None" by code_simp
  then show ?thesis using timeout_policy_delete_result[OF sample_ct_ok, of 3] by (auto simp: case_prod_unfold prod_eq_iff)
qed

subsection \<open>Limits of the code\<close>

text \<open>
  A timeout of 4294968 seconds, about 50 days, wraps to 704 milliseconds, because the product with 1000
  has 32 bits.
\<close>

lemma long_timeout_wraps: "uint ((4294968 :: uint32_t) * 1000) = 704"
  by simp

end
