(* ===== verification/Heap_Queue.thy ===== *)
theory Heap_Queue
  imports Ovs_Prelude
begin

text \<open>
  The intrusive max-heap of \<open>lib/heap.c\<close> and \<open>lib/heap.h\<close>: an array of node pointers,
  1-based, and nodes that record their own array index and a 64-bit priority.  Nodes live
  in a store (a function from addresses), because the code updates them through the pointers
  in the array.  The lemmas show that every public operation keeps the heap well formed and
  heap-ordered and acts on the map from queued nodes to priorities as its comment says.
\<close>

subsection \<open>State\<close>

record heap_node =
  hn_idx :: nat
  hn_priority :: uint64_t

type_synonym heap_mem = "addr \<Rightarrow> heap_node"

record heap =
  harray :: "addr list"
  hn :: nat
  hallocated :: nat

type_synonym heap_state = "heap \<times> heap_mem"

subsection \<open>Operations\<close>

definition heap_init :: heap where
  "heap_init = \<lparr>harray = [], hn = 0, hallocated = 0\<rparr>"

definition heap_clear :: "heap \<Rightarrow> heap" where
  "heap_clear h = h\<lparr>hn := 0\<rparr>"

definition heap_swap :: "heap \<Rightarrow> heap \<Rightarrow> heap \<times> heap" where
  "heap_swap a b = (let tmp = a; a' = b; b' = tmp in (a', b'))"

definition heap_parent :: "nat \<Rightarrow> nat" where
  "heap_parent i = i div 2"

definition heap_left :: "nat \<Rightarrow> nat" where
  "heap_left i = i * 2"

definition heap_right :: "nat \<Rightarrow> nat" where
  "heap_right i = i * 2 + 1"

definition heap_is_leaf :: "heap \<Rightarrow> nat \<Rightarrow> bool" where
  "heap_is_leaf h i = (heap_left i > hn h)"

definition heap_count :: "heap \<Rightarrow> nat" where
  "heap_count h = hn h"

definition heap_is_empty :: "heap \<Rightarrow> bool" where
  "heap_is_empty h = (hn h = 0)"

definition heap_max :: "heap \<Rightarrow> addr" where
  "heap_max h = harray h ! 1"

definition heap_pop :: "heap \<Rightarrow> addr \<times> heap" where
  "heap_pop h = (harray h ! hn h, h\<lparr>hn := hn h - 1\<rparr>)"

definition put_node :: "heap_state \<Rightarrow> addr \<Rightarrow> nat \<Rightarrow> heap_state" where
  "put_node s node i =
     (case s of (h, m) \<Rightarrow>
        (h\<lparr>harray := (harray h)[i := node]\<rparr>, m(node := (m node)\<lparr>hn_idx := i\<rparr>)))"

definition swap_nodes :: "heap_state \<Rightarrow> nat \<Rightarrow> nat \<Rightarrow> heap_state" where
  "swap_nodes s i j =
     (let old_i = harray (fst s) ! i;
          old_j = harray (fst s) ! j
      in put_node (put_node s old_j i) old_i j)"

text \<open>\<open>hprio s i\<close> is \<open>heap->array[i]->priority\<close>.\<close>

definition hprio :: "heap_state \<Rightarrow> nat \<Rightarrow> uint64_t" where
  "hprio s i = hn_priority (snd s (harray (fst s) ! i))"

lemma hn_put_node [simp]: "hn (fst (put_node s a i)) = hn (fst s)"
  by (simp add: put_node_def split: prod.splits)

lemma hn_swap_nodes [simp]: "hn (fst (swap_nodes s i j)) = hn (fst s)"
  by (simp add: swap_nodes_def Let_def)

text \<open>The loop of \<open>float_up\<close>; the flag is the C variable \<open>moved\<close>.\<close>

function float_up_loop :: "heap_state \<Rightarrow> nat \<Rightarrow> bool \<Rightarrow> heap_state \<times> bool" where
  "float_up_loop s i moved =
     (if i > 1
      then let parent = heap_parent i
           in if hprio s parent \<ge> hprio s i then (s, moved)
              else float_up_loop (swap_nodes s parent i) parent True
      else (s, moved))"
  by pat_completeness auto
termination
  by (relation "measure (\<lambda>(s, i, moved). i)") (auto simp: heap_parent_def)

declare float_up_loop.simps [simp del]

definition float_up :: "heap_state \<Rightarrow> nat \<Rightarrow> heap_state \<times> bool" where
  "float_up s i = float_up_loop s i False"

text \<open>The index \<open>max\<close> that one iteration of \<open>float_down\<close> computes.\<close>

definition float_down_max :: "heap_state \<Rightarrow> nat \<Rightarrow> nat" where
  "float_down_max s i =
     (let left = heap_left i;
          right = heap_right i;
          mx = i;
          mx = (if hprio s left > hprio s mx then left else mx);
          mx = (if right \<le> hn (fst s) \<and> hprio s right > hprio s mx then right else mx)
      in mx)"

lemma float_down_max_cases:
  "float_down_max s i = i \<or>
   (float_down_max s i = heap_left i \<and> hprio s (heap_left i) > hprio s i) \<or>
   (float_down_max s i = heap_right i \<and> heap_right i \<le> hn (fst s)
      \<and> hprio s (heap_right i) > hprio s i)"
  unfolding float_down_max_def Let_def by (auto split: if_splits)

lemma float_down_max_greater:
  assumes "\<not> heap_is_leaf (fst s) i" and "float_down_max s i \<noteq> i"
  shows "i < float_down_max s i \<and> float_down_max s i \<le> hn (fst s)"
  using float_down_max_cases[of s i] assms
  by (cases "i = 0") (auto simp: heap_is_leaf_def heap_left_def heap_right_def)

function float_down :: "heap_state \<Rightarrow> nat \<Rightarrow> heap_state" where
  "float_down s i =
     (if heap_is_leaf (fst s) i then s
      else let mx = float_down_max s i
           in if mx = i then s else float_down (swap_nodes s mx i) mx)"
  by pat_completeness auto
termination
  by (relation "measure (\<lambda>(s, i). hn (fst s) - i)")
    (use float_down_max_greater in fastforce)+

declare float_down.simps [simp del]

definition float_up_or_down :: "heap_state \<Rightarrow> nat \<Rightarrow> heap_state" where
  "float_up_or_down s i =
     (case float_up s i of (s', moved) \<Rightarrow> if \<not> moved then float_down s' i else s')"

text \<open>\<open>xrealloc\<close> keeps the old elements; the new ones are not read before they are written.\<close>

definition xrealloc_array :: "addr list \<Rightarrow> nat \<Rightarrow> addr list" where
  "xrealloc_array xs k = take k xs @ replicate (k - length xs) 0"

definition heap_raw_insert :: "heap_state \<Rightarrow> addr \<Rightarrow> uint64_t \<Rightarrow> heap_state" where
  "heap_raw_insert s node priority =
     (let (h, m) = s;
          h = (if hn h \<ge> hallocated h
               then let al = (if hn h = 0 then 1 else 2 * hn h)
                    in h\<lparr>hallocated := al, harray := xrealloc_array (harray h) (al + 1)\<rparr>
               else h);
          h = h\<lparr>hn := hn h + 1\<rparr>;
          (h, m) = put_node (h, m) node (hn h)
      in (h, m(node := (m node)\<lparr>hn_priority := priority\<rparr>)))"

definition heap_insert :: "heap_state \<Rightarrow> addr \<Rightarrow> uint64_t \<Rightarrow> heap_state" where
  "heap_insert s node priority =
     (let s = heap_raw_insert s node priority
      in fst (float_up s (hn_idx (snd s node))))"

definition heap_raw_remove :: "heap_state \<Rightarrow> addr \<Rightarrow> heap_state" where
  "heap_raw_remove s node =
     (let i = hn_idx (snd s node);
          (h, m) = (if i < hn (fst s)
                    then put_node s (harray (fst s) ! hn (fst s)) i else s)
      in (h\<lparr>hn := hn h - 1\<rparr>, m))"

definition heap_remove :: "heap_state \<Rightarrow> addr \<Rightarrow> heap_state" where
  "heap_remove s node =
     (let i = hn_idx (snd s node);
          s = heap_raw_remove s node
      in if i \<le> hn (fst s) then float_up_or_down s i else s)"

definition heap_raw_change :: "heap_state \<Rightarrow> addr \<Rightarrow> uint64_t \<Rightarrow> heap_state" where
  "heap_raw_change s node priority =
     (fst s, (snd s)(node := (snd s node)\<lparr>hn_priority := priority\<rparr>))"

definition heap_change :: "heap_state \<Rightarrow> addr \<Rightarrow> uint64_t \<Rightarrow> heap_state" where
  "heap_change s node priority =
     (let s = heap_raw_change s node priority
      in float_up_or_down s (hn_idx (snd s node)))"

fun heap_rebuild_loop :: "heap_state \<Rightarrow> nat \<Rightarrow> heap_state" where
  "heap_rebuild_loop s 0 = s"
| "heap_rebuild_loop s (Suc i) = heap_rebuild_loop (float_down s (Suc i)) i"

definition heap_rebuild :: "heap_state \<Rightarrow> heap_state" where
  "heap_rebuild s = heap_rebuild_loop s (hn (fst s) div 2)"


subsection \<open>Well-formedness, heap order and the abstract map\<close>

text \<open>Every slot \<open>1..n\<close> is inside the array and its node records that slot.\<close>

definition heap_wf :: "heap_state \<Rightarrow> bool" where
  "heap_wf s \<longleftrightarrow>
     hn (fst s) \<le> hallocated (fst s) \<and>
     length (harray (fst s)) = (if hallocated (fst s) = 0 then 0 else hallocated (fst s) + 1) \<and>
     (\<forall>i. 1 \<le> i \<and> i \<le> hn (fst s) \<longrightarrow> hn_idx (snd s (harray (fst s) ! i)) = i)"

definition heap_ordered :: "heap_state \<Rightarrow> bool" where
  "heap_ordered s \<longleftrightarrow> (\<forall>x. 2 \<le> x \<and> x \<le> hn (fst s) \<longrightarrow> hprio s x \<le> hprio s (x div 2))"

definition heap_nodes :: "heap_state \<Rightarrow> addr set" where
  "heap_nodes s = (\<lambda>i. harray (fst s) ! i) ` {1..hn (fst s)}"

text \<open>The queued nodes with their priorities: what the heap stands for.\<close>

definition heap_abs :: "heap_state \<Rightarrow> addr \<rightharpoonup> uint64_t" where
  "heap_abs s a = (if a \<in> heap_nodes s then Some (hn_priority (snd s a)) else None)"

lemma heap_wfD:
  assumes "heap_wf s" and "1 \<le> i" and "i \<le> hn (fst s)"
  shows "i < length (harray (fst s))" and "hn_idx (snd s (harray (fst s) ! i)) = i"
proof -
  show "hn_idx (snd s (harray (fst s) ! i)) = i"
    using assms unfolding heap_wf_def by blast
  have "hallocated (fst s) \<noteq> 0" "i \<le> hallocated (fst s)"
    using assms unfolding heap_wf_def by linarith+
  then show "i < length (harray (fst s))"
    using assms(1) unfolding heap_wf_def by simp
qed

lemma heap_slot_inj:
  assumes "heap_wf s" "1 \<le> i" "i \<le> hn (fst s)" "1 \<le> j" "j \<le> hn (fst s)"
    and "harray (fst s) ! i = harray (fst s) ! j"
  shows "i = j"
  using heap_wfD(2)[OF assms(1-3)] heap_wfD(2)[OF assms(1,4,5)] assms(6) by metis

lemma heap_nodesE:
  assumes "a \<in> heap_nodes s"
  obtains i where "1 \<le> i" "i \<le> hn (fst s)" "harray (fst s) ! i = a"
  using assms by (auto simp: heap_nodes_def)

lemma heap_nodes_idx:
  assumes "heap_wf s" and "a \<in> heap_nodes s"
  shows "1 \<le> hn_idx (snd s a)" and "hn_idx (snd s a) \<le> hn (fst s)"
    and "harray (fst s) ! hn_idx (snd s a) = a"
  using assms by (auto elim!: heap_nodesE dest: heap_wfD(2))

subsection \<open>Exchanging two slots\<close>

definition key_swap :: "(nat \<Rightarrow> 'k) \<Rightarrow> nat \<Rightarrow> nat \<Rightarrow> nat \<Rightarrow> 'k" where
  "key_swap k i j = k(i := k j, j := k i)"

lemma swap_nodes_harray:
  "harray (fst (swap_nodes s i j)) =
     (harray (fst s))[i := harray (fst s) ! j, j := harray (fst s) ! i]"
  by (cases s) (simp add: swap_nodes_def put_node_def Let_def)

lemma swap_nodes_hallocated [simp]: "hallocated (fst (swap_nodes s i j)) = hallocated (fst s)"
  by (cases s) (simp add: swap_nodes_def put_node_def Let_def)

lemma swap_nodes_priority [simp]:
  "hn_priority (snd (swap_nodes s i j) a) = hn_priority (snd s a)"
  by (cases s) (simp add: swap_nodes_def put_node_def Let_def)

lemma swap_nodes_idx:
  "hn_idx (snd (swap_nodes s i j) a) =
     (if a = harray (fst s) ! i then j
      else if a = harray (fst s) ! j then i else hn_idx (snd s a))"
  by (cases s) (simp add: swap_nodes_def put_node_def Let_def)

lemma swap_nodes_slot:
  assumes "heap_wf s" "1 \<le> i" "i \<le> hn (fst s)" "1 \<le> j" "j \<le> hn (fst s)"
  shows "harray (fst (swap_nodes s i j)) ! x =
     (if x = j then harray (fst s) ! i
      else if x = i then harray (fst s) ! j else harray (fst s) ! x)"
  using heap_wfD(1)[OF assms(1-3)] heap_wfD(1)[OF assms(1,4,5)]
  by (simp add: swap_nodes_harray nth_list_update)

lemma hprio_swap_nodes:
  assumes "heap_wf s" "1 \<le> i" "i \<le> hn (fst s)" "1 \<le> j" "j \<le> hn (fst s)"
  shows "hprio (swap_nodes s i j) = key_swap (hprio s) i j"
  using swap_nodes_slot[OF assms] by (auto simp: hprio_def key_swap_def fun_eq_iff)

lemma heap_wf_swap_nodes:
  assumes "heap_wf s" "1 \<le> i" "i \<le> hn (fst s)" "1 \<le> j" "j \<le> hn (fst s)"
  shows "heap_wf (swap_nodes s i j)"
proof -
  have "hn_idx (snd (swap_nodes s i j) (harray (fst (swap_nodes s i j)) ! x)) = x"
    if x: "1 \<le> x" "x \<le> hn (fst s)" for x
    using heap_slot_inj[OF assms(1) x] heap_wfD(2)[OF assms(1) x] assms
    by (auto simp: swap_nodes_slot[OF assms] swap_nodes_idx)
  then show ?thesis
    using assms(1) by (simp add: heap_wf_def swap_nodes_harray)
qed

lemma heap_nodes_swap_nodes:
  assumes "heap_wf s" "1 \<le> i" "i \<le> hn (fst s)" "1 \<le> j" "j \<le> hn (fst s)"
  shows "heap_nodes (swap_nodes s i j) = heap_nodes s"
proof -
  define f where "f x = (if x = j then i else if x = i then j else x)" for x
  have "(\<lambda>x. harray (fst (swap_nodes s i j)) ! x) = (\<lambda>x. harray (fst s) ! x) \<circ> f"
    by (auto simp: f_def swap_nodes_slot[OF assms])
  then have "heap_nodes (swap_nodes s i j) = (\<lambda>x. harray (fst s) ! x) ` (f ` {1..hn (fst s)})"
    by (simp add: heap_nodes_def image_comp)
  moreover have "f ` {1..hn (fst s)} = {1..hn (fst s)}"
    using assms by (force simp: image_iff f_def)
  ultimately show ?thesis by (simp add: heap_nodes_def)
qed

lemma heap_abs_swap_nodes:
  assumes "heap_wf s" "1 \<le> i" "i \<le> hn (fst s)" "1 \<le> j" "j \<le> hn (fst s)"
  shows "heap_abs (swap_nodes s i j) = heap_abs s"
  by (simp add: heap_abs_def fun_eq_iff heap_nodes_swap_nodes[OF assms])

lemmas swap_nodes_keeps = heap_wf_swap_nodes heap_abs_swap_nodes hprio_swap_nodes

subsection \<open>Heap order with one slot out of place\<close>

text \<open>
  The four predicates speak of the keys only.  \<open>keys_up\<close>: only the slot \<open>i\<close> may be greater
  than its parent.  \<open>keys_down\<close>: only the slot \<open>i\<close> may be smaller than a child.
  \<open>keys_any\<close>: the key of slot \<open>i\<close> is arbitrary.
\<close>

definition keys_heap :: "nat \<Rightarrow> (nat \<Rightarrow> 'k::linorder) \<Rightarrow> bool" where
  "keys_heap n k \<longleftrightarrow> (\<forall>x. 2 \<le> x \<and> x \<le> n \<longrightarrow> k x \<le> k (x div 2))"

definition keys_any :: "nat \<Rightarrow> nat \<Rightarrow> (nat \<Rightarrow> 'k::linorder) \<Rightarrow> bool" where
  "keys_any n i k \<longleftrightarrow> (\<forall>x. 2 \<le> x \<and> x \<le> n \<longrightarrow>
     (x \<noteq> i \<and> x div 2 \<noteq> i \<longrightarrow> k x \<le> k (x div 2)) \<and>
     (x div 2 = i \<and> 2 \<le> i \<longrightarrow> k x \<le> k (i div 2)))"

definition keys_up :: "nat \<Rightarrow> nat \<Rightarrow> (nat \<Rightarrow> 'k::linorder) \<Rightarrow> bool" where
  "keys_up n i k \<longleftrightarrow> keys_any n i k \<and> (\<forall>x. 2 \<le> x \<and> x \<le> n \<and> x div 2 = i \<longrightarrow> k x \<le> k i)"

definition keys_down :: "nat \<Rightarrow> nat \<Rightarrow> (nat \<Rightarrow> 'k::linorder) \<Rightarrow> bool" where
  "keys_down n i k \<longleftrightarrow> keys_any n i k \<and> (2 \<le> i \<and> i \<le> n \<longrightarrow> k i \<le> k (i div 2))"

text \<open>For \<open>heap_rebuild\<close>: order holds below every slot from \<open>m\<close> on.\<close>

definition keys_from :: "nat \<Rightarrow> nat \<Rightarrow> (nat \<Rightarrow> 'k::linorder) \<Rightarrow> bool" where
  "keys_from n m k \<longleftrightarrow> (\<forall>x. x \<le> n \<and> m \<le> x div 2 \<and> 1 \<le> x div 2 \<longrightarrow> k x \<le> k (x div 2))"

definition keys_from_except :: "nat \<Rightarrow> nat \<Rightarrow> nat \<Rightarrow> (nat \<Rightarrow> 'k::linorder) \<Rightarrow> bool" where
  "keys_from_except n m i k \<longleftrightarrow> (\<forall>x. x \<le> n \<and> m \<le> x div 2 \<and> 1 \<le> x div 2 \<longrightarrow>
     (x div 2 \<noteq> i \<longrightarrow> k x \<le> k (x div 2)) \<and>
     (x div 2 = i \<and> m \<le> i div 2 \<and> 1 \<le> i div 2 \<longrightarrow> k x \<le> k (i div 2)))"

lemma heap_ordered_keys: "heap_ordered s = keys_heap (hn (fst s)) (hprio s)"
  by (simp add: heap_ordered_def keys_heap_def)

lemma keys_up_root: "keys_up n i k \<Longrightarrow> i \<le> 1 \<Longrightarrow> keys_heap n k"
  unfolding keys_up_def keys_any_def keys_heap_def by (metis One_nat_def Suc_leD not_less_eq_eq numeral_2_eq_2)

lemma keys_up_stop:
  assumes "keys_up n i k" and "k i \<le> k (i div 2)"
  shows "keys_heap n k"
  using assms unfolding keys_up_def keys_any_def keys_heap_def by metis

lemma keys_up_step:
  assumes "keys_up n i k" "1 < i" "i \<le> n" "k (i div 2) < k i"
  shows "keys_up n (i div 2) (key_swap k (i div 2) i)"
proof -
  let ?p = "i div 2" and ?k = "key_swap k (i div 2) i"
  have any: "\<And>x. 2 \<le> x \<Longrightarrow> x \<le> n \<Longrightarrow> x \<noteq> i \<Longrightarrow> k x \<le> k (x div 2)"
    and gp: "\<And>x. 2 \<le> x \<Longrightarrow> x \<le> n \<Longrightarrow> x div 2 = i \<Longrightarrow> k x \<le> k ?p"
    using assms(1,2) unfolding keys_up_def keys_any_def by auto
  have kp: "?k ?p = k i" and ki: "?k i = k ?p"
    and ko: "\<And>x. x \<noteq> i \<Longrightarrow> x \<noteq> ?p \<Longrightarrow> ?k x = k x"
    using assms(2) by (auto simp: key_swap_def)
  have c1: "?k x \<le> ?k (x div 2)" if x: "2 \<le> x" "x \<le> n" "x \<noteq> ?p" for x
  proof (cases "x = i")
    case True
    then show ?thesis using kp ki assms(4) by simp
  next
    case False
    then have kx: "?k x = k x" using x ko by simp
    consider "x div 2 = i" | "x div 2 = ?p" | "x div 2 \<noteq> i" "x div 2 \<noteq> ?p" by blast
    then show ?thesis
    proof cases
      case 1
      then show ?thesis using gp x kx ki by simp
    next
      case 2
      then have "k x \<le> k ?p" using any[OF x(1,2) False] by simp
      then show ?thesis using 2 kx kp assms(4) by simp
    next
      case 3
      then show ?thesis using any[OF x(1,2) False] kx ko by simp
    qed
  qed
  have c2: "?k x \<le> ?k (?p div 2)" if x: "2 \<le> x" "x \<le> n" "x div 2 = ?p" "2 \<le> ?p" for x
  proof -
    have pp: "k ?p \<le> k (?p div 2)" using any[of ?p] x assms(2,3) by auto
    have kpp: "?k (?p div 2) = k (?p div 2)" using ko[of "?p div 2"] x assms(2) by auto
    have "?k x \<le> k ?p"
      using ko[of x] any[of x] x ki by (cases "x = i") auto
    then show ?thesis using pp kpp by simp
  qed
  have c3: "?k x \<le> ?k ?p" if x: "2 \<le> x" "x \<le> n" "x div 2 = ?p" for x
    using c1[of x] x by auto
  show ?thesis
    unfolding keys_up_def keys_any_def using c1 c2 c3 by blast
qed

lemma keys_down_stop:
  assumes "keys_down n i k" and "\<forall>x. 2 \<le> x \<and> x \<le> n \<and> x div 2 = i \<longrightarrow> k x \<le> k i"
  shows "keys_heap n k"
  using assms unfolding keys_down_def keys_any_def keys_heap_def by metis


lemma keys_any_child: "keys_any n i k \<Longrightarrow> 2 \<le> x \<Longrightarrow> x \<le> n \<Longrightarrow> x \<noteq> i \<Longrightarrow> x div 2 \<noteq> i \<Longrightarrow> k x \<le> k (x div 2)"
  unfolding keys_any_def by blast

lemma keys_any_grandchild: "keys_any n i k \<Longrightarrow> 2 \<le> x \<Longrightarrow> x \<le> n \<Longrightarrow> x div 2 = i \<Longrightarrow> 2 \<le> i \<Longrightarrow> k x \<le> k (i div 2)"
  unfolding keys_any_def by blast

lemma keys_down_step:
  assumes "keys_down n i k" "1 \<le> i" "m \<le> n" "m div 2 = i" "2 \<le> m" "k i < k m"
    and mx: "\<And>x. 2 \<le> x \<Longrightarrow> x \<le> n \<Longrightarrow> x div 2 = i \<Longrightarrow> k x \<le> k m"
  shows "keys_down n m (key_swap k m i)"
proof -
  let ?k = "key_swap k m i"
  have any: "keys_any n i k" and par: "2 \<le> i \<Longrightarrow> i \<le> n \<Longrightarrow> k i \<le> k (i div 2)"
    using assms(1) by (auto simp: keys_down_def)
  have im: "i < m" using assms(4,5) by auto
  have km: "?k m = k i" and ki: "?k i = k m" and ko: "\<And>x. x \<noteq> i \<Longrightarrow> x \<noteq> m \<Longrightarrow> ?k x = k x"
    using im by (auto simp: key_swap_def)
  have c1: "?k x \<le> ?k (x div 2)" if x: "2 \<le> x" "x \<le> n" "x div 2 \<noteq> m" for x
  proof -
    consider "x = m" | "x = i" | "x \<noteq> i" "x \<noteq> m" "x div 2 = i" | "x \<noteq> i" "x \<noteq> m" "x div 2 \<noteq> i"
      by blast
    then show ?thesis
    proof cases
      case 1
      then show ?thesis using km ki assms(4,6) by simp
    next
      case 2
      then have "k m \<le> k (i div 2)"
        using keys_any_grandchild[OF any] assms x by auto
      then show ?thesis using 2 ki ko[of "i div 2"] x by auto
    next
      case 3
      then show ?thesis using mx[of x] x ki ko[of x] by simp
    next
      case 4
      then show ?thesis using keys_any_child[OF any x(1,2)] ko x by simp
    qed
  qed
  have c2: "?k x \<le> ?k (m div 2)" if x: "2 \<le> x" "x \<le> n" "x div 2 = m" for x
  proof -
    have "k x \<le> k (x div 2)" using keys_any_child[OF any x(1,2)] x im by auto
    then show ?thesis using x im ki ko[of x] assms(4) by auto
  qed
  show ?thesis
    unfolding keys_down_def keys_any_def using c1 c2 assms(5) by auto
qed

lemma keys_from_step:
  assumes "keys_from_except n b i k" "b \<le> i" "1 \<le> i" "m \<le> n" "m div 2 = i" "2 \<le> m" "k i < k m"
    and mx: "\<And>x. 2 \<le> x \<Longrightarrow> x \<le> n \<Longrightarrow> x div 2 = i \<Longrightarrow> k x \<le> k m"
  shows "keys_from_except n b m (key_swap k m i)"
proof -
  let ?k = "key_swap k m i"
  have im: "i < m" using assms(5,6) by auto
  have km: "?k m = k i" and ki: "?k i = k m" and ko: "\<And>x. x \<noteq> i \<Longrightarrow> x \<noteq> m \<Longrightarrow> ?k x = k x"
    using im by (auto simp: key_swap_def)
  have ord: "\<And>x. x \<le> n \<Longrightarrow> b \<le> x div 2 \<Longrightarrow> 1 \<le> x div 2 \<Longrightarrow> x div 2 \<noteq> i \<Longrightarrow> k x \<le> k (x div 2)"
    and gp: "\<And>x. x \<le> n \<Longrightarrow> x div 2 = i \<Longrightarrow> b \<le> i div 2 \<Longrightarrow> 1 \<le> i div 2 \<Longrightarrow> k x \<le> k (i div 2)"
    using assms(1-3) unfolding keys_from_except_def by auto
  have c1: "?k x \<le> ?k (x div 2)" if x: "x \<le> n" "b \<le> x div 2" "1 \<le> x div 2" "x div 2 \<noteq> m" for x
  proof -
    consider "x = m" | "x = i" | "x \<noteq> i" "x \<noteq> m" "x div 2 = i" | "x \<noteq> i" "x \<noteq> m" "x div 2 \<noteq> i"
      by blast
    then show ?thesis
    proof cases
      case 1
      then show ?thesis using km ki assms(5,7) by simp
    next
      case 2
      then show ?thesis using gp[of m] assms(4,5) x ki ko[of "i div 2"] by auto
    next
      case 3
      then show ?thesis using mx[of x] x ki ko[of x] by auto
    next
      case 4
      then show ?thesis using ord[OF x(1-3)] ko x by simp
    qed
  qed
  have c2: "?k x \<le> ?k (m div 2)" if x: "x \<le> n" "x div 2 = m" "b \<le> m" "1 \<le> m" for x
    using ord[of x] x im ki ko[of x] assms(5) by auto
  show ?thesis
    unfolding keys_from_except_def using c1 c2 im assms(2,3) by auto
qed

subsection \<open>The two sifting loops\<close>

text \<open>What every sifting loop keeps: size, well-formedness and the abstract map.\<close>

definition heap_same :: "heap_state \<Rightarrow> heap_state \<Rightarrow> bool" where
  "heap_same s t \<longleftrightarrow> heap_wf t \<and> heap_abs t = heap_abs s \<and> hn (fst t) = hn (fst s)"

lemma heap_same_refl: "heap_wf s \<Longrightarrow> heap_same s s"
  by (simp add: heap_same_def)

lemma heap_same_swap:
  assumes "heap_wf s" "1 \<le> i" "i \<le> hn (fst s)" "1 \<le> j" "j \<le> hn (fst s)"
    and "heap_same (swap_nodes s i j) t"
  shows "heap_same s t"
  using swap_nodes_keeps[OF assms(1-5)] assms(6) by (simp add: heap_same_def)

lemma float_up_loop_same:
  "heap_wf s \<Longrightarrow> i \<le> hn (fst s) \<Longrightarrow> heap_same s (fst (float_up_loop s i mv))"
proof (induction s i mv rule: float_up_loop.induct)
  case (1 s i mv)
  show ?case
  proof (cases "i > 1 \<and> \<not> hprio s (heap_parent i) \<ge> hprio s i")
    case True
    let ?p = "heap_parent i"
    have b: "1 \<le> ?p" "?p \<le> hn (fst s)" "1 \<le> i" using True "1.prems" by (auto simp: heap_parent_def)
    have "heap_same (swap_nodes s ?p i) (fst (float_up_loop (swap_nodes s ?p i) ?p True))"
      using "1.IH"[OF _ refl] True b "1.prems" heap_wf_swap_nodes by simp
    then show ?thesis
      using heap_same_swap[OF "1.prems"(1) b(1,2,3) "1.prems"(2)] True
      by (subst float_up_loop.simps) (simp add: Let_def)
  next
    case False
    then show ?thesis using "1.prems"
      by (subst float_up_loop.simps) (auto simp: Let_def heap_same_refl)
  qed
qed

lemma float_up_loop_ordered:
  "heap_wf s \<Longrightarrow> i \<le> hn (fst s) \<Longrightarrow> keys_up (hn (fst s)) i (hprio s) \<Longrightarrow>
   heap_ordered (fst (float_up_loop s i mv))"
proof (induction s i mv rule: float_up_loop.induct)
  case (1 s i mv)
  let ?p = "heap_parent i"
  consider "i \<le> 1" | "1 < i" "hprio s ?p \<ge> hprio s i" | "1 < i" "hprio s ?p < hprio s i"
    by (meson not_le)
  then show ?case
  proof cases
    case 1
    then show ?thesis using keys_up_root "1.prems"
      by (subst float_up_loop.simps) (simp add: heap_ordered_keys)
  next
    case 2
    then show ?thesis using keys_up_stop[OF "1.prems"(3)]
      by (subst float_up_loop.simps) (simp add: heap_ordered_keys heap_parent_def)
  next
    case 3
    have b: "1 \<le> ?p" "?p \<le> hn (fst s)" "1 \<le> i" using 3 "1.prems" by (auto simp: heap_parent_def)
    have "heap_ordered (fst (float_up_loop (swap_nodes s ?p i) ?p True))"
      using "1.IH"[OF 3(1) refl] 3 b "1.prems" keys_up_step[OF "1.prems"(3) 3(1) "1.prems"(2)]
      by (simp add: heap_wf_swap_nodes hprio_swap_nodes heap_parent_def)
    then show ?thesis using 3 by (subst float_up_loop.simps) (auto simp: Let_def dest: leD)
  qed
qed

lemma float_up_loop_flag: "mv \<Longrightarrow> snd (float_up_loop s i mv)"
  by (induction s i mv rule: float_up_loop.induct) (subst float_up_loop.simps, simp add: Let_def)

lemma float_up_moved:
  "snd (float_up s i) \<longleftrightarrow> 1 < i \<and> hprio s (heap_parent i) < hprio s i"
  unfolding float_up_def by (subst float_up_loop.simps) (auto simp: Let_def float_up_loop_flag)

lemma float_up_unmoved: "\<not> snd (float_up s i) \<Longrightarrow> fst (float_up s i) = s"
  unfolding float_up_moved unfolding float_up_def
  by (subst float_up_loop.simps) (auto simp: Let_def)

lemma float_down_max_greatest:
  assumes "2 \<le> x" "x \<le> hn (fst s)" "x div 2 = i"
  shows "hprio s x \<le> hprio s (float_down_max s i)"
proof -
  have "x = heap_left i \<or> x = heap_right i" using assms by (auto simp: heap_left_def heap_right_def)
  then show ?thesis using assms
    unfolding float_down_max_def Let_def by (auto split: if_splits)
qed

lemma float_down_max_parent:
  assumes "1 \<le> i" "float_down_max s i \<noteq> i"
  shows "float_down_max s i div 2 = i" and "2 \<le> float_down_max s i"
    and "hprio s i < hprio s (float_down_max s i)"
  using float_down_max_cases[of s i] assms by (auto simp: heap_left_def heap_right_def)

lemma heap_is_leaf_no_child: "heap_is_leaf h i \<Longrightarrow> x \<le> hn h \<Longrightarrow> 2 \<le> x \<Longrightarrow> x div 2 \<noteq> i"
  by (auto simp: heap_is_leaf_def heap_left_def)

text \<open>
  One induction serves every use of \<open>float_down\<close>: an invariant \<open>R\<close> of the keys and the
  current slot that each exchange keeps, and a final claim \<open>Q\<close> that follows from \<open>R\<close> once
  the slot dominates its children.
\<close>

lemma float_down_rule:
  assumes step: "\<And>k i m. R k i \<Longrightarrow> 1 \<le> i \<Longrightarrow> m \<le> n \<Longrightarrow> m div 2 = i \<Longrightarrow> 2 \<le> m \<Longrightarrow> k i < k m \<Longrightarrow>
      (\<And>x. 2 \<le> x \<Longrightarrow> x \<le> n \<Longrightarrow> x div 2 = i \<Longrightarrow> k x \<le> k m) \<Longrightarrow> R (key_swap k m i) m"
    and stop: "\<And>k i. R k i \<Longrightarrow> (\<And>x. 2 \<le> x \<Longrightarrow> x \<le> n \<Longrightarrow> x div 2 = i \<Longrightarrow> k x \<le> k i) \<Longrightarrow> Q k"
  shows "heap_wf s \<Longrightarrow> 1 \<le> i \<Longrightarrow> i \<le> hn (fst s) \<Longrightarrow> hn (fst s) = n \<Longrightarrow> R (hprio s) i \<Longrightarrow>
    heap_same s (float_down s i) \<and> Q (hprio (float_down s i))"
proof (induction s i rule: float_down.induct)
  case (1 s i)
  let ?m = "float_down_max s i"
  have gr: "\<And>x. 2 \<le> x \<Longrightarrow> x \<le> n \<Longrightarrow> x div 2 = i \<Longrightarrow> hprio s x \<le> hprio s ?m"
    using float_down_max_greatest "1.prems"(4) by blast
  consider "heap_is_leaf (fst s) i" | "\<not> heap_is_leaf (fst s) i" "?m = i"
    | "\<not> heap_is_leaf (fst s) i" "?m \<noteq> i" by blast
  then show ?case
  proof cases
    case 1
    then have "Q (hprio s)"
      using stop[OF "1.prems"(5)] heap_is_leaf_no_child "1.prems"(4) by metis
    with 1 show ?thesis using heap_same_refl[OF "1.prems"(1)]
      by (subst (1 2) float_down.simps) simp
  next
    case 2
    then have "Q (hprio s)" using stop[OF "1.prems"(5)] gr by metis
    with 2 show ?thesis using heap_same_refl[OF "1.prems"(1)]
      by (subst (1 2) float_down.simps) (simp add: Let_def)
  next
    case 3
    note gt = float_down_max_greater[OF 3] and pa = float_down_max_parent[OF "1.prems"(2) 3(2)]
    have b: "1 \<le> ?m" "?m \<le> hn (fst s)" using gt by auto
    note sw = swap_nodes_keeps[OF "1.prems"(1) b "1.prems"(2,3)]
    have "R (hprio (swap_nodes s ?m i)) ?m"
      unfolding sw(3)
      by (rule step[OF "1.prems"(5,2) _ pa gr]) (use b "1.prems"(4) in linarith)
    then have ih: "heap_same (swap_nodes s ?m i) (float_down (swap_nodes s ?m i) ?m) \<and>
        Q (hprio (float_down (swap_nodes s ?m i) ?m))"
      using "1.IH"[OF 3(1) refl 3(2)] sw(1) b "1.prems"(4) by simp
    then show ?thesis
      using heap_same_swap[OF "1.prems"(1) b "1.prems"(2,3)] 3
      by (subst (1 2) float_down.simps) (simp add: Let_def)
  qed
qed

lemma float_down_ordered:
  assumes "heap_wf s" "1 \<le> i" "i \<le> hn (fst s)" "keys_down (hn (fst s)) i (hprio s)"
  shows "heap_same s (float_down s i) \<and> heap_ordered (float_down s i)"
proof -
  have "heap_same s (float_down s i) \<and> keys_heap (hn (fst s)) (hprio (float_down s i))"
    by (rule float_down_rule[where R = "\<lambda>k i. keys_down (hn (fst s)) i k" and n = "hn (fst s)"])
      (simp_all add: assms(1,3,4) assms(2)[simplified] keys_down_step keys_down_stop)
  then show ?thesis by (auto simp: heap_ordered_keys heap_same_def)
qed

lemma float_down_from:
  assumes "heap_wf s" "1 \<le> i" "i \<le> hn (fst s)" "keys_from (hn (fst s)) (Suc i) (hprio s)"
  shows "heap_same s (float_down s i) \<and> keys_from (hn (fst s)) i (hprio (float_down s i))"
proof (rule float_down_rule[where R = "\<lambda>k j. i \<le> j \<and> keys_from_except (hn (fst s)) i j k" and n = "hn (fst s)"])
  have "hprio s x \<le> hprio s (x div 2)"
    if "x \<le> hn (fst s)" "i \<le> x div 2" "x div 2 \<noteq> i" for x
  proof -
    have "Suc i \<le> x div 2" "1 \<le> x div 2" using that by linarith+
    then show ?thesis using assms(4) that(1) unfolding keys_from_def by blast
  qed
  moreover have "\<not> i \<le> i div 2" using assms(2) by linarith
  ultimately show "i \<le> i \<and> keys_from_except (hn (fst s)) i i (hprio s)"
    unfolding keys_from_except_def by blast
  fix k :: "nat \<Rightarrow> uint64_t" and j m
  assume R: "i \<le> j \<and> keys_from_except (hn (fst s)) i j k"
  { assume "1 \<le> j" "m \<le> hn (fst s)" "m div 2 = j" "2 \<le> m" "k j < k m"
      "\<And>x. 2 \<le> x \<Longrightarrow> x \<le> hn (fst s) \<Longrightarrow> x div 2 = j \<Longrightarrow> k x \<le> k m"
    then show "i \<le> m \<and> keys_from_except (hn (fst s)) i m (key_swap k m j)"
      using keys_from_step[of "hn (fst s)" i j k m] R by auto }
  { assume dom: "\<And>x. 2 \<le> x \<Longrightarrow> x \<le> hn (fst s) \<Longrightarrow> x div 2 = j \<Longrightarrow> k x \<le> k j"
    show "keys_from (hn (fst s)) i k"
      unfolding keys_from_def
    proof (intro allI impI, elim conjE)
      fix x assume x: "x \<le> hn (fst s)" "i \<le> x div 2" "1 \<le> x div 2"
      show "k x \<le> k (x div 2)"
      proof (cases "x div 2 = j")
        case True
        have "2 \<le> x" using x(3) by simp
        with dom x(1) True show ?thesis by simp
      next
        case False
        with R x show ?thesis unfolding keys_from_except_def by simp
      qed
    qed }
qed (use assms in auto)

lemma float_up_or_down_ordered:
  assumes "heap_wf s" "1 \<le> i" "i \<le> hn (fst s)" "keys_any (hn (fst s)) i (hprio s)"
  shows "heap_same s (float_up_or_down s i) \<and> heap_ordered (float_up_or_down s i)"
proof (cases "1 < i \<and> hprio s (heap_parent i) < hprio s i")
  case True
  then have "keys_up (hn (fst s)) i (hprio s)"
    using assms(4) keys_any_grandchild[OF assms(4)] unfolding keys_up_def heap_parent_def
    by fastforce
  then show ?thesis
    using float_up_loop_same[OF assms(1,3), of False] float_up_loop_ordered[OF assms(1,3), of False] True
      float_up_moved[of s i]
    by (auto simp: float_up_or_down_def float_up_def split: prod.splits)
next
  case False
  then have "keys_down (hn (fst s)) i (hprio s)"
    using assms(4) unfolding keys_down_def heap_parent_def by auto
  then show ?thesis
    using float_down_ordered[OF assms(1-3)] float_up_unmoved[of s i] float_up_moved[of s i] False
    by (auto simp: float_up_or_down_def split: prod.splits)
qed

subsection \<open>The public operations\<close>

text \<open>The invariant every public operation keeps.\<close>

definition heap_inv :: "heap_state \<Rightarrow> bool" where
  "heap_inv s \<longleftrightarrow> heap_wf s \<and> heap_ordered s"

lemma heap_abs_None_iff: "heap_abs s a = None \<longleftrightarrow> a \<notin> heap_nodes s"
  by (simp add: heap_abs_def)

lemma xrealloc_array_simps [simp]:
  "length (xrealloc_array xs k) = k"
  "i < length xs \<Longrightarrow> i < k \<Longrightarrow> xrealloc_array xs k ! i = xs ! i"
  by (auto simp: xrealloc_array_def nth_append)

lemma heap_raw_insert_hn [simp]: "hn (fst (heap_raw_insert s a p)) = hn (fst s) + 1"
  by (cases s) (simp add: heap_raw_insert_def put_node_def Let_def)

lemma heap_raw_insert_mem:
  "snd (heap_raw_insert s a p) = (snd s)(a := (snd s a)\<lparr>hn_idx := hn (fst s) + 1, hn_priority := p\<rparr>)"
  by (cases s) (simp add: heap_raw_insert_def put_node_def Let_def)

lemma heap_raw_insert_slot:
  assumes "heap_wf s" "1 \<le> i" "i \<le> hn (fst s) + 1"
  shows "harray (fst (heap_raw_insert s a p)) ! i =
    (if i = hn (fst s) + 1 then a else harray (fst s) ! i)"
  using assms
  by (cases s) (auto simp: heap_wf_def heap_raw_insert_def put_node_def Let_def nth_list_update
      split: if_splits)

lemma heap_raw_insert_size:
  assumes "heap_wf s"
  shows "length (harray (fst (heap_raw_insert s a p))) = hallocated (fst (heap_raw_insert s a p)) + 1"
    and "hn (fst s) + 1 \<le> hallocated (fst (heap_raw_insert s a p))"
  using assms
  by (cases s; auto simp: heap_wf_def heap_raw_insert_def put_node_def Let_def split: if_splits)+

lemma heap_wf_raw_insert:
  assumes "heap_wf s" "a \<notin> heap_nodes s"
  shows "heap_wf (heap_raw_insert s a p)"
proof -
  have "harray (fst s) ! i \<noteq> a" if "1 \<le> i" "i \<le> hn (fst s)" for i
    using assms(2) that by (auto simp: heap_nodes_def)
  then have "hn_idx (snd (heap_raw_insert s a p) (harray (fst (heap_raw_insert s a p)) ! i)) = i"
    if "1 \<le> i" "i \<le> hn (fst s) + 1" for i
    using that heap_wfD(2)[OF assms(1), of i]
    by (cases "i = hn (fst s) + 1")
      (simp_all add: heap_raw_insert_slot[OF assms(1)] heap_raw_insert_mem)
  then show ?thesis
    using heap_raw_insert_size[OF assms(1), of a p] by (simp add: heap_wf_def)
qed

lemma heap_nodes_raw_insert:
  assumes "heap_wf s"
  shows "heap_nodes (heap_raw_insert s a p) = insert a (heap_nodes s)"
proof -
  have "{1..hn (fst s) + 1} = insert (hn (fst s) + 1) {1..hn (fst s)}" by auto
  then show ?thesis
    using heap_raw_insert_slot[OF assms, of _ a p] by (auto simp: heap_nodes_def)
qed

lemma heap_abs_raw_insert:
  assumes "heap_wf s"
  shows "heap_abs (heap_raw_insert s a p) = (heap_abs s)(a \<mapsto> p)"
  by (auto simp: heap_abs_def heap_nodes_raw_insert[OF assms] heap_raw_insert_mem)

lemma hprio_raw_insert:
  assumes "heap_wf s" "a \<notin> heap_nodes s" "1 \<le> i" "i \<le> hn (fst s)"
  shows "hprio (heap_raw_insert s a p) i = hprio s i"
proof -
  have "harray (fst s) ! i \<noteq> a" using assms(2-4) by (auto simp: heap_nodes_def)
  then show ?thesis
    using heap_raw_insert_slot[OF assms(1,3), of a p] assms(4)
    by (simp add: hprio_def heap_raw_insert_mem)
qed

lemma heap_insert_correct:
  assumes "heap_inv s" "a \<notin> heap_nodes s"
  shows "heap_inv (heap_insert s a p) \<and> heap_abs (heap_insert s a p) = (heap_abs s)(a \<mapsto> p)"
proof -
  let ?t = "heap_raw_insert s a p" and ?n = "hn (fst s) + 1"
  have wf: "heap_wf s" and ord: "heap_ordered s" using assms by (auto simp: heap_inv_def)
  have wt: "heap_wf ?t" by (rule heap_wf_raw_insert[OF wf assms(2)])
  have "hprio ?t x \<le> hprio ?t (x div 2)" if "2 \<le> x" "x \<le> hn (fst s)" for x
    using that ord hprio_raw_insert[OF wf assms(2)] by (simp add: heap_ordered_def)
  then have "keys_up (hn (fst ?t)) ?n (hprio ?t)"
    unfolding keys_up_def keys_any_def by auto
  then show ?thesis
    using float_up_loop_same[OF wt, of ?n False] float_up_loop_ordered[OF wt, of ?n False]
      heap_abs_raw_insert[OF wf]
    by (simp add: heap_insert_def float_up_def Let_def heap_raw_insert_mem heap_inv_def heap_same_def)
qed

lemma heap_raw_remove_hn [simp]: "hn (fst (heap_raw_remove s a)) = hn (fst s) - 1"
  by (cases s) (simp add: heap_raw_remove_def put_node_def Let_def)

lemma heap_raw_remove_priority [simp]:
  "hn_priority (snd (heap_raw_remove s a) b) = hn_priority (snd s b)"
  by (cases s) (simp add: heap_raw_remove_def put_node_def Let_def)

lemma heap_raw_remove_idx:
  "hn_idx (snd (heap_raw_remove s a) b) =
     (if hn_idx (snd s a) < hn (fst s) \<and> b = harray (fst s) ! hn (fst s)
      then hn_idx (snd s a) else hn_idx (snd s b))"
  by (cases s) (simp add: heap_raw_remove_def put_node_def Let_def)

lemma heap_raw_remove_harray:
  "harray (fst (heap_raw_remove s a)) =
     (if hn_idx (snd s a) < hn (fst s)
      then (harray (fst s))[hn_idx (snd s a) := harray (fst s) ! hn (fst s)] else harray (fst s))"
  by (cases s) (simp add: heap_raw_remove_def put_node_def Let_def)

lemma heap_raw_remove_hallocated [simp]:
  "hallocated (fst (heap_raw_remove s a)) = hallocated (fst s)"
  by (cases s) (simp add: heap_raw_remove_def put_node_def Let_def)

lemma heap_raw_remove_slot:
  assumes "heap_wf s" "a \<in> heap_nodes s" "1 \<le> x" "x < hn (fst s)"
  shows "harray (fst (heap_raw_remove s a)) ! x =
     (if x = hn_idx (snd s a) then harray (fst s) ! hn (fst s) else harray (fst s) ! x)"
  using heap_nodes_idx[OF assms(1,2)] heap_wfD(1)[OF assms(1), of x] assms(3,4)
  by (auto simp: heap_raw_remove_harray nth_list_update)

lemma heap_wf_raw_remove:
  assumes "heap_wf s" "a \<in> heap_nodes s"
  shows "heap_wf (heap_raw_remove s a)"
proof -
  note ia = heap_nodes_idx[OF assms]
  have "hn_idx (snd (heap_raw_remove s a) (harray (fst (heap_raw_remove s a)) ! x)) = x"
    if "1 \<le> x" "x \<le> hn (fst s) - 1" for x
  proof -
    have x: "1 \<le> x" "x < hn (fst s)" using that by linarith+
    have "harray (fst s) ! x \<noteq> harray (fst s) ! hn (fst s)"
      using heap_slot_inj[OF assms(1), of x "hn (fst s)"] x by auto
    then show ?thesis
      using heap_raw_remove_slot[OF assms x] heap_wfD(2)[OF assms(1), of x] x ia
      by (simp add: heap_raw_remove_idx)
  qed
  moreover have "length (harray (fst (heap_raw_remove s a))) = length (harray (fst s))"
    by (simp add: heap_raw_remove_harray)
  moreover have "hn (fst s) - 1 \<le> hallocated (fst s)"
    using assms(1) unfolding heap_wf_def by linarith
  ultimately show ?thesis
    using assms(1) unfolding heap_wf_def by simp
qed

lemma heap_nodes_raw_remove:
  assumes "heap_wf s" "a \<in> heap_nodes s"
  shows "heap_nodes (heap_raw_remove s a) = heap_nodes s - {a}"
proof -
  let ?n = "hn (fst s)" and ?i = "hn_idx (snd s a)"
  note ia = heap_nodes_idx[OF assms]
  have "b \<in> heap_nodes s - {a}" if bn: "b \<in> heap_nodes (heap_raw_remove s a)" for b
  proof -
    obtain x where "1 \<le> x" "x \<le> hn (fst (heap_raw_remove s a))"
      and b: "harray (fst (heap_raw_remove s a)) ! x = b"
      using bn by (rule heap_nodesE)
    then have x: "1 \<le> x" "x < ?n" by simp_all
    define y where "y = (if x = ?i then ?n else x)"
    have "b = harray (fst s) ! y" "1 \<le> y" "y \<le> ?n" "y \<noteq> ?i"
      using heap_raw_remove_slot[OF assms x] b x ia by (auto simp: y_def)
    then show ?thesis
      using heap_slot_inj[OF assms(1), of y ?i] ia by (auto simp: heap_nodes_def)
  qed
  moreover have "b \<in> heap_nodes (heap_raw_remove s a)" if b: "b \<in> heap_nodes s" "b \<noteq> a" for b
  proof -
    obtain y where y: "1 \<le> y" "y \<le> ?n" "harray (fst s) ! y = b"
      using b(1) by (rule heap_nodesE)
    have "y \<noteq> ?i" using y(3) b(2) ia(3) by auto
    define x where "x = (if y = ?n then ?i else y)"
    have x: "1 \<le> x" "x < ?n" using y ia \<open>y \<noteq> ?i\<close> by (auto simp: x_def)
    have "harray (fst (heap_raw_remove s a)) ! x = b"
      using heap_raw_remove_slot[OF assms x] y \<open>y \<noteq> ?i\<close> by (auto simp: x_def)
    then show ?thesis using x by (force simp: heap_nodes_def)
  qed
  ultimately show ?thesis by blast
qed

lemma heap_abs_raw_remove:
  assumes "heap_wf s" "a \<in> heap_nodes s"
  shows "heap_abs (heap_raw_remove s a) = (heap_abs s)(a := None)"
  by (auto simp: heap_abs_def heap_nodes_raw_remove[OF assms])

text \<open>Replacing one key leaves the order intact everywhere else.\<close>

lemma keys_heap_any:
  fixes k :: "nat \<Rightarrow> 'k::linorder"
  assumes "keys_heap n k" "m \<le> n" "1 \<le> i" "\<And>x. 1 \<le> x \<Longrightarrow> x \<le> m \<Longrightarrow> x \<noteq> i \<Longrightarrow> k' x = k x"
  shows "keys_any m i k'"
proof -
  have ord: "\<And>x. 2 \<le> x \<Longrightarrow> x \<le> m \<Longrightarrow> k x \<le> k (x div 2)"
    using assms(1,2) unfolding keys_heap_def by auto
  have "k' x \<le> k' (x div 2)" if "2 \<le> x" "x \<le> m" "x \<noteq> i" "x div 2 \<noteq> i" for x
    using ord[OF that(1,2)] assms(4)[of x] assms(4)[of "x div 2"] that by auto
  moreover have "k' x \<le> k' (i div 2)" if x: "2 \<le> x" "x \<le> m" "x div 2 = i" "2 \<le> i" for x
  proof -
    have i: "i \<le> m" "i < x" "1 \<le> i div 2" "i div 2 < i" using x by auto
    have "k x \<le> k (i div 2)"
      using ord[OF x(1,2)] ord[OF x(4) i(1)] x(3) by simp
    then show ?thesis using assms(4)[of x] assms(4)[of "i div 2"] x i by auto
  qed
  ultimately show ?thesis unfolding keys_any_def by blast
qed

lemma heap_remove_correct:
  assumes "heap_inv s" "a \<in> heap_nodes s"
  shows "heap_inv (heap_remove s a) \<and> heap_abs (heap_remove s a) = (heap_abs s)(a := None)"
proof -
  let ?t = "heap_raw_remove s a" and ?i = "hn_idx (snd s a)"
  have wf: "heap_wf s" and ord: "heap_ordered s" using assms by (auto simp: heap_inv_def)
  note ia = heap_nodes_idx[OF wf assms(2)]
  have wt: "heap_wf ?t" by (rule heap_wf_raw_remove[OF wf assms(2)])
  have same: "hprio ?t x = hprio s x" if "1 \<le> x" "x \<le> hn (fst ?t)" "x \<noteq> ?i" for x
    using heap_raw_remove_slot[OF wf assms(2), of x] that by (simp add: hprio_def)
  have any: "keys_any (hn (fst ?t)) ?i (hprio ?t)"
    by (rule keys_heap_any[OF ord[unfolded heap_ordered_keys]]) (use same ia(1) in auto)
  have "heap_same ?t (heap_remove s a) \<and> heap_ordered (heap_remove s a)"
  proof (cases "?i \<le> hn (fst ?t)")
    case True
    then show ?thesis
      using float_up_or_down_ordered[OF wt ia(1) True any] by (simp add: heap_remove_def Let_def)
  next
    case False
    then have "heap_ordered ?t"
      using ord same unfolding heap_ordered_def by auto
    then show ?thesis
      using False heap_same_refl[OF wt] by (simp add: heap_remove_def Let_def)
  qed
  then show ?thesis
    using heap_abs_raw_remove[OF wf assms(2)] by (auto simp: heap_inv_def heap_same_def)
qed

lemma heap_raw_change_simps [simp]:
  "fst (heap_raw_change s a p) = fst s"
  "hn_idx (snd (heap_raw_change s a p) b) = hn_idx (snd s b)"
  "hn_priority (snd (heap_raw_change s a p) b) = (if b = a then p else hn_priority (snd s b))"
  by (simp_all add: heap_raw_change_def)

lemma heap_raw_change_keeps [simp]:
  "heap_nodes (heap_raw_change s a p) = heap_nodes s"
  "heap_wf (heap_raw_change s a p) = heap_wf s"
  by (simp_all add: heap_nodes_def heap_wf_def)

lemma heap_change_correct:
  assumes "heap_inv s" "a \<in> heap_nodes s"
  shows "heap_inv (heap_change s a p) \<and> heap_abs (heap_change s a p) = (heap_abs s)(a \<mapsto> p)"
proof -
  let ?t = "heap_raw_change s a p" and ?i = "hn_idx (snd s a)"
  have wf: "heap_wf s" and ord: "heap_ordered s" using assms by (auto simp: heap_inv_def)
  note ia = heap_nodes_idx[OF wf assms(2)]
  have same: "hprio ?t x = hprio s x" if x: "1 \<le> x" "x \<le> hn (fst s)" "x \<noteq> ?i" for x
    using heap_wfD(2)[OF wf x(1,2)] x(3) by (auto simp: hprio_def)
  have "keys_any (hn (fst ?t)) ?i (hprio ?t)"
    by (rule keys_heap_any[OF ord[unfolded heap_ordered_keys]]) (use same ia(1) in auto)
  moreover have "heap_abs ?t = (heap_abs s)(a \<mapsto> p)"
    using assms(2) by (auto simp: heap_abs_def)
  ultimately show ?thesis
    using float_up_or_down_ordered[of ?t ?i] wf ia
    by (simp add: heap_change_def Let_def heap_inv_def heap_same_def)
qed

lemma heap_rebuild_loop_correct:
  "heap_wf s \<Longrightarrow> i \<le> hn (fst s) \<Longrightarrow> keys_from (hn (fst s)) (Suc i) (hprio s) \<Longrightarrow>
   heap_same s (heap_rebuild_loop s i) \<and> keys_from (hn (fst s)) 1 (hprio (heap_rebuild_loop s i))"
proof (induction i arbitrary: s)
  case 0
  then show ?case by (simp add: heap_same_refl)
next
  case (Suc i)
  note d = float_down_from[OF Suc.prems(1) _ Suc.prems(2,3)]
  show ?case using Suc.IH[of "float_down s (Suc i)"] d Suc.prems(2) by (simp add: heap_same_def)
qed

lemma heap_rebuild_correct:
  assumes "heap_wf s"
  shows "heap_inv (heap_rebuild s) \<and> heap_abs (heap_rebuild s) = heap_abs s"
proof -
  have "keys_from (hn (fst s)) (Suc (hn (fst s) div 2)) (hprio s)"
    unfolding keys_from_def by auto
  note r = heap_rebuild_loop_correct[OF assms _ this]
  have "keys_heap n k" if "keys_from n 1 k" for n and k :: "nat \<Rightarrow> uint64_t"
    using that unfolding keys_from_def keys_heap_def by auto
  then show ?thesis
    using r by (auto simp: heap_rebuild_def heap_inv_def heap_same_def heap_ordered_keys)
qed

lemma heap_ordered_root:
  assumes "heap_ordered s"
  shows "1 \<le> i \<Longrightarrow> i \<le> hn (fst s) \<Longrightarrow> hprio s i \<le> hprio s 1"
proof (induction i rule: less_induct)
  case (less i)
  show ?case
  proof (cases "i = 1")
    case False
    then have "hprio s i \<le> hprio s (i div 2)" "hprio s (i div 2) \<le> hprio s 1"
      using assms less by (auto simp: heap_ordered_def)
    then show ?thesis by simp
  qed simp
qed

lemma heap_max_correct:
  assumes "heap_inv s" "\<not> heap_is_empty (fst s)"
  shows "\<exists>p. heap_abs s (heap_max (fst s)) = Some p \<and> (\<forall>b q. heap_abs s b = Some q \<longrightarrow> q \<le> p)"
proof -
  have ord: "heap_ordered s" and n: "1 \<le> hn (fst s)"
    using assms by (auto simp: heap_inv_def heap_is_empty_def)
  have "heap_abs s (heap_max (fst s)) = Some (hprio s 1)"
    using n by (auto simp: heap_abs_def heap_max_def hprio_def heap_nodes_def)
  moreover have "q \<le> hprio s 1" if "heap_abs s b = Some q" for b q
    using that heap_ordered_root[OF ord]
    by (auto simp: heap_abs_def hprio_def split: if_splits elim!: heap_nodesE)
  ultimately show ?thesis by blast
qed

lemma heap_pop_correct:
  assumes "heap_inv s" "\<not> heap_is_empty (fst s)" "heap_pop (fst s) = (a, h)"
  shows "a \<in> heap_nodes s" and "heap_inv (h, snd s)" and "heap_abs (h, snd s) = (heap_abs s)(a := None)"
proof -
  have n: "1 \<le> hn (fst s)" and wf: "heap_wf s"
    and a: "a = harray (fst s) ! hn (fst s)" and h: "h = (fst s)\<lparr>hn := hn (fst s) - 1\<rparr>"
    using assms by (auto simp: heap_is_empty_def heap_pop_def heap_inv_def)
  show mem: "a \<in> heap_nodes s" using n a by (auto simp: heap_nodes_def)
  have idx: "hn_idx (snd s a) = hn (fst s)" using heap_wfD(2)[OF wf n] a by simp
  then have raw: "heap_raw_remove s a = (h, snd s)"
    by (cases s) (simp add: heap_raw_remove_def Let_def h)
  have "\<not> hn (fst s) \<le> hn h" using n h by simp
  then have "heap_remove s a = (h, snd s)"
    using idx raw by (simp add: heap_remove_def Let_def)
  then show "heap_inv (h, snd s)" "heap_abs (h, snd s) = (heap_abs s)(a := None)"
    using heap_remove_correct[OF assms(1) mem] by auto
qed

subsection \<open>The priority-queue interface and its client: draining in priority order\<close>

text \<open>
  A client repeatedly takes the maximum and removes it (\<open>fuel\<close> bounds the number of rounds;
  \<open>drain_complete\<close> shows that the number of queued nodes is enough).
\<close>

fun drain :: "('q \<Rightarrow> bool) \<Rightarrow> ('q \<Rightarrow> 'a) \<Rightarrow> ('q \<Rightarrow> 'a \<Rightarrow> 'q) \<Rightarrow> nat \<Rightarrow> 'q \<Rightarrow> 'a list" where
  "drain emp mx rm 0 q = []"
| "drain emp mx rm (Suc fuel) q =
     (if emp q then [] else mx q # drain emp mx rm fuel (rm q (mx q)))"

locale node_queue =
  fixes emp :: "'q \<Rightarrow> bool"
    and ins :: "'q \<Rightarrow> 'a \<Rightarrow> 'p::linorder \<Rightarrow> 'q"
    and chg :: "'q \<Rightarrow> 'a \<Rightarrow> 'p \<Rightarrow> 'q"
    and rmv :: "'q \<Rightarrow> 'a \<Rightarrow> 'q"
    and mx :: "'q \<Rightarrow> 'a"
    and inv :: "'q \<Rightarrow> bool"
    and pmap :: "'q \<Rightarrow> 'a \<rightharpoonup> 'p"
  assumes emp: "inv q \<Longrightarrow> emp q \<longleftrightarrow> pmap q = Map.empty"
    and finite_pmap: "inv q \<Longrightarrow> finite (dom (pmap q))"
    and ins: "inv q \<Longrightarrow> a \<notin> dom (pmap q) \<Longrightarrow> inv (ins q a p) \<and> pmap (ins q a p) = (pmap q)(a \<mapsto> p)"
    and chg: "inv q \<Longrightarrow> a \<in> dom (pmap q) \<Longrightarrow> inv (chg q a p) \<and> pmap (chg q a p) = (pmap q)(a \<mapsto> p)"
    and rmv: "inv q \<Longrightarrow> a \<in> dom (pmap q) \<Longrightarrow> inv (rmv q a) \<and> pmap (rmv q a) = (pmap q)(a := None)"
    and mx: "inv q \<Longrightarrow> \<not> emp q \<Longrightarrow>
      \<exists>p. pmap q (mx q) = Some p \<and> (\<forall>b r. pmap q b = Some r \<longrightarrow> r \<le> p)"
begin

lemma mx_dom: "inv q \<Longrightarrow> \<not> emp q \<Longrightarrow> mx q \<in> dom (pmap q)"
  using mx by blast

lemma mx_greatest:
  assumes "inv q" "\<not> emp q" "b \<in> dom (pmap q)"
  shows "the (pmap q b) \<le> the (pmap q (mx q))"
  using mx[OF assms(1,2)] assms(3) by auto

lemma rmv_mx:
  assumes "inv q" "\<not> emp q"
  shows "inv (rmv q (mx q))" and "pmap (rmv q (mx q)) = (pmap q)(mx q := None)"
  using rmv mx_dom assms by auto

lemma drain_set:
  "inv q \<Longrightarrow> set (drain emp mx rmv fuel q) \<subseteq> dom (pmap q)"
proof (induction fuel arbitrary: q)
  case (Suc fuel)
  then show ?case using rmv_mx[OF Suc.prems] mx_dom[OF Suc.prems] by (fastforce split: if_splits)
qed simp

lemma drain_complete:
  "inv q \<Longrightarrow> card (dom (pmap q)) \<le> fuel \<Longrightarrow>
   set (drain emp mx rmv fuel q) = dom (pmap q) \<and> distinct (drain emp mx rmv fuel q)"
proof (induction fuel arbitrary: q)
  case 0
  then show ?case using finite_pmap by simp
next
  case (Suc fuel)
  show ?case
  proof (cases "emp q")
    case True
    then show ?thesis using emp Suc.prems by simp
  next
    case False
    let ?q = "rmv q (mx q)"
    note r = rmv_mx[OF Suc.prems(1) False] and d = mx_dom[OF Suc.prems(1) False]
    have "dom (pmap ?q) = dom (pmap q) - {mx q}" using r(2) by auto
    moreover from this have "card (dom (pmap ?q)) \<le> fuel"
      using Suc.prems(2) d finite_pmap[OF Suc.prems(1)] by (simp add: card_Diff_singleton)
    ultimately show ?thesis using Suc.IH[OF r(1)] False d by auto
  qed
qed

lemma drain_sorted:
  "inv q \<Longrightarrow> sorted_wrt (\<ge>) (map (\<lambda>a. the (pmap q a)) (drain emp mx rmv fuel q))"
proof (induction fuel arbitrary: q)
  case (Suc fuel)
  show ?case
  proof (cases "emp q")
    case False
    let ?q = "rmv q (mx q)" and ?xs = "drain emp mx rmv fuel (rmv q (mx q))"
    note r = rmv_mx[OF Suc.prems False]
    have sub: "set ?xs \<subseteq> dom (pmap q) - {mx q}" using drain_set[OF r(1)] r(2) by fastforce
    then have same: "map (\<lambda>a. the (pmap q a)) ?xs = map (\<lambda>a. the (pmap ?q a)) ?xs"
      using r(2) by (auto simp: map_eq_conv)
    have "\<forall>b \<in> set ?xs. the (pmap ?q b) \<le> the (pmap q (mx q))"
      using sub mx_greatest[OF Suc.prems False] r(2) by fastforce
    then show ?thesis using Suc.IH[OF r(1)] False by (simp add: same)
  qed simp
qed simp

end

lemma dom_heap_abs: "dom (heap_abs s) = heap_nodes s"
  by (auto simp: heap_abs_def split: if_splits)

interpretation hq: node_queue "\<lambda>s. heap_is_empty (fst s)" heap_insert heap_change heap_remove
  "\<lambda>s. heap_max (fst s)" heap_inv heap_abs
proof unfold_locales
  fix s :: heap_state and a :: addr and p :: uint64_t
  assume inv: "heap_inv s"
  show "heap_is_empty (fst s) \<longleftrightarrow> heap_abs s = Map.empty"
    using dom_heap_abs[of s] by (auto simp: heap_is_empty_def heap_nodes_def)
  show "finite (dom (heap_abs s))"
    by (simp add: dom_heap_abs heap_nodes_def)
  show "heap_inv (heap_insert s a p) \<and> heap_abs (heap_insert s a p) = (heap_abs s)(a \<mapsto> p)"
    if "a \<notin> dom (heap_abs s)"
    using heap_insert_correct[OF inv] that by (simp add: dom_heap_abs)
  show "heap_inv (heap_change s a p) \<and> heap_abs (heap_change s a p) = (heap_abs s)(a \<mapsto> p)"
    if "a \<in> dom (heap_abs s)"
    using heap_change_correct[OF inv] that by (simp add: dom_heap_abs)
  show "heap_inv (heap_remove s a) \<and> heap_abs (heap_remove s a) = (heap_abs s)(a := None)"
    if "a \<in> dom (heap_abs s)"
    using heap_remove_correct[OF inv] that by (simp add: dom_heap_abs)
  show "\<exists>p. heap_abs s (heap_max (fst s)) = Some p \<and> (\<forall>b r. heap_abs s b = Some r \<longrightarrow> r \<le> p)"
    if "\<not> heap_is_empty (fst s)"
    by (rule heap_max_correct[OF inv that])
qed

subsection \<open>Histories of public operations\<close>

datatype heap_op = HInsert addr uint64_t | HChange addr uint64_t | HRemove addr | HPop | HClear

text \<open>The precondition the header states for each call.\<close>

fun heap_op_pre :: "heap_state \<Rightarrow> heap_op \<Rightarrow> bool" where
  "heap_op_pre s (HInsert a p) \<longleftrightarrow> a \<notin> heap_nodes s"
| "heap_op_pre s (HChange a p) \<longleftrightarrow> a \<in> heap_nodes s"
| "heap_op_pre s (HRemove a) \<longleftrightarrow> a \<in> heap_nodes s"
| "heap_op_pre s HPop \<longleftrightarrow> \<not> heap_is_empty (fst s)"
| "heap_op_pre s HClear \<longleftrightarrow> True"

fun heap_op_run :: "heap_state \<Rightarrow> heap_op \<Rightarrow> heap_state" where
  "heap_op_run s (HInsert a p) = heap_insert s a p"
| "heap_op_run s (HChange a p) = heap_change s a p"
| "heap_op_run s (HRemove a) = heap_remove s a"
| "heap_op_run s HPop = (snd (heap_pop (fst s)), snd s)"
| "heap_op_run s HClear = (heap_clear (fst s), snd s)"

inductive heap_reachable :: "heap_state \<Rightarrow> bool" where
  init: "heap_reachable (heap_init, m)"
| step: "heap_reachable s \<Longrightarrow> heap_op_pre s opn \<Longrightarrow> heap_reachable (heap_op_run s opn)"

lemma heap_inv_init: "heap_inv (heap_init, m)"
  by (simp add: heap_inv_def heap_wf_def heap_ordered_def heap_init_def)

lemma heap_inv_clear: "heap_inv s \<Longrightarrow> heap_inv (heap_clear (fst s), snd s)"
  by (simp add: heap_inv_def heap_wf_def heap_ordered_def heap_clear_def)

lemma heap_op_run_inv:
  assumes "heap_inv s" "heap_op_pre s opn"
  shows "heap_inv (heap_op_run s opn)"
  using assms heap_pop_correct(2)[OF assms(1) _ surjective_pairing]
  by (cases opn)
    (auto simp: heap_insert_correct heap_change_correct heap_remove_correct heap_inv_clear)

lemma heap_reachable_heap_inv: "heap_reachable s \<Longrightarrow> heap_inv s"
  by (induction rule: heap_reachable.induct) (simp_all add: heap_inv_init heap_op_run_inv)

text \<open>The abstract queue: a finite map from nodes to priorities; \<open>pop\<close> may take any node.\<close>

inductive heap_spec_step :: "(addr \<rightharpoonup> uint64_t) \<Rightarrow> heap_op \<Rightarrow> (addr \<rightharpoonup> uint64_t) \<Rightarrow> bool" where
  "heap_spec_step m (HInsert a p) (m(a \<mapsto> p))"
| "a \<in> dom m \<Longrightarrow> heap_spec_step m (HChange a p) (m(a \<mapsto> p))"
| "a \<in> dom m \<Longrightarrow> heap_spec_step m (HRemove a) (m(a := None))"
| "a \<in> dom m \<Longrightarrow> heap_spec_step m HPop (m(a := None))"
| "heap_spec_step m HClear Map.empty"

lemma heap_abs_clear: "heap_abs (heap_clear h, m) = Map.empty"
  by (simp add: heap_abs_def heap_nodes_def heap_clear_def fun_eq_iff)

subsection \<open>Properties\<close>

definition heap_mem0 :: heap_mem where
  "heap_mem0 = (\<lambda>_. \<lparr>hn_idx = 0, hn_priority = 0\<rparr>)"

definition heap_sample :: heap_state where
  "heap_sample = heap_insert (heap_insert (heap_insert (heap_init, heap_mem0) 7 5) 8 9) 9 6"

lemma heap_sample_inv: "heap_inv heap_sample" and heap_sample_nodes: "heap_nodes heap_sample = {7, 8, 9}"
proof -
  let ?s1 = "heap_insert (heap_init, heap_mem0) 7 5"
  let ?s2 = "heap_insert ?s1 8 9"
  have "heap_abs (heap_init, heap_mem0) = Map.empty"
    by (simp add: heap_abs_def heap_nodes_def heap_init_def fun_eq_iff)
  then have 1: "heap_inv ?s1 \<and> heap_abs ?s1 = [7 \<mapsto> 5]"
    using hq.ins[of "(heap_init, heap_mem0)" 7 5] heap_inv_init by simp
  then have 2: "heap_inv ?s2 \<and> heap_abs ?s2 = [7 \<mapsto> 5, 8 \<mapsto> 9]"
    using hq.ins[of ?s1 8 9] by simp
  then have "heap_inv heap_sample \<and> heap_abs heap_sample = [7 \<mapsto> 5, 8 \<mapsto> 9, 9 \<mapsto> 6]"
    using hq.ins[of ?s2 9 6] by (simp add: heap_sample_def)
  then show "heap_inv heap_sample" "heap_nodes heap_sample = {7, 8, 9}"
    by (auto simp flip: dom_heap_abs)
qed

text \<open>
  C1: In every state that public calls reach from \<open>heap_init\<close>, each call within its documented
  precondition, the array is well formed (each slot in bounds and recorded in its node), the
  heap order holds, and \<open>heap_max\<close> of a non-empty heap is a queued node of greatest priority.
\<close>
theorem heap_reachable_invariant:
  assumes "heap_reachable s"
  shows "heap_wf s \<and> heap_ordered s \<and>
    (heap_is_empty (fst s) \<or>
      (\<exists>p. heap_abs s (heap_max (fst s)) = Some p \<and> (\<forall>b\<in>heap_nodes s. hn_priority (snd s b) \<le> p)))"
proof -
  have inv: "heap_inv s" by (rule heap_reachable_heap_inv[OF assms])
  have "hn_priority (snd s b) \<le> p"
    if "\<forall>b q. heap_abs s b = Some q \<longrightarrow> q \<le> p" "b \<in> heap_nodes s" for b p
  proof -
    have "heap_abs s b = Some (hn_priority (snd s b))" using that(2) by (simp add: heap_abs_def)
    then show ?thesis using that(1) by blast
  qed
  then show ?thesis using heap_max_correct[OF inv] inv by (metis heap_inv_def)
qed

theorem heap_reachable_invariant_witness:
  "heap_reachable (heap_op_run (heap_init, heap_mem0) (HInsert 7 5)) \<and>
   heap_wf (heap_op_run (heap_init, heap_mem0) (HInsert 7 5))"
proof -
  have r: "heap_reachable (heap_op_run (heap_init, heap_mem0) (HInsert 7 5))"
    by (rule heap_reachable.step[OF heap_reachable.init]) (simp add: heap_nodes_def heap_init_def)
  show ?thesis using r heap_reachable_invariant[OF r] by simp
qed

text \<open>
  C2: Every public operation simulates the abstract queue: from a state that satisfies the
  invariant, the concrete call keeps the invariant and its effect on the map from nodes to
  priorities is a step of the specification (in particular insertion, priority change and removal
  touch exactly the named node).
\<close>
theorem heap_simulates_queue:
  assumes "heap_inv s" and "heap_op_pre s opn"
  shows "heap_inv (heap_op_run s opn) \<and> heap_spec_step (heap_abs s) opn (heap_abs (heap_op_run s opn))"
proof (cases opn)
  case HPop
  obtain a h where ah: "heap_pop (fst s) = (a, h)" by fastforce
  have ne: "\<not> heap_is_empty (fst s)" using assms(2) HPop by simp
  show ?thesis
    using heap_pop_correct[OF assms(1) ne ah] HPop ah
    by (simp add: heap_spec_step.intros dom_heap_abs)
qed (use assms heap_op_run_inv[OF assms] in
    \<open>simp_all add: heap_insert_correct heap_change_correct heap_remove_correct heap_abs_clear
      heap_spec_step.intros dom_heap_abs\<close>)

theorem heap_simulates_queue_witness:
  "heap_op_pre heap_sample (HRemove 8) \<and>
   heap_spec_step (heap_abs heap_sample) (HRemove 8) (heap_abs (heap_remove heap_sample 8))"
  using heap_simulates_queue[OF heap_sample_inv, of "HRemove 8"] by (simp add: heap_sample_nodes)

text \<open>
  C3: Draining a heap by repeatedly taking \<open>heap_max\<close> and calling \<open>heap_remove\<close> terminates after
  \<open>heap_count\<close> rounds, yields every queued node exactly once, and yields them in order of
  non-increasing priority.
\<close>
theorem heap_drain_in_priority_order:
  assumes "heap_inv s"
  defines "xs \<equiv> drain (\<lambda>s. heap_is_empty (fst s)) (\<lambda>s. heap_max (fst s)) heap_remove (heap_count (fst s)) s"
  shows "set xs = heap_nodes s \<and> distinct xs \<and>
    sorted_wrt (\<ge>) (map (\<lambda>a. hn_priority (snd s a)) xs)"
proof -
  have "card (heap_nodes s) \<le> heap_count (fst s)"
    using card_image_le[of "{1..hn (fst s)}"] by (simp add: heap_nodes_def heap_count_def)
  then have set: "set xs = heap_nodes s \<and> distinct xs"
    unfolding xs_def using hq.drain_complete[OF assms(1)] by (simp add: dom_heap_abs)
  then have "map (\<lambda>a. hn_priority (snd s a)) xs = map (\<lambda>a. the (heap_abs s a)) xs"
    by (auto simp: heap_abs_def)
  then show ?thesis
    using set hq.drain_sorted[OF assms(1)] by (simp only: xs_def)
qed

theorem heap_drain_in_priority_order_witness:
  "set (drain (\<lambda>s. heap_is_empty (fst s)) (\<lambda>s. heap_max (fst s)) heap_remove
     (heap_count (fst heap_sample)) heap_sample) = {7, 8, 9} \<and>
   drain (\<lambda>s. heap_is_empty (fst s)) (\<lambda>s. heap_max (fst s)) heap_remove 3 heap_sample = [8, 9, 7]"
proof -
  have "drain (\<lambda>s. heap_is_empty (fst s)) (\<lambda>s. heap_max (fst s)) heap_remove 3 heap_sample = [8, 9, 7]"
    by code_simp
  then show ?thesis
    using heap_drain_in_priority_order[OF heap_sample_inv] heap_sample_nodes by simp
qed

text \<open>
  C4: The raw operations keep the array well formed and change the abstract map as their
  ordered counterparts do, and \<open>heap_rebuild\<close> turns any well-formed array, however disordered,
  into a heap with the same nodes and priorities.
\<close>
theorem heap_raw_then_rebuild:
  assumes "heap_wf s"
  shows "(a \<notin> heap_nodes s \<longrightarrow>
      heap_wf (heap_raw_insert s a p) \<and> heap_abs (heap_raw_insert s a p) = (heap_abs s)(a \<mapsto> p)) \<and>
    (a \<in> heap_nodes s \<longrightarrow>
      heap_wf (heap_raw_remove s a) \<and> heap_abs (heap_raw_remove s a) = (heap_abs s)(a := None) \<and>
      heap_wf (heap_raw_change s a p) \<and> heap_abs (heap_raw_change s a p) = (heap_abs s)(a \<mapsto> p)) \<and>
    heap_inv (heap_rebuild s) \<and> heap_abs (heap_rebuild s) = heap_abs s"
  using heap_rebuild_correct[OF assms] heap_wf_raw_insert[OF assms] heap_abs_raw_insert[OF assms]
    heap_wf_raw_remove[OF assms] heap_abs_raw_remove[OF assms] assms
  by (auto simp: heap_abs_def)

theorem heap_raw_then_rebuild_witness:
  "heap_wf heap_sample \<and> heap_inv (heap_rebuild (heap_raw_change heap_sample 7 100)) \<and>
   heap_max (fst (heap_rebuild (heap_raw_change heap_sample 7 100))) = 7"
proof -
  have wf: "heap_wf heap_sample" using heap_sample_inv by (simp add: heap_inv_def)
  have "heap_wf (heap_raw_change heap_sample 7 100)"
    using heap_raw_then_rebuild[OF wf, of 7 100] heap_sample_nodes by simp
  moreover have "heap_max (fst (heap_rebuild (heap_raw_change heap_sample 7 100))) = 7"
    by code_simp
  ultimately show ?thesis using heap_raw_then_rebuild wf by blast
qed

end
