(* ===== verification/Hash_Map.thy ===== *)
theory Hash_Map
  imports Ovs_Prelude "HOL-Library.Sublist"
begin

text \<open>
  The hash map with intrusive nodes (\<open>lib/hmap.c\<close>, \<open>include/openvswitch/hmap.h\<close>) and the portable hash
  functions (\<open>lib/hash.h\<close>).  A bucket is the list of the addresses of its nodes in the order of their
  \<open>next\<close> members; the hash values that the nodes store are a function of the addresses.  A pointer to a
  node, as a search or an iteration uses it, is the rest of its bucket from that node on.  \<open>None\<close> is a
  failed assertion or a null pointer dereference.
\<close>

subsection \<open>Hash functions\<close>

definition hash_rot :: "uint32_t \<Rightarrow> nat \<Rightarrow> uint32_t" where
  "hash_rot x k = push_bit k x OR drop_bit (32 - k) x"

definition mhash_add' :: "uint32_t \<Rightarrow> uint32_t \<Rightarrow> uint32_t" where
  "mhash_add' hash data =
     (if data = 0 then hash
      else let data = data * 0xcc9e2d51; data = hash_rot data 15; data = data * 0x1b873593
           in hash XOR data)"

definition mhash_add :: "uint32_t \<Rightarrow> uint32_t \<Rightarrow> uint32_t" where
  "mhash_add hash data = hash_rot (mhash_add' hash data) 13 * 5 + 0xe6546b64"

definition mhash_finish :: "uint32_t \<Rightarrow> uint32_t" where
  "mhash_finish hash =
     (let hash = hash XOR drop_bit 16 hash; hash = hash * 0x85ebca6b;
          hash = hash XOR drop_bit 13 hash; hash = hash * 0xc2b2ae35
      in hash XOR drop_bit 16 hash)"

definition hash_add :: "uint32_t \<Rightarrow> uint32_t \<Rightarrow> uint32_t" where
  "hash_add hash data = mhash_add hash data"

definition hash_add64 :: "uint32_t \<Rightarrow> uint64_t \<Rightarrow> uint32_t" where
  "hash_add64 hash data = hash_add (hash_add hash (ucast data)) (ucast (drop_bit 32 data))"

definition hash_finish :: "uint32_t \<Rightarrow> uint32_t \<Rightarrow> uint32_t" where
  "hash_finish hash final = mhash_finish (hash XOR final)"

definition hash_2words :: "uint32_t \<Rightarrow> uint32_t \<Rightarrow> uint32_t" where
  "hash_2words x y = hash_finish (hash_add (hash_add x 0) y) 8"

definition hash_int :: "uint32_t \<Rightarrow> uint32_t \<Rightarrow> uint32_t" where
  "hash_int x basis = hash_2words x basis"

definition hash_pointer :: "addr \<Rightarrow> uint32_t \<Rightarrow> uint32_t" where
  "hash_pointer p basis = hash_int (of_nat p) basis"

definition hash_uint64_basis :: "uint64_t \<Rightarrow> uint32_t \<Rightarrow> uint32_t" where
  "hash_uint64_basis x basis = hash_finish (hash_add64 basis x) 8"

subsection \<open>State\<close>

text \<open>While \<open>mask\<close> is 0, the only bucket is the member \<open>one\<close>.\<close>

record hmap =
  hm_buckets :: "addr list list"
  hm_mask :: uint64_t
  hm_n :: nat

type_synonym hmap_mem = "addr \<Rightarrow> uint64_t"
type_synonym hmap_state = "hmap \<times> hmap_mem"

definition bucket_index :: "hmap \<Rightarrow> uint64_t \<Rightarrow> nat" where
  "bucket_index h hash = unat (hash AND hm_mask h)"

definition hmap_init :: hmap where
  "hmap_init = \<lparr>hm_buckets = [[]], hm_mask = 0, hm_n = 0\<rparr>"

definition hmap_clear :: "hmap \<Rightarrow> hmap" where
  "hmap_clear h =
     (if hm_n h > 0 then h\<lparr>hm_n := 0, hm_buckets := replicate (unat (hm_mask h + 1)) []\<rparr> else h)"

definition hmap_swap :: "hmap \<Rightarrow> hmap \<Rightarrow> hmap \<times> hmap" where
  "hmap_swap a b = (b, a)"

definition hmap_count :: "hmap \<Rightarrow> nat" where
  "hmap_count h = hm_n h"

definition hmap_is_empty :: "hmap \<Rightarrow> bool" where
  "hmap_is_empty h \<longleftrightarrow> hm_n h = 0"

definition hmap_capacity :: "hmap \<Rightarrow> uint64_t" where
  "hmap_capacity h = hm_mask h * 2 + 1"

subsection \<open>Insertion and resizing\<close>

definition hmap_insert_fast :: "hmap_state \<Rightarrow> addr \<Rightarrow> uint64_t \<Rightarrow> hmap_state" where
  "hmap_insert_fast s node hash =
     (let (h, m) = s; i = bucket_index h hash
      in (h\<lparr>hm_buckets := (hm_buckets h)[i := node # hm_buckets h ! i], hm_n := hm_n h + 1\<rparr>, m(node := hash)))"

definition resize_node :: "addr \<Rightarrow> hmap_state \<Rightarrow> hmap_state" where
  "resize_node node s = hmap_insert_fast s node (snd s node)"

definition hmap_resize :: "hmap_state \<Rightarrow> uint64_t \<Rightarrow> hmap_state option" where
  "hmap_resize s new_mask =
     Option.bind (ovs_assert (is_pow2 (new_mask + 1))) (\<lambda>_.
       let (h, m) = s;
           tmp = (if new_mask \<noteq> 0
                  then hmap_init\<lparr>hm_buckets := replicate (unat (new_mask + 1)) [], hm_mask := new_mask\<rparr>
                  else hmap_init);
           (tmp, m) = fold (fold resize_node) (hm_buckets h) (tmp, m);
           (h, tmp) = hmap_swap h tmp
       in Some (h, m))"

definition calc_mask :: "uint64_t \<Rightarrow> uint64_t" where
  "calc_mask capacity =
     (let mask = capacity div 2;
          mask = mask OR drop_bit 1 mask;
          mask = mask OR drop_bit 2 mask;
          mask = mask OR drop_bit 4 mask;
          mask = mask OR drop_bit 8 mask;
          mask = mask OR drop_bit 16 mask;
          mask = mask OR drop_bit 32 mask
      in mask OR push_bit 1 (mask AND 1))"

definition hmap_expand_at :: "hmap_state \<Rightarrow> hmap_state option" where
  "hmap_expand_at s =
     (let new_mask = calc_mask (of_nat (hm_n (fst s)))
      in if new_mask > hm_mask (fst s) then hmap_resize s new_mask else Some s)"

definition hmap_shrink_at :: "hmap_state \<Rightarrow> hmap_state option" where
  "hmap_shrink_at s =
     (let new_mask = calc_mask (of_nat (hm_n (fst s)))
      in if new_mask < hm_mask (fst s) then hmap_resize s new_mask else Some s)"

definition hmap_reserve_at :: "hmap_state \<Rightarrow> uint64_t \<Rightarrow> hmap_state option" where
  "hmap_reserve_at s n =
     (let new_mask = calc_mask n
      in if new_mask > hm_mask (fst s) then hmap_resize s new_mask else Some s)"

definition hmap_insert_at :: "hmap_state \<Rightarrow> addr \<Rightarrow> uint64_t \<Rightarrow> hmap_state option" where
  "hmap_insert_at s node hash =
     (let s = hmap_insert_fast s node hash
      in if hm_n (fst s) div 2 > unat (hm_mask (fst s)) then hmap_expand_at s else Some s)"

subsection \<open>Removal and replacement\<close>

text \<open>The loop to the link that points to a node, and the update of that link.\<close>

fun chain_remove :: "addr \<Rightarrow> addr list \<Rightarrow> addr list option" where
  "chain_remove node [] = None"
| "chain_remove node (a # as) = (if a = node then Some as else map_option (Cons a) (chain_remove node as))"

fun chain_replace :: "addr \<Rightarrow> addr \<Rightarrow> addr list \<Rightarrow> addr list option" where
  "chain_replace old new [] = None"
| "chain_replace old new (a # as) = (if a = old then Some (new # as) else map_option (Cons a) (chain_replace old new as))"

definition hmap_remove :: "hmap_state \<Rightarrow> addr \<Rightarrow> hmap_state option" where
  "hmap_remove s node =
     (let (h, m) = s; i = bucket_index h (m node)
      in map_option (\<lambda>b. (h\<lparr>hm_buckets := (hm_buckets h)[i := b], hm_n := hm_n h - 1\<rparr>, m))
           (chain_remove node (hm_buckets h ! i)))"

definition hmap_replace :: "hmap_state \<Rightarrow> addr \<Rightarrow> addr \<Rightarrow> hmap_state option" where
  "hmap_replace s old_node new_node =
     (let (h, m) = s; i = bucket_index h (m old_node)
      in map_option (\<lambda>b. (h\<lparr>hm_buckets := (hm_buckets h)[i := b]\<rparr>, m(new_node := m old_node)))
           (chain_replace old_node new_node (hm_buckets h ! i)))"

text \<open>The node at the new address has the hash value of the old one already.\<close>

definition hmap_node_moved :: "hmap_state \<Rightarrow> addr \<Rightarrow> addr \<Rightarrow> hmap_state option" where
  "hmap_node_moved s old_node node =
     (let (h, m) = s; i = bucket_index h (m node)
      in map_option (\<lambda>b. (h\<lparr>hm_buckets := (hm_buckets h)[i := b]\<rparr>, m))
           (chain_replace old_node node (hm_buckets h ! i)))"

subsection \<open>Search and iteration\<close>

definition hmap_next_with_hash' :: "hmap_mem \<Rightarrow> addr list \<Rightarrow> uint64_t \<Rightarrow> addr list" where
  "hmap_next_with_hash' m node hash = dropWhile (\<lambda>a. m a \<noteq> hash) node"

definition hmap_first_with_hash :: "hmap_state \<Rightarrow> uint64_t \<Rightarrow> addr list" where
  "hmap_first_with_hash s hash =
     hmap_next_with_hash' (snd s) (hm_buckets (fst s) ! bucket_index (fst s) hash) hash"

definition hmap_next_with_hash :: "hmap_mem \<Rightarrow> addr list \<Rightarrow> addr list" where
  "hmap_next_with_hash m node = hmap_next_with_hash' m (tl node) (m (hd node))"

definition hmap_first_in_bucket :: "hmap_state \<Rightarrow> uint64_t \<Rightarrow> addr list" where
  "hmap_first_in_bucket s hash = hm_buckets (fst s) ! bucket_index (fst s) hash"

definition hmap_next_in_bucket :: "addr list \<Rightarrow> addr list" where
  "hmap_next_in_bucket node = tl node"

fun first_chain :: "addr list list \<Rightarrow> addr list" where
  "first_chain [] = []"
| "first_chain (b # bs) = (if b \<noteq> [] then b else first_chain bs)"

definition hmap_next' :: "hmap \<Rightarrow> nat \<Rightarrow> addr list" where
  "hmap_next' h start = first_chain (drop start (hm_buckets h))"

definition hmap_first :: "hmap \<Rightarrow> addr list" where
  "hmap_first h = hmap_next' h 0"

definition hmap_next :: "hmap_state \<Rightarrow> addr list \<Rightarrow> addr list" where
  "hmap_next s node =
     (if tl node \<noteq> [] then tl node
      else hmap_next' (fst s) (bucket_index (fst s) (snd s (hd node)) + 1))"

definition hmap_contains :: "hmap_state \<Rightarrow> addr \<Rightarrow> bool" where
  "hmap_contains s node = list_ex (\<lambda>p. p = node) (hmap_first_in_bucket s (snd s node))"

text \<open>The loops \<open>HMAP_FOR_EACH_WITH_HASH\<close> and \<open>HMAP_FOR_EACH\<close>: the nodes in the order of the visits.\<close>

function hmap_for_each_with_hash :: "hmap_mem \<Rightarrow> addr list \<Rightarrow> addr list" where
  "hmap_for_each_with_hash m node =
     (if node \<noteq> [] then hd node # hmap_for_each_with_hash m (hmap_next_with_hash m node) else [])"
  by pat_completeness auto
termination
proof (relation "measure (\<lambda>(m, node). length node)", goal_cases)
  case (2 m node)
  have "length (hmap_next_with_hash m node) \<le> length (tl node)"
    using length_dropWhile_le[of _ "tl node"] by (simp add: hmap_next_with_hash_def hmap_next_with_hash'_def)
  then show ?case using 2 by (cases node) auto
qed simp

declare hmap_for_each_with_hash.simps [simp del]

fun hmap_for_each :: "hmap_state \<Rightarrow> nat \<Rightarrow> addr list \<Rightarrow> addr list" where
  "hmap_for_each s 0 node = []"
| "hmap_for_each s (Suc fuel) node = (if node \<noteq> [] then hd node # hmap_for_each s fuel (hmap_next s node) else [])"

text \<open>The step of \<open>HMAP_FOR_EACH_POP\<close>, for the buckets from \<open>bucket\<close> on.\<close>

fun pop_loop :: "addr list list \<Rightarrow> nat \<Rightarrow> (addr option \<times> nat)" where
  "pop_loop [] bucket = (None, bucket)"
| "pop_loop (b # bs) bucket = (if b \<noteq> [] then (Some (hd b), bucket) else pop_loop bs (Suc bucket))"

definition hmap_pop_helper :: "hmap_state \<Rightarrow> nat \<Rightarrow> (addr option \<times> nat \<times> hmap_state) option" where
  "hmap_pop_helper s bucket =
     (case pop_loop (drop bucket (hm_buckets (fst s))) bucket of
        (Some node, b) \<Rightarrow> map_option (\<lambda>s. (Some node, b, s)) (hmap_remove s node)
      | (None, b) \<Rightarrow> Some (None, b, s))"

subsection \<open>Masks\<close>

lemma smear_step:
  fixes x m :: uint64_t
  assumes "\<forall>i. bit m i \<longleftrightarrow> (\<exists>d < k. bit x (i + d))" and l: "l = k + k"
  shows "\<forall>i. bit (m OR drop_bit k m) i \<longleftrightarrow> (\<exists>d < l. bit x (i + d))"
  unfolding l
proof
  fix i
  have "(\<exists>d < k + k. bit x (i + d)) \<longleftrightarrow> (\<exists>d < k. bit x (i + d)) \<or> (\<exists>d < k. bit x (i + k + d))"
  proof
    assume "\<exists>d < k + k. bit x (i + d)"
    then obtain d where d: "d < k + k" "bit x (i + d)" by blast
    show "(\<exists>d < k. bit x (i + d)) \<or> (\<exists>d < k. bit x (i + k + d))"
    proof (cases "d < k")
      case False
      then have "bit x (i + k + (d - k))" "d - k < k" using d by simp_all
      then show ?thesis by blast
    qed (use d in blast)
  next
    assume "(\<exists>d < k. bit x (i + d)) \<or> (\<exists>d < k. bit x (i + k + d))"
    then show "\<exists>d < k + k. bit x (i + d)"
      by (metis add.assoc add_less_cancel_left trans_less_add1)
  qed
  moreover have "bit (m OR drop_bit k m) i \<longleftrightarrow> bit m i \<or> bit m (i + k)"
    by (simp add: bit_simps add.commute)
  ultimately show "bit (m OR drop_bit k m) i \<longleftrightarrow> (\<exists>d < k + k. bit x (i + d))" using assms by auto
qed

lemma downward_closed_mask:
  fixes w :: uint64_t
  assumes "\<And>i j. bit w j \<Longrightarrow> i \<le> j \<Longrightarrow> bit w i"
  shows "\<exists>k \<le> 64. w = mask k"
proof -
  define k where "k = (LEAST i. \<not> bit w i)"
  have ex: "\<not> bit w 64" by (simp add: impossible_bit)
  then have "\<not> bit w k" unfolding k_def by (rule LeastI)
  moreover have "bit w i" if "i < k" for i using not_less_Least[of i "\<lambda>i. \<not> bit w i"] that k_def by auto
  moreover have "k \<le> 64" unfolding k_def using ex by (rule Least_le)
  ultimately have "bit w i \<longleftrightarrow> i < k" for i using assms by (meson not_less)
  then have "w = mask k" by (intro bit_word_eqI) (simp add: bit_mask_iff)
  then show ?thesis using \<open>k \<le> 64\<close> by blast
qed

definition is_mask :: "uint64_t \<Rightarrow> bool" where
  "is_mask w \<longleftrightarrow> (\<exists>k < 64. w = mask k)"

lemma is_mask_pow2:
  assumes "is_mask w"
  shows "is_pow2 (w + 1)" and "unat (w + 1) = unat w + 1"
proof -
  obtain k where k: "k < 64" "w = mask k" using assms by (auto simp: is_mask_def)
  then have w: "w + 1 = 2 ^ k" by (simp add: mask_eq_exp_minus_1)
  then have "w + 1 \<noteq> 0" using k(1) by simp
  moreover have "(w + 1) AND w = 0"
    unfolding w unfolding k(2) by (rule bit_word_eqI) (simp add: bit_simps)
  ultimately show "is_pow2 (w + 1)" by (simp add: is_pow2_def)
  show "unat (w + 1) = unat w + 1" using \<open>w + 1 \<noteq> 0\<close> by (metis Suc_eq_plus1 add.commute unatSuc)
qed

lemma calc_mask_bits:
  "\<exists>m :: uint64_t. calc_mask x = m OR push_bit 1 (m AND 1) \<and> (\<forall>i. bit m i \<longleftrightarrow> (\<exists>d < 64. bit (x div 2) (i + d)))"
proof -
  have 0: "\<forall>i. bit (x div 2) i \<longleftrightarrow> (\<exists>d < 1. bit (x div 2) (i + d))" by simp
  note 1 = smear_step[OF 0 one_add_one[symmetric]]
  note 2 = smear_step[OF 1 numeral_Bit0]
  note 4 = smear_step[OF 2 numeral_Bit0]
  note 8 = smear_step[OF 4 numeral_Bit0]
  note 16 = smear_step[OF 8 numeral_Bit0]
  note 32 = smear_step[OF 16 numeral_Bit0]
  show ?thesis
    unfolding calc_mask_def Let_def by (intro exI conjI, rule refl, rule 32)
qed

lemma bit_calc_mask:
  "bit (calc_mask x) i \<longleftrightarrow> (\<exists>j \<ge> i. bit x (Suc j)) \<or> i = 1 \<and> (\<exists>j. bit x (Suc j))"
proof -
  obtain m where m: "calc_mask x = m OR push_bit 1 (m AND 1)" "\<forall>i. bit m i \<longleftrightarrow> (\<exists>d < 64. bit (x div 2) (i + d))"
    using calc_mask_bits by blast
  have b: "bit (x div 2) j \<longleftrightarrow> bit x (Suc j)" for j by (simp add: bit_Suc)
  have mi: "bit m i \<longleftrightarrow> (\<exists>j \<ge> i. bit x (Suc j))" for i
  proof
    assume "\<exists>j \<ge> i. bit x (Suc j)"
    then obtain j where j: "j \<ge> i" "bit x (Suc j)" by blast
    then have "Suc j < 64" using bit_imp_le_length[OF j(2)] by simp
    then show "bit m i" using m(2) b j by (auto intro!: exI[of _ "j - i"])
  qed (use m(2) b in \<open>auto intro: le_add1\<close>)
  have "bit (push_bit 1 (m AND 1)) i \<longleftrightarrow> i = 1 \<and> bit m 0"
    by (cases i) (simp_all only: bit_push_bit_iff bit_and_iff bit_1_iff possible_bit_word, auto)
  then show ?thesis unfolding m(1) bit_or_iff using mi by simp
qed

lemma is_mask_calc_mask: "is_mask (calc_mask x)"
proof -
  have "\<exists>k \<le> 64. calc_mask x = mask k"
    by (rule downward_closed_mask) (fastforce simp: bit_calc_mask le_Suc_eq intro: le_trans)
  then obtain k where k: "k \<le> 64" "calc_mask x = mask k" by blast
  have "\<not> bit (calc_mask x) 63"
    using bit_imp_le_length[of x] by (fastforce simp: bit_calc_mask)
  then have "k \<noteq> 64" using k(2) by (auto simp: bit_mask_iff)
  then show ?thesis using k unfolding is_mask_def by (metis le_neq_implies_less)
qed

lemma calc_mask_ge: "x div 2 \<le> calc_mask x"
proof -
  have "x div 2 = x div 2 AND calc_mask x"
    by (rule bit_word_eqI) (auto simp: bit_and_iff bit_calc_mask bit_Suc)
  then show ?thesis by (metis word_and_le1)
qed

subsection \<open>Well-formed maps\<close>

definition hmap_nodes :: "hmap_state \<Rightarrow> addr set" where
  "hmap_nodes s = set (concat (hm_buckets (fst s)))"

definition hmap_wf :: "hmap_state \<Rightarrow> bool" where
  "hmap_wf s \<longleftrightarrow> (let (h, m) = s in
     is_mask (hm_mask h) \<and> length (hm_buckets h) = unat (hm_mask h) + 1 \<and>
     (\<forall>i < length (hm_buckets h). distinct (hm_buckets h ! i) \<and> (\<forall>a \<in> set (hm_buckets h ! i). bucket_index h (m a) = i)) \<and>
     hm_n h = length (concat (hm_buckets h)))"

lemma hmap_wfD:
  assumes "hmap_wf (h, m)"
  shows "is_mask (hm_mask h)" "length (hm_buckets h) = unat (hm_mask h) + 1"
    "i < length (hm_buckets h) \<Longrightarrow> distinct (hm_buckets h ! i)"
    "i < length (hm_buckets h) \<Longrightarrow> a \<in> set (hm_buckets h ! i) \<Longrightarrow> bucket_index h (m a) = i"
    "hm_n h = length (concat (hm_buckets h))"
  using assms by (simp_all add: hmap_wf_def)

lemma bucket_index_less:
  assumes "hmap_wf (h, m)"
  shows "bucket_index h x < length (hm_buckets h)"
proof -
  have "x AND hm_mask h \<le> hm_mask h" by (rule word_and_le1)
  then show ?thesis using hmap_wfD(2)[OF assms] by (simp add: bucket_index_def word_le_nat_alt less_Suc_eq_le)
qed

lemma in_concat_nth: "a \<in> set (concat bs) \<longleftrightarrow> (\<exists>i < length bs. a \<in> set (bs ! i))"
  by (auto simp: in_set_conv_nth[of _ bs] intro: bexI[OF _ nth_mem])

lemma hmap_nodes_iff:
  assumes "hmap_wf (h, m)"
  shows "a \<in> hmap_nodes (h, m) \<longleftrightarrow> a \<in> set (hm_buckets h ! bucket_index h (m a))"
  using hmap_wfD(4)[OF assms] bucket_index_less[OF assms]
  unfolding hmap_nodes_def fst_conv in_concat_nth by blast

lemma distinct_concat_index:
  assumes "\<And>i. i < length bs \<Longrightarrow> distinct (bs ! i)"
    and "\<And>i a. i < length bs \<Longrightarrow> a \<in> set (bs ! i) \<Longrightarrow> f a = k + i"
  shows "distinct (concat bs)"
  using assms
proof (induction bs arbitrary: k)
  case (Cons b bs)
  have "distinct (concat bs)"
    by (rule Cons.IH[of "Suc k"]) (use Cons.prems(1)[of "Suc _"] Cons.prems(2)[of "Suc _"] in simp_all)
  moreover have "f a = k" if "a \<in> set b" for a using Cons.prems(2)[of 0] that by simp
  moreover have "f a \<noteq> k" if a: "a \<in> set (concat bs)" for a
  proof -
    obtain i where "i < length bs" "a \<in> set (bs ! i)" using a unfolding in_concat_nth by blast
    then show ?thesis using Cons.prems(2)[of "Suc i"] by simp
  qed
  ultimately show ?case using Cons.prems(1)[of 0] by auto
qed simp

lemma distinct_concat_buckets:
  assumes "hmap_wf (h, m)"
  shows "distinct (concat (hm_buckets h))"
  by (rule distinct_concat_index[of _ "\<lambda>a. bucket_index h (m a)" 0]) (use hmap_wfD[OF assms] in simp_all)

lemma length_concat_update:
  "i < length bs \<Longrightarrow> length (concat (bs[i := b])) + length (bs ! i) = length (concat bs) + length b"
proof (induction bs arbitrary: i)
  case (Cons c bs)
  then show ?case by (cases i) fastforce+
qed simp

text \<open>The change of one bucket: what the operations on the nodes have in common.\<close>

lemma hmap_wf_update:
  assumes wf: "hmap_wf (h, m)" and i: "i < length (hm_buckets h)" and b: "distinct b"
    and same: "\<And>a. a \<in> set (concat (hm_buckets h)) \<Longrightarrow> a \<notin> set b \<Longrightarrow> m' a = m a"
    and idx: "\<And>a. a \<in> set b \<Longrightarrow> bucket_index h (m' a) = i \<and> (a \<in> hmap_nodes (h, m) \<longrightarrow> a \<in> set (hm_buckets h ! i))"
    and n: "n + length (hm_buckets h ! i) = hm_n h + length b"
  shows "hmap_wf (h\<lparr>hm_buckets := (hm_buckets h)[i := b], hm_n := n\<rparr>, m')"
    and "hmap_nodes (h\<lparr>hm_buckets := (hm_buckets h)[i := b], hm_n := n\<rparr>, m') =
      hmap_nodes (h, m) - set (hm_buckets h ! i) \<union> set b"
proof -
  note w = hmap_wfD[OF wf]
  have other: "a \<notin> set b \<and> bucket_index h (m' a) = j"
    if "j < length (hm_buckets h)" "j \<noteq> i" "a \<in> set (hm_buckets h ! j)" for a j
  proof -
    have a: "a \<in> set (concat (hm_buckets h))" using that unfolding in_concat_nth by blast
    have "a \<notin> set b"
    proof
      assume "a \<in> set b"
      then have "a \<in> set (hm_buckets h ! i)" using idx a by (simp add: hmap_nodes_def)
      then show False using w(4)[OF i] w(4)[OF that(1,3)] that(2) by simp
    qed
    then show ?thesis using same[OF a] w(4)[OF that(1,3)] by simp
  qed
  have bi: "bucket_index (h\<lparr>hm_buckets := bs, hm_n := k\<rparr>) x = bucket_index h x" for bs k x
    by (simp add: bucket_index_def)
  have "n = length (concat ((hm_buckets h)[i := b]))"
    using length_concat_update[OF i, of b] n w(5) by simp
  then show "hmap_wf (h\<lparr>hm_buckets := (hm_buckets h)[i := b], hm_n := n\<rparr>, m')"
    using w(1-3) b idx other i by (auto simp: hmap_wf_def bi nth_list_update)
  show "hmap_nodes (h\<lparr>hm_buckets := (hm_buckets h)[i := b], hm_n := n\<rparr>, m') =
      hmap_nodes (h, m) - set (hm_buckets h ! i) \<union> set b" (is "?L = ?R")
  proof (intro set_eqI iffI)
    fix a assume "a \<in> ?L"
    then obtain j where j: "j < length (hm_buckets h)" "a \<in> set ((hm_buckets h)[i := b] ! j)"
      unfolding hmap_nodes_def in_concat_nth by auto
    show "a \<in> ?R"
    proof (cases "j = i")
      case False
      then have aj: "a \<in> set (hm_buckets h ! j)" using j by simp
      then have "a \<notin> set (hm_buckets h ! i)" using w(4)[OF i] w(4)[OF j(1) aj] False by auto
      then show ?thesis using aj j(1) by (auto simp: hmap_nodes_def intro: nth_mem)
    qed (use j i in simp)
  next
    fix a assume "a \<in> ?R"
    then consider "a \<in> set b" | j where "j < length (hm_buckets h)" "j \<noteq> i" "a \<in> set (hm_buckets h ! j)"
      unfolding hmap_nodes_def in_concat_nth Un_iff Diff_iff fst_conv by blast
    then show "a \<in> ?L"
    proof cases
      case 1
      then show ?thesis using set_update_memI[OF i, of b] by (auto simp: hmap_nodes_def)
    next
      case 2
      then have "hm_buckets h ! j \<in> set ((hm_buckets h)[i := b])"
        by (metis length_list_update nth_list_update_neq nth_mem)
      then show ?thesis using 2 by (auto simp: hmap_nodes_def)
    qed
  qed
qed

lemma hmap_insert_fast_wf:
  assumes wf: "hmap_wf s" and a: "a \<notin> hmap_nodes s" and s': "hmap_insert_fast s a x = s'"
  shows "hmap_wf s'" and "hmap_nodes s' = insert a (hmap_nodes s)" and "snd s' = (snd s)(a := x)"
    and "hm_mask (fst s') = hm_mask (fst s)" and "hm_n (fst s') = hm_n (fst s) + 1"
proof -
  obtain h m where s: "s = (h, m)" by (cases s)
  let ?i = "bucket_index h x" and ?b = "hm_buckets h ! bucket_index h x"
  note i = bucket_index_less[OF wf[unfolded s], of x]
  have nb: "a \<notin> set ?b" using a i by (auto simp: s hmap_nodes_def)
  have e: "s' = (h\<lparr>hm_buckets := (hm_buckets h)[?i := a # ?b], hm_n := hm_n h + 1\<rparr>, m(a := x))"
    using s' by (simp add: s hmap_insert_fast_def Let_def)
  note u = hmap_wf_update[OF wf[unfolded s] i, of "a # ?b" "m(a := x)" "hm_n h + 1"]
  have d: "distinct (a # ?b)" using nb hmap_wfD(3)[OF wf[unfolded s] i] by simp
  show "hmap_wf s'" unfolding e
    by (rule u(1)) (use d a hmap_wfD(4)[OF wf[unfolded s] i] s in auto)
  have "hmap_nodes s' = hmap_nodes (h, m) - set ?b \<union> set (a # ?b)" unfolding e
    by (rule u(2)) (use d a hmap_wfD(4)[OF wf[unfolded s] i] s in auto)
  moreover have "set ?b \<subseteq> hmap_nodes (h, m)" using i by (auto simp: hmap_nodes_def intro: nth_mem)
  ultimately show "hmap_nodes s' = insert a (hmap_nodes s)" by (auto simp: s)
qed (use s' in \<open>auto simp: hmap_insert_fast_def Let_def case_prod_unfold\<close>)

lemma fold_resize_node:
  assumes "hmap_wf s" "distinct as" "set as \<inter> hmap_nodes s = {}"
  shows "hmap_wf (fold resize_node as s) \<and> hmap_nodes (fold resize_node as s) = hmap_nodes s \<union> set as \<and>
    snd (fold resize_node as s) = snd s \<and> hm_mask (fst (fold resize_node as s)) = hm_mask (fst s) \<and>
    hm_n (fst (fold resize_node as s)) = hm_n (fst s) + length as"
  using assms
proof (induction as arbitrary: s)
  case (Cons a as)
  note i = hmap_insert_fast_wf[OF Cons.prems(1) _ refl, of a "snd s a"]
  have a: "a \<notin> hmap_nodes s" using Cons.prems(3) by simp
  have "hmap_nodes (resize_node a s) = insert a (hmap_nodes s)" using i(2)[OF a] by (simp add: resize_node_def)
  then show ?case using Cons.IH[of "resize_node a s"] Cons.prems(2,3) i[OF a] by (auto simp: resize_node_def)
qed simp

lemma fold_concat: "fold (fold f) xss s = fold f (concat xss) s"
  by (induction xss arbitrary: s) simp_all

lemma hmap_empty_wf:
  assumes "is_mask k"
  shows "hmap_wf (\<lparr>hm_buckets = replicate (unat k + 1) [], hm_mask = k, hm_n = 0\<rparr>, m)"
    and "hmap_nodes (\<lparr>hm_buckets = replicate (unat k + 1) [], hm_mask = k, hm_n = 0\<rparr>, m) = {}"
  using assms by (auto simp: hmap_wf_def hmap_nodes_def nth_Cons split: nat.splits)

lemma hmap_resize_wf:
  assumes wf: "hmap_wf s" and k: "is_mask k"
  shows "\<exists>s'. hmap_resize s k = Some s' \<and> hmap_wf s' \<and> hmap_nodes s' = hmap_nodes s \<and> snd s' = snd s \<and>
    hm_mask (fst s') = k \<and> hm_n (fst s') = hm_n (fst s)"
proof -
  obtain h m where s: "s = (h, m)" by (cases s)
  let ?t = "(\<lparr>hm_buckets = replicate (unat k + 1) [], hm_mask = k, hm_n = 0\<rparr>, m)"
  have "hmap_resize s k = Some (fold (fold resize_node) (hm_buckets h) ?t)"
    using is_mask_pow2[OF k] by (auto simp: s hmap_resize_def ovs_assert_def hmap_init_def hmap_swap_def Let_def case_prod_unfold)
  moreover note fold_resize_node[OF hmap_empty_wf(1)[OF k] distinct_concat_buckets[OF wf[unfolded s]], of m]
  ultimately show ?thesis
    using hmap_empty_wf(2)[OF k, of m] hmap_wfD(5)[OF wf[unfolded s]]
    by (simp add: fold_concat s) (simp add: hmap_nodes_def)
qed

lemma chain_remove_eq: "distinct b \<Longrightarrow> chain_remove a b = (if a \<in> set b then Some (remove1 a b) else None)"
  by (induction b) auto

lemma chain_replace_eq:
  "distinct b \<Longrightarrow> chain_replace a c b = (if a \<in> set b then Some (map (\<lambda>x. if x = a then c else x) b) else None)"
  by (induction b) (auto intro: map_idI[symmetric] simp: map_idI)

lemma hmap_remove_wf:
  assumes wf: "hmap_wf s"
  shows "a \<notin> hmap_nodes s \<Longrightarrow> hmap_remove s a = None"
    and "a \<in> hmap_nodes s \<Longrightarrow> \<exists>s'. hmap_remove s a = Some s' \<and> hmap_wf s' \<and> hmap_nodes s' = hmap_nodes s - {a} \<and>
      snd s' = snd s \<and> hm_mask (fst s') = hm_mask (fst s) \<and> hm_n (fst s') = hm_n (fst s) - 1"
proof -
  obtain h m where s: "s = (h, m)" by (cases s)
  note w = wf[unfolded s]
  let ?i = "bucket_index h (m a)" and ?b = "hm_buckets h ! bucket_index h (m a)"
  note i = bucket_index_less[OF w, of "m a"] and iff = hmap_nodes_iff[OF w, of a]
  note d = hmap_wfD(3)[OF w i]
  show "hmap_remove s a = None" if "a \<notin> hmap_nodes s"
    using that iff chain_remove_eq[OF d] by (simp add: s hmap_remove_def Let_def)
  assume a: "a \<in> hmap_nodes s"
  have ab: "a \<in> set ?b" using a iff s by simp
  let ?s = "(h\<lparr>hm_buckets := (hm_buckets h)[?i := remove1 a ?b], hm_n := hm_n h - 1\<rparr>, m)"
  have "length ?b \<le> hm_n h"
    using hmap_wfD(5)[OF w] length_concat_update[OF i, of "[]"] by simp
  then have n: "hm_n h - 1 + length ?b = hm_n h + length (remove1 a ?b)"
    using ab length_pos_if_in_set[OF ab] by (simp add: length_remove1 del: length_greater_0_conv)
  note u = hmap_wf_update[OF w i distinct_remove1[OF d] refl _ n]
  have idx: "bucket_index h (m x) = ?i \<and> (x \<in> hmap_nodes (h, m) \<longrightarrow> x \<in> set ?b)" if "x \<in> set (remove1 a ?b)" for x
    using that hmap_wfD(4)[OF w i] set_remove1_subset by fastforce
  have sub: "set ?b \<subseteq> hmap_nodes (h, m)" unfolding hmap_nodes_def using nth_mem[OF i] by auto
  have "hmap_remove s a = Some ?s" using ab chain_remove_eq[OF d] by (simp add: s hmap_remove_def Let_def)
  moreover have "hmap_wf ?s" by (rule u(1)[OF idx])
  moreover have "hmap_nodes ?s = hmap_nodes s - {a}"
    using u(2)[OF idx] sub set_remove1_eq[OF d] ab unfolding s by auto
  ultimately show "\<exists>s'. hmap_remove s a = Some s' \<and> hmap_wf s' \<and> hmap_nodes s' = hmap_nodes s - {a} \<and>
      snd s' = snd s \<and> hm_mask (fst s') = hm_mask (fst s) \<and> hm_n (fst s') = hm_n (fst s) - 1"
    by (simp add: s)
qed

lemma hmap_moved_wf:
  assumes w: "hmap_wf (h, m)" and a: "a \<in> hmap_nodes (h, m)" and c: "c \<notin> hmap_nodes (h, m)"
    and m': "m' c = m a" "\<And>x. x \<noteq> c \<Longrightarrow> m' x = m x"
  shows "\<exists>b. chain_replace a c (hm_buckets h ! bucket_index h (m a)) = Some b \<and>
    (let s' = (h\<lparr>hm_buckets := (hm_buckets h)[bucket_index h (m a) := b]\<rparr>, m')
     in hmap_wf s' \<and> hmap_nodes s' = insert c (hmap_nodes (h, m) - {a}))"
proof -
  let ?i = "bucket_index h (m a)" and ?b = "hm_buckets h ! bucket_index h (m a)"
  note i = bucket_index_less[OF w, of "m a"] and ab = a[unfolded hmap_nodes_iff[OF w, of a]]
  note d = hmap_wfD(3)[OF w i] and k = hmap_wfD(4)[OF w i]
  have sub: "set ?b \<subseteq> hmap_nodes (h, m)" unfolding hmap_nodes_def using nth_mem[OF i] by auto
  define b where "b = map (\<lambda>x. if x = a then c else x) ?b"
  have db: "distinct b" unfolding b_def distinct_map using d sub c by (auto simp: inj_on_def)
  have sb: "set b = insert c (set ?b - {a})" using ab by (auto simp: b_def)
  have idx: "bucket_index h (m' x) = ?i \<and> (x \<in> hmap_nodes (h, m) \<longrightarrow> x \<in> set ?b)" if "x \<in> set b" for x
    using that c k m' unfolding sb by (cases "x = c") auto
  have same: "m' x = m x" if "x \<in> set (concat (hm_buckets h))" for x
    by (rule m'(2)) (use that c in \<open>auto simp: hmap_nodes_def\<close>)
  have "hm_n h + length ?b = hm_n h + length b" by (simp add: b_def)
  note u = hmap_wf_update[OF w i db same idx this]
  have "h\<lparr>hm_buckets := bs, hm_n := hm_n h\<rparr> = h\<lparr>hm_buckets := bs\<rparr>" for bs by simp
  then have "hmap_wf (h\<lparr>hm_buckets := (hm_buckets h)[?i := b]\<rparr>, m')"
    and "hmap_nodes (h\<lparr>hm_buckets := (hm_buckets h)[?i := b]\<rparr>, m') = insert c (hmap_nodes (h, m) - {a})"
    using u sb sub ab by auto
  then show ?thesis using chain_replace_eq[OF d, of a c] ab by (simp add: b_def Let_def)
qed

lemma hmap_replace_wf:
  assumes "hmap_wf s" "a \<in> hmap_nodes s" "c \<notin> hmap_nodes s"
  shows "\<exists>s'. hmap_replace s a c = Some s' \<and> hmap_wf s' \<and> hmap_nodes s' = insert c (hmap_nodes s - {a}) \<and>
    snd s' = (snd s)(c := snd s a)"
  using hmap_moved_wf[of "fst s" "snd s" a c "(snd s)(c := snd s a)"] assms
  by (auto simp: hmap_replace_def case_prod_unfold Let_def)

lemma hmap_node_moved_wf:
  assumes "hmap_wf s" "a \<in> hmap_nodes s" "c \<notin> hmap_nodes s" "snd s c = snd s a"
  shows "\<exists>s'. hmap_node_moved s a c = Some s' \<and> hmap_wf s' \<and> hmap_nodes s' = insert c (hmap_nodes s - {a}) \<and>
    snd s' = snd s"
  using hmap_moved_wf[of "fst s" "snd s" a c "snd s"] assms
  by (auto simp: hmap_node_moved_def case_prod_unfold Let_def)

lemma hmap_clear_wf:
  assumes "hmap_wf (h, m)"
  shows "hmap_wf (hmap_clear h, m)" and "hmap_nodes (hmap_clear h, m) = {}"
proof -
  note w = hmap_wfD[OF assms]
  have "hmap_clear h = \<lparr>hm_buckets = replicate (unat (hm_mask h) + 1) [], hm_mask = hm_mask h, hm_n = 0\<rparr>" if "hm_n h > 0"
    using that is_mask_pow2(2)[OF w(1)] by (simp add: hmap_clear_def)
  then show "hmap_wf (hmap_clear h, m)" and "hmap_nodes (hmap_clear h, m) = {}"
    using hmap_empty_wf[OF w(1)] assms w(5) by (auto simp: hmap_clear_def hmap_nodes_def)
qed

lemma hmap_adjust_wf:
  assumes "hmap_wf s"
  shows "\<exists>s'. hmap_reserve_at s n = Some s' \<and> hmap_wf s' \<and> hmap_nodes s' = hmap_nodes s \<and> snd s' = snd s \<and>
      hm_n (fst s') = hm_n (fst s) \<and> hm_mask (fst s') = max (hm_mask (fst s)) (calc_mask n)"
    and "\<exists>s'. hmap_shrink_at s = Some s' \<and> hmap_wf s' \<and> hmap_nodes s' = hmap_nodes s \<and> snd s' = snd s \<and>
      hm_n (fst s') = hm_n (fst s) \<and> hm_mask (fst s') = min (hm_mask (fst s)) (calc_mask (of_nat (hm_n (fst s))))"
  subgoal using hmap_resize_wf[OF assms is_mask_calc_mask, of n] assms
    by (cases "hm_mask (fst s) < calc_mask n") (auto simp: hmap_reserve_at_def Let_def not_less max_absorb1 max_absorb2 simp del: split_paired_Ex)
  subgoal using hmap_resize_wf[OF assms is_mask_calc_mask, of "of_nat (hm_n (fst s))"] assms
    by (cases "hm_mask (fst s) > calc_mask (of_nat (hm_n (fst s)))") (auto simp: hmap_shrink_at_def Let_def not_less min_absorb1 min_absorb2 simp del: split_paired_Ex)
  done

lemma hmap_expand_reserve: "hmap_expand_at s = hmap_reserve_at s (of_nat (hm_n (fst s)))"
  by (simp add: hmap_expand_at_def hmap_reserve_at_def)

lemma hmap_insert_wf:
  assumes "hmap_wf s" "a \<notin> hmap_nodes s"
  shows "\<exists>s'. hmap_insert_at s a x = Some s' \<and> hmap_wf s' \<and> hmap_nodes s' = insert a (hmap_nodes s) \<and>
    snd s' = (snd s)(a := x) \<and> hm_n (fst s') = hm_n (fst s) + 1"
  using hmap_insert_fast_wf[OF assms refl, of x]
    hmap_adjust_wf(1)[OF hmap_insert_fast_wf(1)[OF assms refl, of x], of "of_nat (hm_n (fst s) + 1)"]
  by (auto simp: hmap_insert_at_def Let_def hmap_expand_reserve simp del: split_paired_Ex)

text \<open>After an insertion there are at most two nodes per bucket on average.\<close>

lemma hmap_insert_load:
  assumes wf: "hmap_wf s" "a \<notin> hmap_nodes s" and s': "hmap_insert_at s a x = Some s'" and n: "hm_n (fst s') < 2 ^ 64"
  shows "hm_n (fst s') div 2 \<le> unat (hm_mask (fst s'))"
proof -
  let ?f = "hmap_insert_fast s a x"
  note f = hmap_insert_fast_wf[OF wf refl, of x]
  have n1: "hm_n (fst s') = hm_n (fst ?f)" using hmap_insert_wf[OF wf, of x] s' f(5) by auto
  show ?thesis
  proof (cases "hm_n (fst ?f) div 2 > unat (hm_mask (fst ?f))")
    case True
    let ?n = "of_nat (hm_n (fst ?f)) :: uint64_t"
    have "hmap_reserve_at ?f ?n = Some s'"
      using s' True by (simp add: hmap_insert_at_def Let_def hmap_expand_reserve)
    then have "hm_mask (fst s') \<ge> calc_mask ?n" using hmap_adjust_wf(1)[OF f(1), of ?n] by auto
    then have "unat (?n div 2) \<le> unat (hm_mask (fst s'))"
      using calc_mask_ge[of ?n] by (meson le_trans word_le_nat_alt)
    moreover have "unat ?n = hm_n (fst ?f)" using n n1 by (simp add: unat_of_nat take_bit_nat_eq_self)
    ultimately show ?thesis using n1 by (simp add: unat_div)
  qed (use s' n1 in \<open>auto simp: hmap_insert_at_def Let_def\<close>)
qed

subsection \<open>Search and iteration\<close>

lemma hmap_for_each_with_hash_eq:
  "hmap_for_each_with_hash m (dropWhile (\<lambda>a. m a \<noteq> x) b) = filter (\<lambda>a. m a = x) b"
proof (induction "length b" arbitrary: b rule: less_induct)
  case less
  show ?case
  proof (cases "dropWhile (\<lambda>a. m a \<noteq> x) b")
    case Nil
    then show ?thesis
      by (simp add: hmap_for_each_with_hash.simps)
  next
    case (Cons a as)
    have a: "m a = x" using Cons by (metis (mono_tags, lifting) dropWhile_eq_Cons_conv)
    have b: "b = takeWhile (\<lambda>a. m a \<noteq> x) b @ a # as" using Cons by (metis takeWhile_dropWhile_id)
    have "filter (\<lambda>a. m a = x) (takeWhile (\<lambda>a. m a \<noteq> x) b) = []"
      by (auto simp: filter_empty_conv dest: set_takeWhileD)
    then have "filter (\<lambda>a. m a = x) b = a # filter (\<lambda>a. m a = x) as" using a by (subst b) simp
    moreover have "length as < length b" by (subst b) simp
    ultimately show ?thesis using less[of as] a unfolding Cons
      by (simp add: hmap_for_each_with_hash.simps[of m "a # as"] hmap_next_with_hash_def hmap_next_with_hash'_def)
  qed
qed

lemma hmap_search:
  assumes wf: "hmap_wf s"
  shows "set (hmap_for_each_with_hash (snd s) (hmap_first_with_hash s x)) = {a \<in> hmap_nodes s. snd s a = x}"
    and "distinct (hmap_for_each_with_hash (snd s) (hmap_first_with_hash s x))"
    and "{a \<in> hmap_nodes s. snd s a = x} \<subseteq> set (hmap_first_in_bucket s x)"
    and "set (hmap_first_in_bucket s x) \<subseteq> hmap_nodes s"
proof -
  obtain h m where s: "s = (h, m)" by (cases s)
  note w = wf[unfolded s] and i = bucket_index_less[OF wf[unfolded s], of x]
  have l: "hmap_for_each_with_hash (snd s) (hmap_first_with_hash s x) = filter (\<lambda>a. m a = x) (hm_buckets h ! bucket_index h x)"
    by (simp add: s hmap_first_with_hash_def hmap_next_with_hash'_def hmap_for_each_with_hash_eq)
  show sub: "set (hmap_first_in_bucket s x) \<subseteq> hmap_nodes s"
    unfolding hmap_nodes_def using nth_mem[OF i] by (auto simp: s hmap_first_in_bucket_def)
  show "{a \<in> hmap_nodes s. snd s a = x} \<subseteq> set (hmap_first_in_bucket s x)"
    using hmap_nodes_iff[OF w] by (auto simp: s hmap_first_in_bucket_def)
  then show "set (hmap_for_each_with_hash (snd s) (hmap_first_with_hash s x)) = {a \<in> hmap_nodes s. snd s a = x}"
    unfolding l using sub by (auto simp: s hmap_first_in_bucket_def)
  show "distinct (hmap_for_each_with_hash (snd s) (hmap_first_with_hash s x))"
    unfolding l using hmap_wfD(3)[OF w i] by simp
qed

lemma hmap_contains_iff: "hmap_wf s \<Longrightarrow> hmap_contains s a \<longleftrightarrow> a \<in> hmap_nodes s"
  using hmap_search(3,4)[of s "snd s a"] by (auto simp: hmap_contains_def list_ex_iff)

lemma first_chain_drop:
  "first_chain (drop j bs) = [] \<and> concat (drop j bs) = [] \<or>
   (\<exists>i \<ge> j. i < length bs \<and> bs ! i \<noteq> [] \<and> first_chain (drop j bs) = bs ! i \<and> concat (drop j bs) = bs ! i @ concat (drop (Suc i) bs))"
proof (induction "length bs - j" arbitrary: j)
  case (Suc k)
  then have d: "drop j bs = bs ! j # drop (Suc j) bs" "j < length bs" by (simp_all add: Cons_nth_drop_Suc)
  show ?case
  proof (cases "bs ! j = []")
    case True
    then have e: "first_chain (drop j bs) = first_chain (drop (Suc j) bs)" "concat (drop j bs) = concat (drop (Suc j) bs)"
      using d by simp_all
    have "k = length bs - Suc j" using Suc.hyps(2) by simp
    from Suc.hyps(1)[OF this] show ?thesis unfolding e using Suc_leD by blast
  next
    case False
    then show ?thesis using d by auto
  qed
qed simp

lemma hmap_for_each_suffix:
  assumes wf: "hmap_wf (h, m)"
  shows "i < length (hm_buckets h) \<Longrightarrow> p \<noteq> [] \<Longrightarrow> suffix p (hm_buckets h ! i) \<Longrightarrow>
    length (p @ concat (drop (Suc i) (hm_buckets h))) \<le> fuel \<Longrightarrow>
    hmap_for_each (h, m) fuel p = p @ concat (drop (Suc i) (hm_buckets h))"
proof (induction fuel arbitrary: i p)
  case (Suc fuel)
  obtain a q where p: "p = a # q" using Suc.prems(2) by (cases p) auto
  have "a \<in> set (hm_buckets h ! i)" using Suc.prems(3) p by (auto simp: suffix_def)
  then have ai: "bucket_index h (m a) = i" using hmap_wfD(4)[OF wf Suc.prems(1)] by simp
  show ?case
  proof (cases "q = []")
    case False
    then show ?thesis using Suc.IH[OF Suc.prems(1) False] Suc.prems(3,4) p
      by (simp add: hmap_next_def suffix_ConsD)
  next
    case True
    then have n: "hmap_next (h, m) p = first_chain (drop (Suc i) (hm_buckets h))"
      using ai by (simp add: p hmap_next_def hmap_next'_def)
    from first_chain_drop[of "Suc i" "hm_buckets h"] show ?thesis
    proof (elim disjE exE conjE)
      assume "first_chain (drop (Suc i) (hm_buckets h)) = []" "concat (drop (Suc i) (hm_buckets h)) = []"
      then show ?thesis using n p True by (cases fuel) simp_all
    next
      fix k assume k: "k < length (hm_buckets h)" "hm_buckets h ! k \<noteq> []"
        "first_chain (drop (Suc i) (hm_buckets h)) = hm_buckets h ! k"
        "concat (drop (Suc i) (hm_buckets h)) = hm_buckets h ! k @ concat (drop (Suc k) (hm_buckets h))"
      show ?thesis using Suc.IH[OF k(1,2)] Suc.prems(4) n p True k(3,4) by simp
    qed
  qed
qed simp

lemma hmap_for_each_all:
  assumes wf: "hmap_wf s" and fuel: "hmap_count (fst s) \<le> fuel"
  shows "hmap_for_each s fuel (hmap_first (fst s)) = concat (hm_buckets (fst s))"
proof -
  obtain h m where s: "s = (h, m)" by (cases s)
  note w = wf[unfolded s]
  have l: "length (concat (hm_buckets h)) \<le> fuel" using fuel hmap_wfD(5)[OF w] s by (simp add: hmap_count_def)
  from first_chain_drop[of 0 "hm_buckets h"] show ?thesis
  proof (elim disjE exE conjE)
    fix k assume k: "k < length (hm_buckets h)" "hm_buckets h ! k \<noteq> []"
      "first_chain (drop 0 (hm_buckets h)) = hm_buckets h ! k"
      "concat (drop 0 (hm_buckets h)) = hm_buckets h ! k @ concat (drop (Suc k) (hm_buckets h))"
    show ?thesis using hmap_for_each_suffix[OF w k(1,2), of fuel] l k(3,4)
      by (simp add: s hmap_first_def hmap_next'_def)
  qed (cases fuel, simp_all add: s hmap_first_def hmap_next'_def)
qed

subsection \<open>Interface\<close>

text \<open>
  What the clients of a hash map rely on: insertion and removal change the set of the nodes as they should and
  never fail on a node that is absent, or present; a search by hash value and a walk of a bucket meet every
  node with that hash value, and no address outside the map.  Inside, a client that stores its nodes under the
  hash of a key, one node per key, finds exactly the node of a key.
\<close>

definition keyed :: "addr set \<Rightarrow> (addr \<Rightarrow> uint64_t) \<Rightarrow> (addr \<Rightarrow> 'k) \<Rightarrow> ('k \<Rightarrow> uint64_t) \<Rightarrow> bool" where
  "keyed A h key hf \<longleftrightarrow> inj_on key A \<and> (\<forall>a \<in> A. h a = hf (key a))"

locale node_map =
  fixes wf :: "'s \<Rightarrow> bool"
    and nodes :: "'s \<Rightarrow> addr set"
    and hashes :: "'s \<Rightarrow> addr \<Rightarrow> uint64_t"
    and ins :: "'s \<Rightarrow> addr \<Rightarrow> uint64_t \<Rightarrow> 's option"
    and rmv :: "'s \<Rightarrow> addr \<Rightarrow> 's option"
    and search :: "'s \<Rightarrow> uint64_t \<Rightarrow> addr list"
    and bucket :: "'s \<Rightarrow> uint64_t \<Rightarrow> addr list"
  assumes ins: "wf s \<Longrightarrow> a \<notin> nodes s \<Longrightarrow>
      \<exists>s'. ins s a x = Some s' \<and> wf s' \<and> nodes s' = insert a (nodes s) \<and> hashes s' = (hashes s)(a := x)"
    and rmv: "wf s \<Longrightarrow> a \<in> nodes s \<Longrightarrow>
      \<exists>s'. rmv s a = Some s' \<and> wf s' \<and> nodes s' = nodes s - {a} \<and> hashes s' = hashes s"
    and search: "wf s \<Longrightarrow> set (search s x) = {a \<in> nodes s. hashes s a = x}"
    and bucket: "wf s \<Longrightarrow> {a \<in> nodes s. hashes s a = x} \<subseteq> set (bucket s x) \<and> set (bucket s x) \<subseteq> nodes s"
begin

lemma find_in:
  assumes "keyed (nodes s) (hashes s) key hf"
    and "{a \<in> nodes s. hashes s a = hf k} \<subseteq> set l" "set l \<subseteq> nodes s"
  shows "List.find (\<lambda>a. key a = k) l = Some a \<longleftrightarrow> a \<in> nodes s \<and> key a = k"
    and "List.find (\<lambda>a. key a = k) l = None \<longleftrightarrow> k \<notin> key ` nodes s"
proof -
  have in_l: "a \<in> set l" if "a \<in> nodes s" "key a = k" for a using assms that by (auto simp: keyed_def)
  show n: "List.find (\<lambda>a. key a = k) l = None \<longleftrightarrow> k \<notin> key ` nodes s"
    unfolding find_None_iff using in_l assms(3) by blast
  have uniq: "a = b" if "a \<in> nodes s" "b \<in> nodes s" "key a = key b" for a b
    using assms(1) that by (auto simp: keyed_def inj_on_def)
  show "List.find (\<lambda>a. key a = k) l = Some a \<longleftrightarrow> a \<in> nodes s \<and> key a = k"
  proof (cases "List.find (\<lambda>a. key a = k) l")
    case None
    then show ?thesis using n by auto
  next
    case (Some b)
    then have "b \<in> set l" "key b = k" by (auto simp: find_Some_iff)
    then show ?thesis using Some uniq[of a b] assms(3) by auto
  qed
qed

lemma find_search:
  assumes "wf s" "keyed (nodes s) (hashes s) key hf"
  shows "List.find (\<lambda>a. key a = k) (search s (hf k)) = Some a \<longleftrightarrow> a \<in> nodes s \<and> key a = k"
    and "List.find (\<lambda>a. key a = k) (search s (hf k)) = None \<longleftrightarrow> k \<notin> key ` nodes s"
  using find_in[OF assms(2), of k "search s (hf k)"] search[OF assms(1)] by auto

lemma find_bucket:
  assumes "wf s" "keyed (nodes s) (hashes s) key hf"
  shows "List.find (\<lambda>a. key a = k) (bucket s (hf k)) = Some a \<longleftrightarrow> a \<in> nodes s \<and> key a = k"
    and "List.find (\<lambda>a. key a = k) (bucket s (hf k)) = None \<longleftrightarrow> k \<notin> key ` nodes s"
  using find_in[OF assms(2), of k "bucket s (hf k)"] bucket[OF assms(1)] by auto

lemma ins_keyed:
  assumes "wf s" "keyed (nodes s) (hashes s) key hf" "a \<notin> nodes s" "k \<notin> key ` nodes s"
  shows "\<exists>s'. ins s a (hf k) = Some s' \<and> wf s' \<and> nodes s' = insert a (nodes s) \<and>
    keyed (nodes s') (hashes s') (key(a := k)) hf"
proof -
  obtain s' where "ins s a (hf k) = Some s'" "wf s'" "nodes s' = insert a (nodes s)" "hashes s' = (hashes s)(a := hf k)"
    using ins[OF assms(1,3), of "hf k"] by blast
  moreover from this have "keyed (nodes s') (hashes s') (key(a := k)) hf"
    using assms(2,3,4) by (auto simp: keyed_def inj_on_def)
  ultimately show ?thesis by blast
qed

lemma rmv_keyed:
  assumes "wf s" "keyed (nodes s) (hashes s) key hf" "a \<in> nodes s"
  shows "\<exists>s'. rmv s a = Some s' \<and> wf s' \<and> nodes s' = nodes s - {a} \<and> keyed (nodes s') (hashes s') key hf"
  using rmv[OF assms(1,3)] assms(2) by (auto simp: keyed_def inj_on_def)

end

interpretation hm: node_map hmap_wf hmap_nodes snd hmap_insert_at hmap_remove
  "\<lambda>s x. hmap_for_each_with_hash (snd s) (hmap_first_with_hash s x)" hmap_first_in_bucket
proof unfold_locales
  fix s :: hmap_state and a x
  assume wf: "hmap_wf s"
  show "\<exists>s'. hmap_insert_at s a x = Some s' \<and> hmap_wf s' \<and> hmap_nodes s' = insert a (hmap_nodes s) \<and>
    snd s' = (snd s)(a := x)" if "a \<notin> hmap_nodes s" using hmap_insert_wf[OF wf that, of x] by blast
  show "\<exists>s'. hmap_remove s a = Some s' \<and> hmap_wf s' \<and> hmap_nodes s' = hmap_nodes s - {a} \<and> snd s' = snd s"
    if "a \<in> hmap_nodes s" using hmap_remove_wf(2)[OF wf that] by blast
  show "set (hmap_for_each_with_hash (snd s) (hmap_first_with_hash s x)) = {a \<in> hmap_nodes s. snd s a = x}"
    by (rule hmap_search(1)[OF wf])
  show "{a \<in> hmap_nodes s. snd s a = x} \<subseteq> set (hmap_first_in_bucket s x) \<and> set (hmap_first_in_bucket s x) \<subseteq> hmap_nodes s"
    using hmap_search(3,4)[OF wf] by blast
qed

lemma pop_loop_drop:
  "pop_loop bs k = (None, k + length bs) \<and> concat bs = [] \<or>
   (\<exists>i < length bs. bs ! i \<noteq> [] \<and> concat (take i bs) = [] \<and> pop_loop bs k = (Some (hd (bs ! i)), k + i))"
proof (induction bs arbitrary: k)
  case (Cons b bs)
  show ?case
  proof (cases "b = []")
    case True
    from Cons[of "Suc k"] show ?thesis
    proof (elim disjE exE conjE)
      fix i assume "i < length bs" "bs ! i \<noteq> []" "concat (take i bs) = []" "pop_loop bs (Suc k) = (Some (hd (bs ! i)), Suc k + i)"
      then show ?thesis using True by (intro disjI2 exI[of _ "Suc i"]) simp
    qed (use True in simp)
  qed (auto intro: exI[of _ 0])
qed simp

text \<open>A step of \<open>HMAP_FOR_EACH_POP\<close> takes a node out, or ends the loop when there is none from the bucket on.\<close>

lemma hmap_pop_helper_wf:
  assumes wf: "hmap_wf s"
  shows "(\<exists>a b s'. hmap_pop_helper s k = Some (Some a, b, s') \<and> a \<in> hmap_nodes s \<and> hmap_wf s' \<and>
      hmap_nodes s' = hmap_nodes s - {a} \<and> concat (take (b - k) (drop k (hm_buckets (fst s)))) = []) \<or>
    (\<exists>b. hmap_pop_helper s k = Some (None, b, s) \<and> concat (drop k (hm_buckets (fst s))) = [])"
proof -
  let ?bs = "drop k (hm_buckets (fst s))"
  from pop_loop_drop[of ?bs k] show ?thesis
  proof (elim disjE exE conjE)
    fix i assume i: "i < length ?bs" "?bs ! i \<noteq> []" "concat (take i ?bs) = []" "pop_loop ?bs k = (Some (hd (?bs ! i)), k + i)"
    let ?a = "hd (?bs ! i)"
    have "?bs ! i \<in> set (hm_buckets (fst s))" by (rule in_set_dropD[OF nth_mem[OF i(1)]])
    then have "?a \<in> hmap_nodes s" using i(2) unfolding hmap_nodes_def by (auto intro: hd_in_set)
    then obtain s' where "hmap_remove s ?a = Some s'" "hmap_wf s'" "hmap_nodes s' = hmap_nodes s - {?a}"
      using hmap_remove_wf(2)[OF wf, of ?a] by blast
    moreover from this have "hmap_pop_helper s k = Some (Some ?a, k + i, s')" using i(4) by (simp add: hmap_pop_helper_def)
    moreover have "concat (take (k + i - k) ?bs) = []" using i(3) by (simp only: add_diff_cancel_left')
    ultimately show ?thesis using \<open>?a \<in> hmap_nodes s\<close> by blast
  qed (auto simp: hmap_pop_helper_def)
qed

subsection \<open>Sequences of calls\<close>

text \<open>
  The calls of a client.  It inserts only nodes that are not in the map, and removes and replaces only nodes
  that are, as the comments of the code ask for.
\<close>

datatype hmap_op =
    Hmap_Insert addr uint64_t
  | Hmap_Insert_Fast addr uint64_t
  | Hmap_Remove addr
  | Hmap_Replace addr addr
  | Hmap_Expand
  | Hmap_Shrink
  | Hmap_Reserve uint64_t
  | Hmap_Clear

fun hmap_step :: "hmap_op \<Rightarrow> hmap_state \<Rightarrow> hmap_state option" where
  "hmap_step (Hmap_Insert a x) s = (if hmap_contains s a then Some s else hmap_insert_at s a x)"
| "hmap_step (Hmap_Insert_Fast a x) s = (if hmap_contains s a then Some s else Some (hmap_insert_fast s a x))"
| "hmap_step (Hmap_Remove a) s = (if hmap_contains s a then hmap_remove s a else Some s)"
| "hmap_step (Hmap_Replace a c) s =
     (if hmap_contains s a \<and> \<not> hmap_contains s c then hmap_replace s a c else Some s)"
| "hmap_step Hmap_Expand s = hmap_expand_at s"
| "hmap_step Hmap_Shrink s = hmap_shrink_at s"
| "hmap_step (Hmap_Reserve n) s = hmap_reserve_at s n"
| "hmap_step Hmap_Clear s = Some (hmap_clear (fst s), snd s)"

text \<open>The abstract map: the hash value of each node.\<close>

definition hmap_abs :: "hmap_state \<Rightarrow> addr \<rightharpoonup> uint64_t" where
  "hmap_abs s = (Some \<circ> snd s) |` hmap_nodes s"

fun hmap_spec :: "hmap_op \<Rightarrow> (addr \<rightharpoonup> uint64_t) \<Rightarrow> addr \<rightharpoonup> uint64_t" where
  "hmap_spec (Hmap_Insert a x) M = (if a \<in> dom M then M else M(a \<mapsto> x))"
| "hmap_spec (Hmap_Insert_Fast a x) M = (if a \<in> dom M then M else M(a \<mapsto> x))"
| "hmap_spec (Hmap_Remove a) M = M(a := None)"
| "hmap_spec (Hmap_Replace a c) M = (if a \<in> dom M \<and> c \<notin> dom M then M(a := None, c := M a) else M)"
| "hmap_spec Hmap_Clear M = Map.empty"
| "hmap_spec _ M = M"

lemma hmap_abs_simps:
  "dom (hmap_abs s) = hmap_nodes s" "a \<in> hmap_nodes s \<Longrightarrow> hmap_abs s a = Some (snd s a)"
  "a \<notin> hmap_nodes s \<Longrightarrow> hmap_abs s a = None"
  by (auto simp: hmap_abs_def restrict_map_def split: if_splits)

lemma hmap_abs_eqI:
  "hmap_nodes s = hmap_nodes t \<Longrightarrow> snd s = snd t \<Longrightarrow> hmap_abs s = hmap_abs t"
  by (simp add: hmap_abs_def)

lemma hmap_abs_keep:
  "\<exists>s'. r = Some s' \<and> hmap_wf s' \<and> hmap_nodes s' = hmap_nodes s \<and> snd s' = snd s \<and> P s' \<Longrightarrow>
   \<exists>s'. r = Some s' \<and> hmap_wf s' \<and> hmap_abs s' = hmap_abs s"
  using hmap_abs_eqI by blast

lemma hmap_abs_insert:
  assumes "hmap_nodes s' = insert a (hmap_nodes s)" "snd s' = (snd s)(a := x)"
  shows "hmap_abs s' = (hmap_abs s)(a \<mapsto> x)"
  unfolding hmap_abs_def assms by (intro ext) (simp add: restrict_map_def)

lemma hmap_step_abs:
  assumes wf: "hmap_wf s"
  shows "\<exists>s'. hmap_step opn s = Some s' \<and> hmap_wf s' \<and> hmap_abs s' = hmap_spec opn (hmap_abs s)"
proof (cases opn)
  case (Hmap_Insert a x)
  show ?thesis
  proof (cases "a \<in> hmap_nodes s")
    case False
    then obtain s' where "hmap_insert_at s a x = Some s'" "hmap_wf s'" "hmap_nodes s' = insert a (hmap_nodes s)"
      "snd s' = (snd s)(a := x)" using hmap_insert_wf[OF wf, of a x] by blast
    then show ?thesis using hmap_abs_insert[of _ a s x] Hmap_Insert wf False by (simp add: hmap_contains_iff hmap_abs_simps(1))
  qed (use Hmap_Insert wf in \<open>simp add: hmap_contains_iff hmap_abs_simps(1)\<close>)
next
  case (Hmap_Insert_Fast a x)
  show ?thesis
  proof (cases "a \<in> hmap_nodes s")
    case False
    note hmap_insert_fast_wf(1,2,3)[OF wf False refl, of x]
    then show ?thesis using hmap_abs_insert[of _ a s x] Hmap_Insert_Fast wf False by (simp add: hmap_contains_iff hmap_abs_simps(1))
  qed (use Hmap_Insert_Fast wf in \<open>simp add: hmap_contains_iff hmap_abs_simps(1)\<close>)
next
  case (Hmap_Remove a)
  show ?thesis
  proof (cases "a \<in> hmap_nodes s")
    case True
    then obtain s' where s': "hmap_remove s a = Some s'" "hmap_wf s'" "hmap_nodes s' = hmap_nodes s - {a}" "snd s' = snd s"
      using hmap_remove_wf(2)[OF wf] by blast
    then have "hmap_abs s' = (hmap_abs s)(a := None)"
      unfolding hmap_abs_def s'(3,4) by (intro ext) (simp add: restrict_map_def)
    then show ?thesis using s' True wf Hmap_Remove by (simp add: hmap_contains_iff)
  next
    case False
    then show ?thesis using wf Hmap_Remove by (simp add: hmap_contains_iff hmap_abs_simps fun_upd_idem)
  qed
next
  case (Hmap_Replace a c)
  show ?thesis
  proof (cases "a \<in> hmap_nodes s \<and> c \<notin> hmap_nodes s")
    case True
    then obtain s' where s': "hmap_replace s a c = Some s'" "hmap_wf s'" "hmap_nodes s' = insert c (hmap_nodes s - {a})"
      "snd s' = (snd s)(c := snd s a)" using hmap_replace_wf[OF wf, of a c] by blast
    then have "hmap_abs s' = (hmap_abs s)(a := None, c := hmap_abs s a)"
      using True unfolding hmap_abs_def s'(3,4) by (intro ext) (auto simp: restrict_map_def)
    then show ?thesis using s' True wf Hmap_Replace by (simp add: hmap_contains_iff hmap_abs_simps(1))
  next
    case False
    then show ?thesis using wf Hmap_Replace by (auto simp: hmap_contains_iff hmap_abs_simps(1) simp del: split_paired_Ex)
  qed
next
  case Hmap_Expand
  then show ?thesis
    using hmap_abs_keep[OF hmap_adjust_wf(1)[OF wf, of "of_nat (hm_n (fst s))"]] by (simp add: hmap_expand_reserve)
next
  case Hmap_Shrink
  then show ?thesis using hmap_abs_keep[OF hmap_adjust_wf(2)[OF wf]] by simp
next
  case (Hmap_Reserve n)
  then show ?thesis using hmap_abs_keep[OF hmap_adjust_wf(1)[OF wf, of n]] by simp
next
  case Hmap_Clear
  have "hmap_wf (hmap_clear (fst s), snd s)" "hmap_nodes (hmap_clear (fst s), snd s) = {}"
    using hmap_clear_wf[of "fst s" "snd s"] wf by simp_all
  then show ?thesis using Hmap_Clear by (simp add: hmap_abs_def)
qed

interpretation hmap_calls: op_refinement hmap_step "\<lambda>_. True" hmap_wf hmap_abs hmap_spec
proof unfold_locales
  fix s s' opn
  show "hmap_wf s \<Longrightarrow> \<exists>s'. hmap_step opn s = Some s' \<and> hmap_wf s'"
    using hmap_step_abs[of s opn] by blast
  show "hmap_wf s \<Longrightarrow> hmap_step opn s = Some s' \<Longrightarrow> hmap_abs s' = hmap_spec opn (hmap_abs s)"
    using hmap_step_abs[of s opn] by auto
qed

lemma hmap_init_wf: "hmap_wf (hmap_init, m)" "hmap_nodes (hmap_init, m) = {}"
  using hmap_empty_wf[of 0 m] by (simp_all add: hmap_init_def is_mask_def exI[of _ 0])

lemma hmap_count_card: "hmap_wf s \<Longrightarrow> hmap_count (fst s) = card (hmap_nodes s)"
  using distinct_concat_buckets[of "fst s" "snd s"] hmap_wfD(5)[of "fst s" "snd s"]
  by (simp add: hmap_nodes_def hmap_count_def distinct_card del: set_concat)

subsection \<open>Properties\<close>

text \<open>
  C35: From an empty hash map, every sequence of insertions, removals, replacements, clearings and changes of
  capacity returns, without a failed assertion and without running off a bucket.  The map then holds the
  nodes, with the hash values, that the same sequence leaves in a finite map; expanding, shrinking and
  reserving change nothing; and \<open>hmap_count\<close> is the number of the nodes.
\<close>

theorem hmap_simulates_map:
  "\<exists>s. run_ops hmap_step ops (hmap_init, m) = Some s \<and> hmap_abs s = fold hmap_spec ops Map.empty \<and>
     hmap_count (fst s) = card (dom (hmap_abs s)) \<and> (hmap_is_empty (fst s) \<longleftrightarrow> hmap_abs s = Map.empty)"
proof -
  have "hmap_abs (hmap_init, m) = Map.empty" using hmap_init_wf(2)[of m] by (simp add: hmap_abs_def)
  then obtain s where s: "run_ops hmap_step ops (hmap_init, m) = Some s" "hmap_wf s" "hmap_abs s = fold hmap_spec ops Map.empty"
    using hmap_calls.run_abs[OF hmap_init_wf(1), of ops m] by (auto simp: list_all_iff)
  have "finite (hmap_nodes s)" by (simp add: hmap_nodes_def)
  then have "hmap_is_empty (fst s) \<longleftrightarrow> dom (hmap_abs s) = {}"
    using hmap_count_card[OF s(2)] by (simp add: hmap_is_empty_def hmap_count_def hmap_abs_simps(1))
  then show ?thesis using s hmap_count_card[OF s(2)] by (simp add: hmap_abs_simps(1))
qed

text \<open>
  C36: In a well-formed map the loop \<open>HMAP_FOR_EACH_WITH_HASH\<close> visits every node with the hash value exactly
  once and no other; the loop \<open>HMAP_FOR_EACH\<close> ends after as many steps as there are nodes, however many steps
  it is allowed, and visits every node exactly once; and an insertion leaves at most two nodes per bucket on
  average.
\<close>

theorem hmap_iteration_exact:
  assumes "hmap_wf s"
  shows "set (hmap_for_each_with_hash (snd s) (hmap_first_with_hash s x)) = {a \<in> hmap_nodes s. snd s a = x} \<and>
    distinct (hmap_for_each_with_hash (snd s) (hmap_first_with_hash s x)) \<and>
    set (hmap_for_each s (hmap_count (fst s) + k) (hmap_first (fst s))) = hmap_nodes s \<and>
    distinct (hmap_for_each s (hmap_count (fst s) + k) (hmap_first (fst s))) \<and>
    (a \<notin> hmap_nodes s \<longrightarrow> (\<exists>s'. hmap_insert_at s a x = Some s' \<and>
       (hmap_count (fst s') < 2 ^ 64 \<longrightarrow> hmap_count (fst s') div 2 \<le> unat (hm_mask (fst s')))))"
proof (intro conjI impI)
  have f: "hmap_for_each s (hmap_count (fst s) + k) (hmap_first (fst s)) = concat (hm_buckets (fst s))"
    by (rule hmap_for_each_all[OF assms]) simp
  show "set (hmap_for_each_with_hash (snd s) (hmap_first_with_hash s x)) = {a \<in> hmap_nodes s. snd s a = x}"
    and "distinct (hmap_for_each_with_hash (snd s) (hmap_first_with_hash s x))"
    by (rule hmap_search[OF assms])+
  show "set (hmap_for_each s (hmap_count (fst s) + k) (hmap_first (fst s))) = hmap_nodes s"
    unfolding f by (simp add: hmap_nodes_def)
  show "distinct (hmap_for_each s (hmap_count (fst s) + k) (hmap_first (fst s)))"
    unfolding f using distinct_concat_buckets[of "fst s" "snd s"] assms by simp
  assume "a \<notin> hmap_nodes s"
  then show "\<exists>s'. hmap_insert_at s a x = Some s' \<and>
      (hmap_count (fst s') < 2 ^ 64 \<longrightarrow> hmap_count (fst s') div 2 \<le> unat (hm_mask (fst s')))"
    using hmap_insert_wf[OF assms, of a x] hmap_insert_load[OF assms, of a x] unfolding hmap_count_def by blast
qed

theorem hmap_iteration_exact_witness:
  "\<exists>s. run_ops hmap_step [Hmap_Insert 7 1, Hmap_Insert 8 5, Hmap_Insert 9 1] (hmap_init, \<lambda>_. 0) = Some s \<and>
     set (hmap_for_each_with_hash (snd s) (hmap_first_with_hash s 1)) = {7, 9} \<and>
     set (hmap_for_each s (hmap_count (fst s) + 2) (hmap_first (fst s))) = {7, 8, 9}"
proof -
  let ?ops = "[Hmap_Insert 7 1, Hmap_Insert 8 5, Hmap_Insert 9 1]"
  have "map_option (\<lambda>s. (hm_buckets (fst s), snd s 7, snd s 8, snd s 9)) (run_ops hmap_step ?ops (hmap_init, \<lambda>_. 0)) =
    Some ([[], [9, 7, 8], [], []], 1, 5, 1)" by code_simp
  then obtain s where s: "run_ops hmap_step ?ops (hmap_init, \<lambda>_. 0) = Some s" "hm_buckets (fst s) = [[], [9, 7, 8], [], []]"
    "snd s 7 = 1" "snd s 8 = 5" "snd s 9 = 1" by auto
  have "hmap_wf s" using hmap_calls.run_abs[OF hmap_init_wf(1), of ?ops "\<lambda>_. 0"] s(1) by auto
  note w = hmap_iteration_exact[OF this, of 1 2 0]
  have "hmap_nodes s = {7, 8, 9}" using s(2) by (auto simp: hmap_nodes_def)
  then show ?thesis using w s by auto
qed

end
