(* ===== verification/Mac_Learning.thy ===== *)
theory Mac_Learning
  imports Heap_Queue Hash_Map "HOL-Library.Monad_Syntax"
begin

text \<open>
  The MAC learning table (\<open>lib/mac-learning.c\<close>, \<open>lib/mac-learning.h\<close>): a hash map from an Ethernet address and
  a VLAN to an entry, a list of the entries in the order of their last use, and for fairness the ports, each
  with the list of its entries, in a hash map by pointer and in a heap by number of entries.  The hash maps
  are those of Hash\_Map and the heap is that of Heap\_Queue, reached through their interfaces.

  An entry and a port are addresses; the table record holds the memory they live in and the next free
  address.  A list of \<open>ovs_list\<close> nodes is the list of the addresses of the objects.  A client's port pointer
  is an address, \<open>None\<close> the null pointer.  The current time is a parameter of the calls that read it, and the
  locks are left out: a call runs alone.  The result \<open>None\<close> is a failed assertion or a null dereference.
\<close>

subsection \<open>Ethernet addresses\<close>

type_synonym eth_addr = "uint8_t list"

definition eth_addr_is_multicast :: "eth_addr \<Rightarrow> bool" where
  "eth_addr_is_multicast a \<longleftrightarrow> a ! 0 AND 1 \<noteq> 0"

definition eth_addr_to_uint64 :: "eth_addr \<Rightarrow> uint64_t" where
  "eth_addr_to_uint64 ea =
     push_bit 32 (ucast (be_value [ea ! 0, ea ! 1] :: uint16_t))
     OR push_bit 16 (ucast (be_value [ea ! 2, ea ! 3] :: uint16_t))
     OR ucast (be_value [ea ! 4, ea ! 5] :: uint16_t)"

definition eth_addr_vlan_to_uint64 :: "eth_addr \<Rightarrow> uint16_t \<Rightarrow> uint64_t" where
  "eth_addr_vlan_to_uint64 ea vlan = push_bit 48 (ucast vlan) OR eth_addr_to_uint64 ea"

definition hash_mac :: "eth_addr \<Rightarrow> uint16_t \<Rightarrow> uint32_t \<Rightarrow> uint32_t" where
  "hash_mac ea vlan basis = hash_uint64_basis (eth_addr_vlan_to_uint64 ea vlan) basis"

subsection \<open>State\<close>

definition MAC_DEFAULT_MAX :: nat where
  "MAC_DEFAULT_MAX = 8192"

definition MAC_ENTRY_AGE_STATIC_ENTRY :: int where
  "MAC_ENTRY_AGE_STATIC_ENTRY = 2 ^ 31 - 1"

definition MAC_GRAT_ARP_LOCK_TIME :: int where
  "MAC_GRAT_ARP_LOCK_TIME = 5"

definition TIME_MIN :: int where
  "TIME_MIN = - (2 ^ 63)"

record mac_entry =
  me_expires :: int
  me_grat_arp_lock :: int
  me_mac :: eth_addr
  me_vlan :: uint16_t
  me_mlport :: "addr option"

record mac_learning_port =
  mp_port :: addr
  mp_port_lrus :: "addr list"

record mac_learning =
  ml_table :: hmap_state
  ml_lrus :: "addr list"
  ml_secret :: uint32_t
  ml_flood_vlans :: "bool list option"
  ml_idle_time :: uint32_t
  ml_max_entries :: nat
  ml_static_entries :: uint64_t
  ml_need_revalidate :: bool
  ml_total_learned :: uint64_t
  ml_total_expired :: uint64_t
  ml_total_evicted :: uint64_t
  ml_total_moved :: uint64_t
  ml_ports_by_ptr :: hmap_state
  ml_ports_by_usage :: heap_state
  ml_entries :: "addr \<Rightarrow> mac_entry"
  ml_ports :: "addr \<Rightarrow> mac_learning_port"
  ml_next :: addr

definition upd_entry :: "mac_learning \<Rightarrow> addr \<Rightarrow> (mac_entry \<Rightarrow> mac_entry) \<Rightarrow> mac_learning" where
  "upd_entry ml e f = ml\<lparr>ml_entries := (ml_entries ml)(e := f (ml_entries ml e))\<rparr>"

definition upd_mlport :: "mac_learning \<Rightarrow> addr \<Rightarrow> (mac_learning_port \<Rightarrow> mac_learning_port) \<Rightarrow> mac_learning" where
  "upd_mlport ml p f = ml\<lparr>ml_ports := (ml_ports ml)(p := f (ml_ports ml p))\<rparr>"

subsection \<open>Entries\<close>

definition mac_entry_set_grat_arp_lock :: "int \<Rightarrow> mac_entry \<Rightarrow> mac_entry" where
  "mac_entry_set_grat_arp_lock now mac = mac\<lparr>me_grat_arp_lock := now + MAC_GRAT_ARP_LOCK_TIME\<rparr>"

definition mac_entry_is_grat_arp_locked :: "int \<Rightarrow> mac_entry \<Rightarrow> bool" where
  "mac_entry_is_grat_arp_locked now mac \<longleftrightarrow> now < me_grat_arp_lock mac"

definition mac_entry_get_port :: "mac_learning \<Rightarrow> addr \<Rightarrow> addr option" where
  "mac_entry_get_port ml e =
     (case me_mlport (ml_entries ml e) of Some mlport \<Rightarrow> Some (mp_port (ml_ports ml mlport)) | None \<Rightarrow> None)"

definition mac_entry_age :: "mac_learning \<Rightarrow> addr \<Rightarrow> int \<Rightarrow> int" where
  "mac_entry_age ml e now =
     (if MAC_ENTRY_AGE_STATIC_ENTRY = me_expires (ml_entries ml e) then MAC_ENTRY_AGE_STATIC_ENTRY
      else let remaining = me_expires (ml_entries ml e) - now
           in s32 (int (unat (ml_idle_time ml)) - remaining))"

definition mac_table_hash :: "mac_learning \<Rightarrow> eth_addr \<Rightarrow> uint16_t \<Rightarrow> uint32_t" where
  "mac_table_hash ml mac vlan = hash_mac mac vlan (ml_secret ml)"

definition mac_entry_lookup :: "mac_learning \<Rightarrow> eth_addr \<Rightarrow> uint16_t \<Rightarrow> addr option" where
  "mac_entry_lookup ml mac vlan =
     List.find (\<lambda>e. me_vlan (ml_entries ml e) = vlan \<and> me_mac (ml_entries ml e) = mac)
       (hmap_for_each_with_hash (snd (ml_table ml))
          (hmap_first_with_hash (ml_table ml) (ucast (mac_table_hash ml mac vlan))))"

definition mac_learning_port_lookup :: "mac_learning \<Rightarrow> addr \<Rightarrow> addr option" where
  "mac_learning_port_lookup ml port =
     List.find (\<lambda>mlport. mp_port (ml_ports ml mlport) = port)
       (hmap_first_in_bucket (ml_ports_by_ptr ml) (ucast (hash_pointer port (ml_secret ml))))"

subsection \<open>The port of an entry\<close>

text \<open>The two halves of \<open>mac_entry_set_port\<close>: leaving the old port and joining the new one.\<close>

definition port_detach :: "mac_learning \<Rightarrow> addr \<Rightarrow> mac_learning option" where
  "port_detach ml e =
     (case me_mlport (ml_entries ml e) of
        None \<Rightarrow> Some ml
      | Some mlport \<Rightarrow>
          let ml = upd_mlport ml mlport (\<lambda>p. p\<lparr>mp_port_lrus := remove1 e (mp_port_lrus p)\<rparr>);
              priority = hn_priority (snd (ml_ports_by_usage ml) mlport)
          in do {
            ml \<leftarrow> (if mp_port_lrus (ml_ports ml mlport) = [] then do {
                     ovs_assert (priority = 1);
                     by_ptr \<leftarrow> hmap_remove (ml_ports_by_ptr ml) mlport;
                     Some (ml\<lparr>ml_ports_by_ptr := by_ptr,
                              ml_ports_by_usage := heap_remove (ml_ports_by_usage ml) mlport\<rparr>)
                   } else do {
                     ovs_assert (priority > 1);
                     Some (ml\<lparr>ml_ports_by_usage := heap_change (ml_ports_by_usage ml) mlport (priority - 1)\<rparr>)
                   });
            Some (upd_entry ml e (\<lambda>m. m\<lparr>me_mlport := None\<rparr>))
          })"

definition port_attach :: "mac_learning \<Rightarrow> addr \<Rightarrow> addr \<Rightarrow> mac_learning option" where
  "port_attach ml e port =
     do {
       (ml, mlport) \<leftarrow>
         (case mac_learning_port_lookup ml port of
            None \<Rightarrow>
              let mlport = ml_next ml
              in do {
                by_ptr \<leftarrow> hmap_insert_at (ml_ports_by_ptr ml) mlport (ucast (hash_pointer port (ml_secret ml)));
                Some (ml\<lparr>ml_next := ml_next ml + 1, ml_ports_by_ptr := by_ptr,
                         ml_ports_by_usage := heap_insert (ml_ports_by_usage ml) mlport 1,
                         ml_ports := (ml_ports ml)(mlport := \<lparr>mp_port = port, mp_port_lrus = []\<rparr>)\<rparr>, mlport)
              }
          | Some mlport \<Rightarrow>
              Some (ml\<lparr>ml_ports_by_usage := heap_change (ml_ports_by_usage ml) mlport
                         (hn_priority (snd (ml_ports_by_usage ml) mlport) + 1)\<rparr>, mlport));
       Some (upd_entry (upd_mlport ml mlport (\<lambda>p. p\<lparr>mp_port_lrus := mp_port_lrus p @ [e]\<rparr>)) e
               (\<lambda>m. m\<lparr>me_mlport := Some mlport\<rparr>))
     }"

definition mac_entry_set_port :: "mac_learning \<Rightarrow> addr \<Rightarrow> addr option \<Rightarrow> mac_learning option" where
  "mac_entry_set_port ml e port =
     (if mac_entry_get_port ml e \<noteq> port then do {
        ml \<leftarrow> port_detach (ml\<lparr>ml_need_revalidate := True\<rparr>) e;
        (case port of None \<Rightarrow> Some ml | Some port \<Rightarrow> port_attach ml e port)
      } else Some ml)"

definition mac_learning_expire :: "mac_learning \<Rightarrow> addr \<Rightarrow> mac_learning option" where
  "mac_learning_expire ml e =
     do {
       ml \<leftarrow> mac_entry_set_port (ml\<lparr>ml_need_revalidate := True\<rparr>) e None;
       table \<leftarrow> hmap_remove (ml_table ml) e;
       Some (ml\<lparr>ml_table := table, ml_lrus := remove1 e (ml_lrus ml)\<rparr>)
     }"

definition evict_mac_entry_fairly :: "mac_learning \<Rightarrow> mac_learning option" where
  "evict_mac_entry_fairly ml =
     (if heap_is_empty (fst (ml_ports_by_usage ml)) then None
      else let mlport = heap_max (fst (ml_ports_by_usage ml))
           in case mp_port_lrus (ml_ports ml mlport) of
                [] \<Rightarrow> None
              | e # _ \<Rightarrow> mac_learning_expire (ml\<lparr>ml_total_evicted := ml_total_evicted ml + 1\<rparr>) e)"

definition get_lru :: "mac_learning \<Rightarrow> addr option" where
  "get_lru ml = List.find (\<lambda>e. me_expires (ml_entries ml e) \<noteq> MAC_ENTRY_AGE_STATIC_ENTRY) (ml_lrus ml)"

subsection \<open>Creation and configuration\<close>

definition normalize_idle_time :: "uint32_t \<Rightarrow> uint32_t" where
  "normalize_idle_time idle_time = (if idle_time < 15 then 15 else if idle_time > 3600 then 3600 else idle_time)"

definition mac_learning_clear_statistics :: "mac_learning \<Rightarrow> mac_learning" where
  "mac_learning_clear_statistics ml =
     ml\<lparr>ml_total_learned := 0, ml_total_expired := 0, ml_total_evicted := 0, ml_total_moved := 0\<rparr>"

text \<open>\<open>mem\<close> is the memory of the new table: what its members and the objects hold before they are written.\<close>

definition mac_learning_create :: "uint32_t \<Rightarrow> uint32_t \<Rightarrow> mac_learning \<Rightarrow> mac_learning" where
  "mac_learning_create idle_time random mem =
     mac_learning_clear_statistics
       (mem\<lparr>ml_lrus := [], ml_table := (hmap_init, snd (ml_table mem)), ml_secret := random,
            ml_flood_vlans := None, ml_idle_time := normalize_idle_time idle_time,
            ml_max_entries := MAC_DEFAULT_MAX, ml_need_revalidate := False,
            ml_ports_by_ptr := (hmap_init, snd (ml_ports_by_ptr mem)),
            ml_ports_by_usage := (heap_init, snd (ml_ports_by_usage mem)), ml_static_entries := 0\<rparr>)"

definition vlan_bitmap_equal :: "bool list option \<Rightarrow> bool list option \<Rightarrow> bool" where
  "vlan_bitmap_equal a b =
     (case (a, b) of (None, None) \<Rightarrow> True | (Some a, Some b) \<Rightarrow> take 4096 a = take 4096 b | _ \<Rightarrow> False)"

definition mac_learning_set_flood_vlans :: "mac_learning \<Rightarrow> bool list option \<Rightarrow> bool \<times> mac_learning" where
  "mac_learning_set_flood_vlans ml bitmap =
     (if vlan_bitmap_equal (ml_flood_vlans ml) bitmap then (False, ml)
      else (True, ml\<lparr>ml_flood_vlans := bitmap\<rparr>))"

definition mac_learning_set_idle_time :: "mac_learning \<Rightarrow> uint32_t \<Rightarrow> mac_learning" where
  "mac_learning_set_idle_time ml idle_time =
     (let idle_time = normalize_idle_time idle_time
      in if idle_time \<noteq> ml_idle_time ml
         then let delta = s32 (sint idle_time - sint (ml_idle_time ml));
                  ml = fold (\<lambda>e ml. upd_entry ml e (\<lambda>m. m\<lparr>me_expires := me_expires m + delta\<rparr>)) (ml_lrus ml) ml
              in ml\<lparr>ml_idle_time := idle_time\<rparr>
         else ml)"

definition mac_learning_set_max_entries :: "mac_learning \<Rightarrow> nat \<Rightarrow> mac_learning" where
  "mac_learning_set_max_entries ml max_entries =
     ml\<lparr>ml_max_entries := (if max_entries < 10 then 10 else if max_entries > 1000 * 1000 then 1000 * 1000
                          else max_entries)\<rparr>"

definition is_learning_vlan :: "mac_learning \<Rightarrow> uint16_t \<Rightarrow> bool" where
  "is_learning_vlan ml vlan =
     (case ml_flood_vlans ml of None \<Rightarrow> True | Some bitmap \<Rightarrow> \<not> bitmap ! unat vlan)"

definition mac_learning_may_learn :: "mac_learning \<Rightarrow> eth_addr \<Rightarrow> uint16_t \<Rightarrow> bool" where
  "mac_learning_may_learn ml src_mac vlan \<longleftrightarrow> is_learning_vlan ml vlan \<and> \<not> eth_addr_is_multicast src_mac"

subsection \<open>Learning\<close>

text \<open>A new entry for an address: the first half of \<open>mac_learning_insert__\<close>.\<close>

definition new_mac_entry :: "mac_learning \<Rightarrow> eth_addr \<Rightarrow> uint16_t \<Rightarrow> bool \<Rightarrow> (addr \<times> mac_learning) option" where
  "new_mac_entry ml src_mac vlan is_static =
     (let hash = mac_table_hash ml src_mac vlan
      in do {
        ml \<leftarrow> (if hmap_count (fst (ml_table ml)) \<ge> ml_max_entries ml then evict_mac_entry_fairly ml else Some ml);
        let e = ml_next ml;
        table \<leftarrow> hmap_insert_at (ml_table ml) e (ucast hash);
        Some (e, ml\<lparr>ml_next := ml_next ml + 1, ml_table := table,
                    ml_entries := (ml_entries ml)(e := \<lparr>me_expires = 0, me_grat_arp_lock = TIME_MIN,
                      me_mac = src_mac, me_vlan = vlan, me_mlport = None\<rparr>),
                    ml_total_learned := (if is_static then ml_total_learned ml else ml_total_learned ml + 1)\<rparr>)
      })"

text \<open>The rest of it, which marks the entry as recently used and sets when it expires.\<close>

definition touch_mac_entry :: "mac_learning \<Rightarrow> addr \<Rightarrow> mac_learning" where
  "touch_mac_entry ml e =
     (let ml = ml\<lparr>ml_lrus := ml_lrus ml @ [e]\<rparr>
      in case me_mlport (ml_entries ml e) of
           Some mlport \<Rightarrow> upd_mlport ml mlport (\<lambda>p. p\<lparr>mp_port_lrus := remove1 e (mp_port_lrus p) @ [e]\<rparr>)
         | None \<Rightarrow> ml)"

definition set_mac_expires :: "mac_learning \<Rightarrow> addr \<Rightarrow> bool \<Rightarrow> int \<Rightarrow> mac_learning" where
  "set_mac_expires ml e is_static now =
     (if is_static
      then upd_entry (if me_expires (ml_entries ml e) \<noteq> MAC_ENTRY_AGE_STATIC_ENTRY
                      then ml\<lparr>ml_static_entries := ml_static_entries ml + 1\<rparr> else ml) e
             (\<lambda>m. m\<lparr>me_expires := MAC_ENTRY_AGE_STATIC_ENTRY\<rparr>)
      else upd_entry ml e (\<lambda>m. m\<lparr>me_expires := now + int (unat (ml_idle_time ml))\<rparr>))"

definition mac_learning_insert' :: "mac_learning \<Rightarrow> eth_addr \<Rightarrow> uint16_t \<Rightarrow> bool \<Rightarrow> int \<Rightarrow> (addr \<times> mac_learning) option" where
  "mac_learning_insert' ml src_mac vlan is_static now =
     do {
       (e, ml) \<leftarrow> (case mac_entry_lookup ml src_mac vlan of
                     None \<Rightarrow> new_mac_entry ml src_mac vlan is_static
                   | Some e \<Rightarrow> Some (e, ml\<lparr>ml_lrus := remove1 e (ml_lrus ml)\<rparr>));
       Some (e, set_mac_expires (touch_mac_entry ml e) e is_static now)
     }"

definition mac_learning_insert :: "mac_learning \<Rightarrow> eth_addr \<Rightarrow> uint16_t \<Rightarrow> int \<Rightarrow> (addr \<times> mac_learning) option" where
  "mac_learning_insert ml src_mac vlan now = mac_learning_insert' ml src_mac vlan False now"

definition mac_learning_lookup :: "mac_learning \<Rightarrow> eth_addr \<Rightarrow> uint16_t \<Rightarrow> addr option option" where
  "mac_learning_lookup ml dst vlan =
     (if eth_addr_is_multicast dst then Some None
      else if \<not> is_learning_vlan ml vlan then Some None
      else let e = mac_entry_lookup ml dst vlan
           in do {
             ovs_assert (case e of None \<Rightarrow> True | Some e \<Rightarrow> mac_entry_get_port ml e \<noteq> None);
             Some e
           })"

definition mac_learning_add_static_entry ::
  "mac_learning \<Rightarrow> eth_addr \<Rightarrow> uint16_t \<Rightarrow> addr option \<Rightarrow> int \<Rightarrow> (bool \<times> mac_learning) option" where
  "mac_learning_add_static_entry ml src_mac vlan in_port now =
     do {
       (mac, ml) \<leftarrow> mac_learning_insert' ml src_mac vlan True now;
       ml \<leftarrow> mac_entry_set_port ml mac in_port;
       Some (True, ml)
     }"

definition mac_learning_del_static_entry ::
  "mac_learning \<Rightarrow> eth_addr \<Rightarrow> uint16_t \<Rightarrow> int \<Rightarrow> (bool \<times> mac_learning) option" where
  "mac_learning_del_static_entry ml dl_src vlan now =
     do {
       mac \<leftarrow> mac_learning_lookup ml dl_src vlan;
       (case mac of
          None \<Rightarrow> Some (False, ml)
        | Some mac \<Rightarrow>
            if mac_entry_age ml mac now = MAC_ENTRY_AGE_STATIC_ENTRY then do {
              ml \<leftarrow> mac_learning_expire ml mac;
              Some (True, ml\<lparr>ml_static_entries := ml_static_entries ml - 1\<rparr>)
            } else Some (False, ml))
     }"

definition is_mac_learning_update_needed ::
  "mac_learning \<Rightarrow> eth_addr \<Rightarrow> int \<Rightarrow> bool \<Rightarrow> bool \<Rightarrow> addr option \<Rightarrow> int \<Rightarrow> bool option" where
  "is_mac_learning_update_needed ml src vlan is_gratuitous_arp is_bond in_port now =
     (if \<not> mac_learning_may_learn ml src (of_int vlan) then Some False
      else do {
        mac \<leftarrow> mac_learning_lookup ml src (of_int vlan);
        (case mac of
           None \<Rightarrow> Some True
         | Some mac \<Rightarrow>
             let age = mac_entry_age ml mac now
             in if age = MAC_ENTRY_AGE_STATIC_ENTRY then Some False
                else if age > 0 then Some True
                else if is_gratuitous_arp \<and> \<not> is_bond then Some True
                else if is_gratuitous_arp \<and> mac_entry_is_grat_arp_locked now (ml_entries ml mac) then Some False
                else Some (mac_entry_get_port ml mac \<noteq> in_port))
      })"

definition update_learning_table' ::
  "mac_learning \<Rightarrow> eth_addr \<Rightarrow> int \<Rightarrow> bool \<Rightarrow> bool \<Rightarrow> addr option \<Rightarrow> int \<Rightarrow> (bool \<times> mac_learning) option" where
  "update_learning_table' ml src vlan is_gratuitous_arp is_bond in_port now =
     (if \<not> mac_learning_may_learn ml src (of_int vlan) then Some (False, ml)
      else do {
        (mac, ml) \<leftarrow> mac_learning_insert ml src (of_int vlan) now;
        let ml = (if is_gratuitous_arp \<and> \<not> is_bond then upd_entry ml mac (mac_entry_set_grat_arp_lock now) else ml);
        if is_gratuitous_arp \<and> is_bond \<and> mac_entry_is_grat_arp_locked now (ml_entries ml mac) then Some (False, ml)
        else if mac_entry_get_port ml mac \<noteq> in_port then do {
          let ml = (if mac_entry_get_port ml mac \<noteq> None then ml\<lparr>ml_total_moved := ml_total_moved ml + 1\<rparr> else ml);
          ml \<leftarrow> mac_entry_set_port ml mac in_port;
          Some (True, ml)
        } else Some (False, ml)
      })"

definition mac_learning_update ::
  "mac_learning \<Rightarrow> eth_addr \<Rightarrow> int \<Rightarrow> bool \<Rightarrow> bool \<Rightarrow> addr option \<Rightarrow> int \<Rightarrow> (bool \<times> mac_learning) option" where
  "mac_learning_update ml src vlan is_gratuitous_arp is_bond in_port now =
     (if in_port \<noteq> None then do {
        need_update \<leftarrow> is_mac_learning_update_needed ml src vlan is_gratuitous_arp is_bond in_port now;
        if need_update then update_learning_table' ml src vlan is_gratuitous_arp is_bond in_port now
        else Some (False, ml)
      } else Some (False, ml))"

subsection \<open>Flushing and ageing\<close>

lemma mac_entry_set_port_lrus: "mac_entry_set_port ml e port = Some ml' \<Longrightarrow> ml_lrus ml' = ml_lrus ml"
  by (auto simp: mac_entry_set_port_def port_detach_def port_attach_def upd_entry_def upd_mlport_def Let_def
      split: if_splits bind_splits option.splits)

lemma mac_learning_expire_lrus: "mac_learning_expire ml e = Some ml' \<Longrightarrow> ml_lrus ml' = remove1 e (ml_lrus ml)"
  by (auto simp: mac_learning_expire_def dest!: mac_entry_set_port_lrus split: bind_splits)

lemma mac_learning_expire_shorter:
  assumes "get_lru ml = Some e" "mac_learning_expire ml e = Some ml'"
  shows "length (ml_lrus ml') < length (ml_lrus ml)"
proof -
  have "e \<in> set (ml_lrus ml)" using assms(1) by (auto simp: get_lru_def find_Some_iff)
  then show ?thesis using length_pos_if_in_set[of e "ml_lrus ml"]
    by (simp add: mac_learning_expire_lrus[OF assms(2)] length_remove1 del: length_greater_0_conv)
qed

function mac_learning_flush_loop :: "mac_learning \<Rightarrow> mac_learning option" where
  "mac_learning_flush_loop ml =
     (case get_lru ml of
        None \<Rightarrow> Some ml
      | Some e \<Rightarrow> (case mac_learning_expire ml e of None \<Rightarrow> None | Some ml \<Rightarrow> mac_learning_flush_loop ml))"
  by pat_completeness auto
termination
  by (relation "measure (\<lambda>ml. length (ml_lrus ml))") (simp_all add: mac_learning_expire_shorter)

declare mac_learning_flush_loop.simps [simp del]

definition mac_learning_flush :: "mac_learning \<Rightarrow> mac_learning option" where
  "mac_learning_flush ml =
     do {
       ml \<leftarrow> mac_learning_flush_loop ml;
       table \<leftarrow> hmap_shrink_at (ml_table ml);
       Some (ml\<lparr>ml_table := table\<rparr>)
     }"

function mac_learning_run_loop :: "mac_learning \<Rightarrow> int \<Rightarrow> mac_learning option" where
  "mac_learning_run_loop ml now =
     (case get_lru ml of
        None \<Rightarrow> Some ml
      | Some e \<Rightarrow>
          if hmap_count (fst (ml_table ml)) > ml_max_entries ml \<or> now \<ge> me_expires (ml_entries ml e)
          then (case mac_learning_expire (ml\<lparr>ml_total_expired := ml_total_expired ml + 1\<rparr>) e of
                  None \<Rightarrow> None
                | Some ml \<Rightarrow> mac_learning_run_loop ml now)
          else Some ml)"
  by pat_completeness auto
termination
proof (relation "measure (\<lambda>(ml, now). length (ml_lrus ml))", goal_cases)
  case (2 ml now e ml')
  then show ?case
    using mac_learning_expire_shorter[of "ml\<lparr>ml_total_expired := ml_total_expired ml + 1\<rparr>" e ml'] by (simp add: get_lru_def)
qed simp

declare mac_learning_run_loop.simps [simp del]

definition mac_learning_run :: "mac_learning \<Rightarrow> int \<Rightarrow> (bool \<times> mac_learning) option" where
  "mac_learning_run ml now =
     do {
       ml \<leftarrow> mac_learning_run_loop ml now;
       Some (ml_need_revalidate ml, ml\<lparr>ml_need_revalidate := False\<rparr>)
     }"

datatype poll_wait = Poll_Immediate | Poll_Until int | Poll_Nothing

definition mac_learning_wait :: "mac_learning \<Rightarrow> poll_wait" where
  "mac_learning_wait ml =
     (if hmap_count (fst (ml_table ml)) > ml_max_entries ml \<or> ml_need_revalidate ml then Poll_Immediate
      else case ml_lrus ml of
             [] \<Rightarrow> Poll_Nothing
           | e # _ \<Rightarrow> Poll_Until (me_expires (ml_entries ml e) * 1000))"

end
