(* ===== verification/Mac_Props.thy ===== *)
theory Mac_Props
  imports Mac_Learning
begin

text \<open>
  Correctness of the MAC learning table: the invariant that ties the hash maps, the lists and the heap
  together, that every call keeps it, and the properties.
\<close>

subsection \<open>Invariant\<close>

definition mac_key :: "(addr \<Rightarrow> mac_entry) \<Rightarrow> addr \<Rightarrow> eth_addr \<times> uint16_t" where
  "mac_key E a = (me_mac (E a), me_vlan (E a))"

definition mac_hash :: "uint32_t \<Rightarrow> eth_addr \<times> uint16_t \<Rightarrow> uint64_t" where
  "mac_hash secret k = ucast (hash_mac (fst k) (snd k) secret)"

definition port_hash :: "uint32_t \<Rightarrow> addr \<Rightarrow> uint64_t" where
  "port_hash secret q = ucast (hash_pointer q secret)"

text \<open>The entries: the hash map and the list hold the same ones, one per address and VLAN.\<close>

definition table_ok :: "hmap_state \<Rightarrow> (addr \<Rightarrow> mac_entry) \<Rightarrow> addr list \<Rightarrow> uint32_t \<Rightarrow> bool" where
  "table_ok T E lrus secret \<longleftrightarrow>
     hmap_wf T \<and> keyed (hmap_nodes T) (snd T) (mac_key E) (mac_hash secret) \<and>
     distinct lrus \<and> set lrus = hmap_nodes T"

text \<open>
  The ports: the hash map and the heap hold the same ones, one per client pointer; a port's list has its
  entries in the order of the list of all entries, at least one; and its priority is their number.
\<close>

definition ports_ok ::
  "hmap_state \<Rightarrow> heap_state \<Rightarrow> (addr \<Rightarrow> mac_learning_port) \<Rightarrow> addr list \<Rightarrow> (addr \<Rightarrow> addr option) \<Rightarrow> uint32_t \<Rightarrow> bool" where
  "ports_ok P H R lrus f secret \<longleftrightarrow>
     hmap_wf P \<and> keyed (hmap_nodes P) (snd P) (\<lambda>p. mp_port (R p)) (port_hash secret) \<and> heap_inv H \<and>
     heap_abs H = (\<lambda>p. if p \<in> hmap_nodes P then Some (of_nat (length (mp_port_lrus (R p)))) else None) \<and>
     (\<forall>p \<in> hmap_nodes P. mp_port_lrus (R p) = filter (\<lambda>e. f e = Some p) lrus \<and> mp_port_lrus (R p) \<noteq> []) \<and>
     (\<forall>e \<in> set lrus. \<forall>p. f e = Some p \<longrightarrow> p \<in> hmap_nodes P)"

definition ml_ok :: "mac_learning \<Rightarrow> bool" where
  "ml_ok ml \<longleftrightarrow>
     table_ok (ml_table ml) (ml_entries ml) (ml_lrus ml) (ml_secret ml) \<and>
     ports_ok (ml_ports_by_ptr ml) (ml_ports_by_usage ml) (ml_ports ml) (ml_lrus ml)
       (\<lambda>e. me_mlport (ml_entries ml e)) (ml_secret ml) \<and>
     (\<forall>a \<in> hmap_nodes (ml_table ml) \<union> hmap_nodes (ml_ports_by_ptr ml). a < ml_next ml) \<and>
     hmap_count (fst (ml_table ml)) \<le> 1000000 \<and> 10 \<le> ml_max_entries ml \<and> ml_max_entries ml \<le> 1000000 \<and>
     15 \<le> ml_idle_time ml \<and> ml_idle_time ml \<le> 3600"

text \<open>Between calls every entry has a port.\<close>

definition ml_inv :: "mac_learning \<Rightarrow> bool" where
  "ml_inv ml \<longleftrightarrow> ml_ok ml \<and> (\<forall>e \<in> set (ml_lrus ml). me_mlport (ml_entries ml e) \<noteq> None)"

lemma table_okD:
  assumes "table_ok T E lrus secret"
  shows "hmap_wf T" "keyed (hmap_nodes T) (snd T) (mac_key E) (mac_hash secret)" "distinct lrus" "set lrus = hmap_nodes T"
  using assms by (simp_all add: table_ok_def)

lemma ports_okD:
  assumes "ports_ok P H R lrus f secret"
  shows "hmap_wf P" "keyed (hmap_nodes P) (snd P) (\<lambda>p. mp_port (R p)) (port_hash secret)" "heap_inv H"
    "heap_abs H p = (if p \<in> hmap_nodes P then Some (of_nat (length (mp_port_lrus (R p)))) else None)"
    "p \<in> hmap_nodes P \<Longrightarrow> mp_port_lrus (R p) = filter (\<lambda>e. f e = Some p) lrus"
    "p \<in> hmap_nodes P \<Longrightarrow> mp_port_lrus (R p) \<noteq> []"
    "e \<in> set lrus \<Longrightarrow> f e = Some p \<Longrightarrow> p \<in> hmap_nodes P"
  using assms unfolding ports_ok_def by (blast | simp)+

lemma length_lrus: "table_ok T E lrus k \<Longrightarrow> length lrus = hmap_count (fst T)"
  using hmap_count_card[of T] distinct_card[of lrus] by (simp add: table_ok_def)

subsection \<open>Ports\<close>

lemma ports_ok_cong:
  "ports_ok P H R lrus f k \<Longrightarrow> (\<And>e. e \<in> set lrus \<Longrightarrow> f e = g e) \<Longrightarrow> ports_ok P H R lrus g k"
  by (auto simp: ports_ok_def cong: filter_cong)

lemma filter_other: "distinct xs \<Longrightarrow> filter (\<lambda>x. x \<noteq> e \<and> Q x) xs = remove1 e (filter Q xs)"
  by (induction xs) (auto simp: remove1_idem intro!: filter_cong)

lemma port_priority:
  assumes "ports_ok P H R lrus f k" "p \<in> hmap_nodes P"
  shows "hn_priority (snd H p) = of_nat (length (mp_port_lrus (R p)))"
  using ports_okD(4)[OF assms(1), of p] assms(2) by (simp add: heap_abs_def split: if_splits)

lemma ports_ok_detach:
  assumes ok: "ports_ok P H R lrus f k" and d: "distinct lrus" and n: "length lrus \<le> 1000000"
    and e: "e \<in> set lrus" "f e = Some p"
  defines "l \<equiv> remove1 e (mp_port_lrus (R p))"
  shows "l = [] \<Longrightarrow> hn_priority (snd H p) = 1 \<and> (\<exists>P'. hmap_remove P p = Some P' \<and> hmap_nodes P' \<subseteq> hmap_nodes P \<and>
      ports_ok P' (heap_remove H p) (R(p := (R p)\<lparr>mp_port_lrus := l\<rparr>)) lrus (f(e := None)) k)"
    and "l \<noteq> [] \<Longrightarrow> hn_priority (snd H p) > 1 \<and>
      ports_ok P (heap_change H p (hn_priority (snd H p) - 1)) (R(p := (R p)\<lparr>mp_port_lrus := l\<rparr>)) lrus (f(e := None)) k"
proof -
  note o = ports_okD[OF ok]
  have p: "p \<in> hmap_nodes P" by (rule o(7)[OF e])
  note pr = port_priority[OF ok p]
  have L: "mp_port_lrus (R p) = filter (\<lambda>x. f x = Some p) lrus" by (rule o(5)[OF p])
  have eL: "e \<in> set (mp_port_lrus (R p))" using e by (simp add: L)
  have nL: "length (mp_port_lrus (R p)) \<le> 1000000"
    unfolding L by (rule le_trans[OF length_filter_le n])
  have len: "length (mp_port_lrus (R p)) = length l + 1"
    using eL length_pos_if_in_set[OF eL] by (simp add: l_def length_remove1 del: length_greater_0_conv)
  have hp: "p \<in> dom (heap_abs H)" using o(4)[of p] p by auto
  have fp: "filter (\<lambda>x. (f(e := None)) x = Some p) lrus = l"
    unfolding l_def L filter_other[OF d, symmetric] by (intro filter_cong) simp_all
  have fq: "filter (\<lambda>x. (f(e := None)) x = Some q) lrus = filter (\<lambda>x. f x = Some q) lrus" if "q \<noteq> p" for q
    using e that by (intro filter_cong) auto
  note simps = fp fq l_def[symmetric]
  let ?R = "R(p := (R p)\<lparr>mp_port_lrus := l\<rparr>)"
  have mp: "mp_port (?R q) = mp_port (R q)" for q by simp
  show "hn_priority (snd H p) = 1 \<and> (\<exists>P'. hmap_remove P p = Some P' \<and> hmap_nodes P' \<subseteq> hmap_nodes P \<and>
      ports_ok P' (heap_remove H p) ?R lrus (f(e := None)) k)" if l: "l = []"
  proof -
    obtain P' where P': "hmap_remove P p = Some P'" "hmap_wf P'" "hmap_nodes P' = hmap_nodes P - {p}"
      "keyed (hmap_nodes P') (snd P') (\<lambda>p. mp_port (R p)) (port_hash k)" using hm.rmv_keyed[OF o(1,2) p] by blast
    have h: "heap_inv (heap_remove H p)" "heap_abs (heap_remove H p) = (heap_abs H)(p := None)"
      using hq.rmv[OF o(3) hp] by auto
    have none: "x \<in> set lrus \<Longrightarrow> (f(e := None)) x \<noteq> Some p" for x
      using fp l by (auto simp: filter_empty_conv)
    have "ports_ok P' (heap_remove H p) ?R lrus (f(e := None)) k"
      unfolding ports_ok_def mp h(2)
    proof (intro conjI ballI allI impI)
      show "(heap_abs H)(p := None) = (\<lambda>q. if q \<in> hmap_nodes P' then Some (of_nat (length (mp_port_lrus (?R q)))) else None)"
        using o(4) P'(3) by auto
      show "mp_port_lrus (?R q) = filter (\<lambda>x. (f(e := None)) x = Some q) lrus" if "q \<in> hmap_nodes P'" for q
        using that P'(3) o(5) fq by simp
      show "mp_port_lrus (?R q) \<noteq> []" if "q \<in> hmap_nodes P'" for q using that P'(3) o(6) by simp
      show "q \<in> hmap_nodes P'" if "x \<in> set lrus" "(f(e := None)) x = Some q" for x q
        using that none[of x] o(7) P'(3) by (auto split: if_splits)
    qed (use P' h in simp_all)
    then show ?thesis using P' pr len l by auto
  qed
  assume l: "l \<noteq> []"
  have "hn_priority (snd H p) - 1 = of_nat (length l)" using pr len by simp
  moreover have "heap_inv (heap_change H p x)" "heap_abs (heap_change H p x) = (heap_abs H)(p \<mapsto> x)" for x
    using hq.chg[OF o(3) hp] by auto
  moreover have "unat (hn_priority (snd H p)) = length (mp_port_lrus (R p))"
    unfolding pr using nL by (simp add: unat_of_nat take_bit_nat_eq_self)
  then have "unat (hn_priority (snd H p)) = length l + 1" using len by simp
  then have "hn_priority (snd H p) > 1" using l by (simp add: word_less_nat_alt)
  ultimately show "hn_priority (snd H p) > 1 \<and>
      ports_ok P (heap_change H p (hn_priority (snd H p) - 1)) ?R lrus (f(e := None)) k"
    unfolding ports_ok_def mp using o(1,2,4,5,6,7) p fp fq l by (auto split: if_splits)
qed

lemma ports_ok_join:
  assumes ok: "ports_ok P H R lrus f k" and l: "lrus = xs @ [e]" "distinct lrus" and e: "f e = None" and p: "p \<in> hmap_nodes P"
  shows "ports_ok P (heap_change H p (hn_priority (snd H p) + 1))
    (R(p := (R p)\<lparr>mp_port_lrus := mp_port_lrus (R p) @ [e]\<rparr>)) lrus (f(e := Some p)) k"
proof -
  note o = ports_okD[OF ok]
  have hp: "p \<in> dom (heap_abs H)" using o(4)[of p] p by auto
  have h: "heap_inv (heap_change H p x)" "heap_abs (heap_change H p x) = (heap_abs H)(p \<mapsto> x)" for x
    using hq.chg[OF o(3) hp] by auto
  have fp: "filter (\<lambda>x. (f(e := Some p)) x = Some p) lrus = mp_port_lrus (R p) @ [e]"
    using l e unfolding o(5)[OF p] by (auto intro!: filter_cong)
  have fq: "filter (\<lambda>x. (f(e := Some p)) x = Some q) lrus = filter (\<lambda>x. f x = Some q) lrus" if "q \<noteq> p" for q
    using e that by (intro filter_cong) auto
  have mp: "mp_port ((R(p := (R p)\<lparr>mp_port_lrus := b\<rparr>)) q) = mp_port (R q)" for q b by simp
  show ?thesis unfolding ports_ok_def mp h(2)
  proof (intro conjI ballI allI impI)
    show "(heap_abs H)(p \<mapsto> hn_priority (snd H p) + 1) = (\<lambda>q. if q \<in> hmap_nodes P
      then Some (of_nat (length (mp_port_lrus ((R(p := (R p)\<lparr>mp_port_lrus := mp_port_lrus (R p) @ [e]\<rparr>)) q)))) else None)"
      using o(4) p port_priority[OF ok p] by auto
    show "mp_port_lrus ((R(p := (R p)\<lparr>mp_port_lrus := mp_port_lrus (R p) @ [e]\<rparr>)) q) =
        filter (\<lambda>x. (f(e := Some p)) x = Some q) lrus" if "q \<in> hmap_nodes P" for q
      using that fp fq o(5) by (cases "q = p") simp_all
    show "mp_port_lrus ((R(p := (R p)\<lparr>mp_port_lrus := mp_port_lrus (R p) @ [e]\<rparr>)) q) \<noteq> []" if "q \<in> hmap_nodes P" for q
      using that o(6) by simp
    show "q \<in> hmap_nodes P" if "x \<in> set lrus" "(f(e := Some p)) x = Some q" for x q
      using that o(7) p by (auto split: if_splits)
  qed (use o(1,2) h in simp_all)
qed

lemma ports_ok_new:
  assumes ok: "ports_ok P H R lrus f k" and l: "lrus = xs @ [e]" "distinct lrus" and e: "f e = None"
    and a: "a \<notin> hmap_nodes P" and q: "q \<notin> (\<lambda>p. mp_port (R p)) ` hmap_nodes P"
  shows "\<exists>P'. hmap_insert_at P a (port_hash k q) = Some P' \<and> hmap_nodes P' = insert a (hmap_nodes P) \<and>
    ports_ok P' (heap_insert H a 1) (R(a := \<lparr>mp_port = q, mp_port_lrus = [e]\<rparr>)) lrus (f(e := Some a)) k"
proof -
  note o = ports_okD[OF ok]
  obtain P' where P': "hmap_insert_at P a (port_hash k q) = Some P'" "hmap_wf P'" "hmap_nodes P' = insert a (hmap_nodes P)"
    "keyed (hmap_nodes P') (snd P') ((\<lambda>p. mp_port (R p))(a := q)) (port_hash k)"
    using hm.ins_keyed[OF o(1,2) a q] by blast
  have ha: "a \<notin> dom (heap_abs H)" using o(4)[of a] a by auto
  have h: "heap_inv (heap_insert H a 1)" "heap_abs (heap_insert H a 1) = (heap_abs H)(a \<mapsto> 1)"
    using hq.ins[OF o(3) ha] by auto
  have fa: "filter (\<lambda>x. (f(e := Some a)) x = Some a) lrus = [e]"
    using l a o(7) by (auto simp: filter_empty_conv)
  have fq: "filter (\<lambda>x. (f(e := Some a)) x = Some p) lrus = filter (\<lambda>x. f x = Some p) lrus" if "p \<noteq> a" for p
    using e that by (intro filter_cong) auto
  have mp: "(\<lambda>p. mp_port ((R(a := \<lparr>mp_port = q, mp_port_lrus = b\<rparr>)) p)) = (\<lambda>p. mp_port (R p))(a := q)" for b by auto
  have "ports_ok P' (heap_insert H a 1) (R(a := \<lparr>mp_port = q, mp_port_lrus = [e]\<rparr>)) lrus (f(e := Some a)) k"
    unfolding ports_ok_def mp h(2)
  proof (intro conjI ballI allI impI)
    show "(heap_abs H)(a \<mapsto> 1) = (\<lambda>p. if p \<in> hmap_nodes P'
      then Some (of_nat (length (mp_port_lrus ((R(a := \<lparr>mp_port = q, mp_port_lrus = [e]\<rparr>)) p)))) else None)"
      using o(4) P'(3) a by auto
    show "mp_port_lrus ((R(a := \<lparr>mp_port = q, mp_port_lrus = [e]\<rparr>)) p) = filter (\<lambda>x. (f(e := Some a)) x = Some p) lrus"
      if "p \<in> hmap_nodes P'" for p using that fa fq o(5) P'(3) by (cases "p = a") simp_all
    show "mp_port_lrus ((R(a := \<lparr>mp_port = q, mp_port_lrus = [e]\<rparr>)) p) \<noteq> []" if "p \<in> hmap_nodes P'" for p
      using that o(6) P'(3) by auto
    show "p \<in> hmap_nodes P'" if "x \<in> set lrus" "(f(e := Some a)) x = Some p" for x p
      using that o(7) P'(3) by (auto split: if_splits)
  qed (use P' h in simp_all)
  then show ?thesis using P' by blast
qed

text \<open>The parts of a table that a change of one entry's port leaves alone.\<close>

definition port_frame :: "addr \<Rightarrow> mac_learning \<Rightarrow> mac_learning \<Rightarrow> bool" where
  "port_frame e ml ml' \<longleftrightarrow>
     (\<exists>P H R n b m. ml' = ml\<lparr>ml_ports_by_ptr := P, ml_ports_by_usage := H, ml_ports := R, ml_next := n,
        ml_need_revalidate := b, ml_entries := (ml_entries ml)(e := (ml_entries ml e)\<lparr>me_mlport := m\<rparr>)\<rparr>) \<and>
     ml_next ml \<le> ml_next ml' \<and>
     (\<forall>a \<in> set (ml_lrus ml). a \<noteq> e \<longrightarrow> mac_entry_get_port ml' a = mac_entry_get_port ml a)"

lemma port_frameI:
  assumes "ml' = ml\<lparr>ml_ports_by_ptr := P, ml_ports_by_usage := H, ml_ports := R, ml_next := n, ml_need_revalidate := b,
      ml_entries := (ml_entries ml)(e := (ml_entries ml e)\<lparr>me_mlport := m\<rparr>)\<rparr>" and "ml_next ml \<le> n"
    and "\<And>a. a \<in> set (ml_lrus ml) \<Longrightarrow> a \<noteq> e \<Longrightarrow> mac_entry_get_port ml' a = mac_entry_get_port ml a"
  shows "port_frame e ml ml'"
proof -
  have "ml_next ml' = n" using assms(1) by simp
  then show ?thesis unfolding port_frame_def using assms by blast
qed

lemma port_frameD:
  assumes "port_frame e ml ml'"
  shows "ml_table ml' = ml_table ml" "ml_lrus ml' = ml_lrus ml" "ml_secret ml' = ml_secret ml"
    "ml_flood_vlans ml' = ml_flood_vlans ml" "ml_idle_time ml' = ml_idle_time ml" "ml_max_entries ml' = ml_max_entries ml"
    "ml_static_entries ml' = ml_static_entries ml" "ml_next ml \<le> ml_next ml'"
    "mac_key (ml_entries ml') = mac_key (ml_entries ml)"
    "me_expires (ml_entries ml' a) = me_expires (ml_entries ml a)"
    "me_grat_arp_lock (ml_entries ml' a) = me_grat_arp_lock (ml_entries ml a)"
    "a \<noteq> e \<Longrightarrow> ml_entries ml' a = ml_entries ml a"
    "a \<in> set (ml_lrus ml) \<Longrightarrow> a \<noteq> e \<Longrightarrow> mac_entry_get_port ml' a = mac_entry_get_port ml a"
  using assms by (auto simp: port_frame_def mac_key_def)

lemma ml_okD:
  assumes "ml_ok ml"
  shows "table_ok (ml_table ml) (ml_entries ml) (ml_lrus ml) (ml_secret ml)"
    "ports_ok (ml_ports_by_ptr ml) (ml_ports_by_usage ml) (ml_ports ml) (ml_lrus ml) (\<lambda>e. me_mlport (ml_entries ml e)) (ml_secret ml)"
    "a \<in> hmap_nodes (ml_table ml) \<Longrightarrow> a < ml_next ml" "a \<in> hmap_nodes (ml_ports_by_ptr ml) \<Longrightarrow> a < ml_next ml"
    "hmap_count (fst (ml_table ml)) \<le> 1000000" "10 \<le> ml_max_entries ml" "ml_max_entries ml \<le> 1000000"
    "15 \<le> ml_idle_time ml" "ml_idle_time ml \<le> 3600" "length (ml_lrus ml) \<le> 1000000"
  using assms length_lrus[of "ml_table ml"] by (auto simp: ml_ok_def)

lemma ml_ok_ports:
  assumes ok: "ml_ok ml"
    and ml': "ml' = ml\<lparr>ml_ports_by_ptr := P, ml_ports_by_usage := H, ml_ports := R, ml_next := n, ml_need_revalidate := b,
        ml_entries := (ml_entries ml)(e := (ml_entries ml e)\<lparr>me_mlport := m\<rparr>)\<rparr>"
    and p: "ports_ok P H R (ml_lrus ml) ((\<lambda>x. me_mlport (ml_entries ml x))(e := m)) (ml_secret ml)"
    and n: "ml_next ml \<le> n" and P: "\<And>a. a \<in> hmap_nodes P \<Longrightarrow> a < n"
  shows "ml_ok ml'"
proof -
  note o = ml_okD[OF ok]
  have k: "mac_key (ml_entries ml') = mac_key (ml_entries ml)" by (auto simp: ml' mac_key_def)
  have f: "(\<lambda>x. me_mlport (ml_entries ml' x)) = (\<lambda>x. me_mlport (ml_entries ml x))(e := m)" by (auto simp: ml')
  have "table_ok (ml_table ml') (ml_entries ml') (ml_lrus ml') (ml_secret ml')"
    using o(1) unfolding table_ok_def k by (simp add: ml')
  moreover have "ports_ok (ml_ports_by_ptr ml') (ml_ports_by_usage ml') (ml_ports ml') (ml_lrus ml')
      (\<lambda>x. me_mlport (ml_entries ml' x)) (ml_secret ml')" unfolding f using p by (simp add: ml')
  moreover have "a < ml_next ml'" if "a \<in> hmap_nodes (ml_table ml') \<union> hmap_nodes (ml_ports_by_ptr ml')" for a
    using that n P o(3)[of a] by (auto simp: ml')
  ultimately show ?thesis unfolding ml_ok_def using o(5-9) by (simp add: ml')
qed

lemma mac_entry_id: "me_mlport m = None \<Longrightarrow> m\<lparr>me_mlport := None\<rparr> = m"
  by (rule mac_entry.equality) simp_all

lemma port_detach_ok:
  assumes ok: "ml_ok ml" and e: "e \<in> set (ml_lrus ml)"
  shows "\<exists>ml'. port_detach ml e = Some ml' \<and> ml_ok ml' \<and> port_frame e ml ml' \<and> me_mlport (ml_entries ml' e) = None \<and>
    ml_next ml' = ml_next ml \<and> ml_need_revalidate ml' = ml_need_revalidate ml"
proof (cases "me_mlport (ml_entries ml e)")
  case None
  have "port_frame e ml ml"
    by (rule port_frameI[where P = "ml_ports_by_ptr ml" and H = "ml_ports_by_usage ml" and R = "ml_ports ml" and
        n = "ml_next ml" and b = "ml_need_revalidate ml" and m = None]) (simp_all add: mac_entry_id[OF None])
  then show ?thesis using None ok by (simp add: port_detach_def)
next
  case (Some p)
  note o = ml_okD[OF ok]
  let ?f = "\<lambda>x. me_mlport (ml_entries ml x)" and ?R = "ml_ports ml"
  let ?l = "remove1 e (mp_port_lrus (?R p))"
  let ?R' = "?R(p := (?R p)\<lparr>mp_port_lrus := ?l\<rparr>)"
  let ?E = "(ml_entries ml)(e := (ml_entries ml e)\<lparr>me_mlport := None\<rparr>)"
  note d = ports_ok_detach[OF o(2) table_okD(3)[OF o(1)] o(10) e Some]
  have "\<exists>P H. port_detach ml e = Some (ml\<lparr>ml_ports_by_ptr := P, ml_ports_by_usage := H, ml_ports := ?R', ml_entries := ?E\<rparr>) \<and>
    ports_ok P H ?R' (ml_lrus ml) (?f(e := None)) (ml_secret ml) \<and> hmap_nodes P \<subseteq> hmap_nodes (ml_ports_by_ptr ml)"
  proof (cases "?l = []")
    case True
    then obtain P where P: "hmap_remove (ml_ports_by_ptr ml) p = Some P" "hmap_nodes P \<subseteq> hmap_nodes (ml_ports_by_ptr ml)"
      "ports_ok P (heap_remove (ml_ports_by_usage ml) p) ?R' (ml_lrus ml) (?f(e := None)) (ml_secret ml)"
      "hn_priority (snd (ml_ports_by_usage ml) p) = 1" using d(1) by blast
    then have "port_detach ml e = Some (ml\<lparr>ml_ports_by_ptr := P, ml_ports_by_usage := heap_remove (ml_ports_by_usage ml) p,
        ml_ports := ?R', ml_entries := ?E\<rparr>)"
      using True by (simp add: port_detach_def Some Let_def upd_mlport_def upd_entry_def)
    then show ?thesis using P(2,3) by blast
  next
    case False
    let ?H = "heap_change (ml_ports_by_usage ml) p (hn_priority (snd (ml_ports_by_usage ml) p) - 1)"
    have "port_detach ml e = Some (ml\<lparr>ml_ports_by_ptr := ml_ports_by_ptr ml, ml_ports_by_usage := ?H,
        ml_ports := ?R', ml_entries := ?E\<rparr>)"
      using False d(2) by (simp add: port_detach_def Some Let_def upd_mlport_def upd_entry_def)
    then show ?thesis using d(2)[OF False] by blast
  qed
  then obtain P H where P: "port_detach ml e = Some (ml\<lparr>ml_ports_by_ptr := P, ml_ports_by_usage := H, ml_ports := ?R', ml_entries := ?E\<rparr>)"
    "ports_ok P H ?R' (ml_lrus ml) (?f(e := None)) (ml_secret ml)" "hmap_nodes P \<subseteq> hmap_nodes (ml_ports_by_ptr ml)"
    by blast
  let ?ml = "ml\<lparr>ml_ports_by_ptr := P, ml_ports_by_usage := H, ml_ports := ?R', ml_entries := ?E\<rparr>"
  have eq: "?ml = ml\<lparr>ml_ports_by_ptr := P, ml_ports_by_usage := H, ml_ports := ?R', ml_next := ml_next ml,
    ml_need_revalidate := ml_need_revalidate ml, ml_entries := ?E\<rparr>" by simp
  have "ml_ok ?ml" by (rule ml_ok_ports[OF ok eq P(2)]) (use P(3) o(4) in auto)
  moreover have "mac_entry_get_port ?ml a = mac_entry_get_port ml a" if "a \<noteq> e" for a
    using that by (auto simp: mac_entry_get_port_def split: option.split)
  then have "port_frame e ml ?ml" by (rule port_frameI[OF eq order_refl])
  ultimately show ?thesis using P(1) by simp
qed

lemma port_lookup_iff:
  assumes "ml_ok ml"
  shows "mac_learning_port_lookup ml q = Some p \<longleftrightarrow> p \<in> hmap_nodes (ml_ports_by_ptr ml) \<and> mp_port (ml_ports ml p) = q"
    and "mac_learning_port_lookup ml q = None \<longleftrightarrow> q \<notin> (\<lambda>p. mp_port (ml_ports ml p)) ` hmap_nodes (ml_ports_by_ptr ml)"
  using hm.find_bucket[OF ports_okD(1,2)[OF ml_okD(2)[OF assms]], of q]
  by (simp_all add: mac_learning_port_lookup_def port_hash_def)

lemma port_attach_ok:
  assumes ok: "ml_ok ml" and e: "ml_lrus ml = xs @ [e]" and none: "me_mlport (ml_entries ml e) = None"
  shows "\<exists>ml'. port_attach ml e q = Some ml' \<and> ml_ok ml' \<and> port_frame e ml ml' \<and> mac_entry_get_port ml' e = Some q"
proof -
  note o = ml_okD[OF ok]
  let ?f = "\<lambda>x. me_mlport (ml_entries ml x)" and ?R = "ml_ports ml"
  note d = table_okD(3)[OF o(1)]
  have "\<exists>P H R n p. port_attach ml e q = Some (ml\<lparr>ml_ports_by_ptr := P, ml_ports_by_usage := H, ml_ports := R, ml_next := n,
      ml_entries := (ml_entries ml)(e := (ml_entries ml e)\<lparr>me_mlport := Some p\<rparr>)\<rparr>) \<and>
    ports_ok P H R (ml_lrus ml) (?f(e := Some p)) (ml_secret ml) \<and> (\<forall>a \<in> hmap_nodes P. a < n) \<and> ml_next ml \<le> n \<and>
    mp_port (R p) = q \<and> (\<forall>a < ml_next ml. mp_port (R a) = mp_port (?R a))"
  proof (cases "mac_learning_port_lookup ml q")
    case None
    have a: "ml_next ml \<notin> hmap_nodes (ml_ports_by_ptr ml)" using o(4) by auto
    obtain P where P: "hmap_insert_at (ml_ports_by_ptr ml) (ml_next ml) (port_hash (ml_secret ml) q) = Some P"
      "hmap_nodes P = insert (ml_next ml) (hmap_nodes (ml_ports_by_ptr ml))"
      "ports_ok P (heap_insert (ml_ports_by_usage ml) (ml_next ml) 1) (?R(ml_next ml := \<lparr>mp_port = q, mp_port_lrus = [e]\<rparr>))
        (ml_lrus ml) (?f(e := Some (ml_next ml))) (ml_secret ml)"
      using ports_ok_new[OF o(2) e d none a] None port_lookup_iff(2)[OF ok, of q] by blast
    let ?R' = "?R(ml_next ml := \<lparr>mp_port = q, mp_port_lrus = [e]\<rparr>)"
    have "port_attach ml e q = Some (ml\<lparr>ml_ports_by_ptr := P, ml_ports_by_usage := heap_insert (ml_ports_by_usage ml) (ml_next ml) 1,
        ml_ports := ?R', ml_next := ml_next ml + 1,
        ml_entries := (ml_entries ml)(e := (ml_entries ml e)\<lparr>me_mlport := Some (ml_next ml)\<rparr>)\<rparr>)"
      using P(1) None by (simp add: port_attach_def port_hash_def upd_mlport_def upd_entry_def Let_def)
    moreover have "\<forall>a \<in> hmap_nodes P. a < ml_next ml + 1" using P(2) o(4) by fastforce
    moreover have "mp_port (?R' (ml_next ml)) = q" "\<forall>a < ml_next ml. mp_port (?R' a) = mp_port (?R a)" by simp_all
    ultimately show ?thesis using P(3) le_add1 by blast
  next
    case (Some p)
    then have p: "p \<in> hmap_nodes (ml_ports_by_ptr ml)" "mp_port (?R p) = q" using port_lookup_iff(1)[OF ok] by auto
    let ?R' = "?R(p := (?R p)\<lparr>mp_port_lrus := mp_port_lrus (?R p) @ [e]\<rparr>)"
    have "port_attach ml e q = Some (ml\<lparr>ml_ports_by_ptr := ml_ports_by_ptr ml, ml_ports_by_usage :=
        heap_change (ml_ports_by_usage ml) p (hn_priority (snd (ml_ports_by_usage ml) p) + 1), ml_ports := ?R', ml_next := ml_next ml,
        ml_entries := (ml_entries ml)(e := (ml_entries ml e)\<lparr>me_mlport := Some p\<rparr>)\<rparr>)"
      using Some by (simp add: port_attach_def upd_mlport_def upd_entry_def)
    moreover have "mp_port (?R' p) = q" "\<forall>a < ml_next ml. mp_port (?R' a) = mp_port (?R a)" using p(2) by simp_all
    ultimately show ?thesis using ports_ok_join[OF o(2) e d none p(1)] o(4) order_refl by blast
  qed
  then obtain P H R n p where r: "port_attach ml e q = Some (ml\<lparr>ml_ports_by_ptr := P, ml_ports_by_usage := H, ml_ports := R,
      ml_next := n, ml_entries := (ml_entries ml)(e := (ml_entries ml e)\<lparr>me_mlport := Some p\<rparr>)\<rparr>)" (is "_ = Some ?ml")
    "ports_ok P H R (ml_lrus ml) (?f(e := Some p)) (ml_secret ml)" "\<And>a. a \<in> hmap_nodes P \<Longrightarrow> a < n" "ml_next ml \<le> n"
    "mp_port (R p) = q" "\<And>a. a < ml_next ml \<Longrightarrow> mp_port (R a) = mp_port (?R a)" by blast
  have eq: "?ml = ml\<lparr>ml_ports_by_ptr := P, ml_ports_by_usage := H, ml_ports := R, ml_next := n,
    ml_need_revalidate := ml_need_revalidate ml,
    ml_entries := (ml_entries ml)(e := (ml_entries ml e)\<lparr>me_mlport := Some p\<rparr>)\<rparr>" by simp
  have "ml_ok ?ml" by (rule ml_ok_ports[OF ok eq r(2) r(4) r(3)])
  moreover have "mac_entry_get_port ?ml a = mac_entry_get_port ml a" if a: "a \<in> set (ml_lrus ml)" "a \<noteq> e" for a
  proof (cases "me_mlport (ml_entries ml a)")
    case (Some p)
    then show ?thesis using a(2) r(6)[OF o(4)[OF ports_okD(7)[OF o(2) a(1) Some]]] by (simp add: mac_entry_get_port_def)
  qed (use a in \<open>simp add: mac_entry_get_port_def\<close>)
  then have "port_frame e ml ?ml" by (rule port_frameI[OF eq r(4)])
  moreover have "mac_entry_get_port ?ml e = Some q" using r(5) by (simp add: mac_entry_get_port_def)
  ultimately show ?thesis using r(1) by blast
qed

lemma port_frame_trans:
  assumes "port_frame e ml ml1" "port_frame e ml1 ml2"
  shows "port_frame e ml ml2"
proof -
  obtain P H R n b m where 1: "ml1 = ml\<lparr>ml_ports_by_ptr := P, ml_ports_by_usage := H, ml_ports := R, ml_next := n,
    ml_need_revalidate := b, ml_entries := (ml_entries ml)(e := (ml_entries ml e)\<lparr>me_mlport := m\<rparr>)\<rparr>"
    using assms(1) unfolding port_frame_def by blast
  obtain P' H' R' n' b' m' where 2: "ml2 = ml1\<lparr>ml_ports_by_ptr := P', ml_ports_by_usage := H', ml_ports := R', ml_next := n',
    ml_need_revalidate := b', ml_entries := (ml_entries ml1)(e := (ml_entries ml1 e)\<lparr>me_mlport := m'\<rparr>)\<rparr>"
    using assms(2) unfolding port_frame_def by blast
  have eq: "ml2 = ml\<lparr>ml_ports_by_ptr := P', ml_ports_by_usage := H', ml_ports := R', ml_next := n',
    ml_need_revalidate := b', ml_entries := (ml_entries ml)(e := (ml_entries ml e)\<lparr>me_mlport := m'\<rparr>)\<rparr>"
    unfolding 2 unfolding 1 by simp
  have "n' = ml_next ml2" using 2 by simp
  then show ?thesis
    using port_frameD(8,13)[OF assms(1)] port_frameD(8,13)[OF assms(2)] port_frameD(2)[OF assms(1)]
    by (intro port_frameI[OF eq]) auto
qed

lemma ml_ok_revalidate [simp]: "ml_ok (ml\<lparr>ml_need_revalidate := b\<rparr>) = ml_ok ml"
  by (simp add: ml_ok_def)

lemma get_port_upd [simp]:
  "mac_entry_get_port (ml\<lparr>ml_need_revalidate := b\<rparr>) a = mac_entry_get_port ml a"
  "mac_entry_get_port (ml\<lparr>ml_total_evicted := x\<rparr>) a = mac_entry_get_port ml a"
  "mac_entry_get_port (ml\<lparr>ml_total_expired := x\<rparr>) a = mac_entry_get_port ml a"
  "mac_entry_get_port (ml\<lparr>ml_total_moved := x\<rparr>) a = mac_entry_get_port ml a"
  "mac_entry_get_port (ml\<lparr>ml_static_entries := x\<rparr>) a = mac_entry_get_port ml a"
  "mac_entry_get_port (ml\<lparr>ml_lrus := l\<rparr>) a = mac_entry_get_port ml a"
  "mac_entry_get_port (ml\<lparr>ml_table := t, ml_lrus := l\<rparr>) a = mac_entry_get_port ml a"
  "mac_entry_get_port (ml\<lparr>ml_table := t\<rparr>) a = mac_entry_get_port ml a"
  by (simp_all add: mac_entry_get_port_def split: option.split)

lemma port_frame_revalidate: "port_frame e (ml\<lparr>ml_need_revalidate := b\<rparr>) ml' \<Longrightarrow> port_frame e ml ml'"
proof -
  assume f: "port_frame e (ml\<lparr>ml_need_revalidate := b\<rparr>) ml'"
  then obtain P H R n b' m where eq: "ml' = ml\<lparr>ml_ports_by_ptr := P, ml_ports_by_usage := H, ml_ports := R, ml_next := n,
    ml_need_revalidate := b', ml_entries := (ml_entries ml)(e := (ml_entries ml e)\<lparr>me_mlport := m\<rparr>)\<rparr>"
    unfolding port_frame_def by auto
  then have "n = ml_next ml'" by simp
  then show ?thesis using port_frameD(8,13)[OF f] by (intro port_frameI[OF eq]) auto
qed

lemma port_frame_refl: "port_frame e ml ml"
proof (rule port_frameI)
  show "ml = ml\<lparr>ml_ports_by_ptr := ml_ports_by_ptr ml, ml_ports_by_usage := ml_ports_by_usage ml, ml_ports := ml_ports ml,
    ml_next := ml_next ml, ml_need_revalidate := ml_need_revalidate ml,
    ml_entries := (ml_entries ml)(e := (ml_entries ml e)\<lparr>me_mlport := me_mlport (ml_entries ml e)\<rparr>)\<rparr>" by simp
qed simp_all

lemma set_port_ok:
  assumes ok: "ml_ok ml" and e: "e \<in> set (ml_lrus ml)" and last: "port = None \<or> ml_lrus ml = xs @ [e]"
  shows "\<exists>ml'. mac_entry_set_port ml e port = Some ml' \<and> ml_ok ml' \<and> port_frame e ml ml' \<and>
    mac_entry_get_port ml' e = port"
proof (cases "mac_entry_get_port ml e = port")
  case True
  then show ?thesis using ok port_frame_refl by (simp add: mac_entry_set_port_def)
next
  case False
  obtain ml1 where 1: "port_detach (ml\<lparr>ml_need_revalidate := True\<rparr>) e = Some ml1" "ml_ok ml1" "port_frame e ml ml1"
    "me_mlport (ml_entries ml1 e) = None"
    using port_detach_ok[of "ml\<lparr>ml_need_revalidate := True\<rparr>" e] ok e port_frame_revalidate by auto
  show ?thesis
  proof (cases port)
    case None
    then show ?thesis using 1 False by (auto simp: mac_entry_set_port_def mac_entry_get_port_def)
  next
    case (Some q)
    then have "ml_lrus ml1 = xs @ [e]" using last port_frameD(2)[OF 1(3)] by simp
    from port_attach_ok[OF 1(2) this 1(4), of q] show ?thesis
      using 1 False Some port_frame_trans[OF 1(3)] by (auto simp: mac_entry_set_port_def)
  qed
qed

subsection \<open>Removal of entries\<close>

definition ml_config :: "mac_learning \<Rightarrow> uint32_t \<times> bool list option \<times> uint32_t \<times> nat \<times> uint64_t" where
  "ml_config ml = (ml_secret ml, ml_flood_vlans ml, ml_idle_time ml, ml_max_entries ml, ml_static_entries ml)"

text \<open>A table without the entries of a set: the others are as they were, in their order, with their ports.\<close>

definition ml_without :: "addr set \<Rightarrow> mac_learning \<Rightarrow> mac_learning \<Rightarrow> bool" where
  "ml_without X ml ml' \<longleftrightarrow>
     X \<subseteq> set (ml_lrus ml) \<and> ml_lrus ml' = filter (\<lambda>a. a \<notin> X) (ml_lrus ml) \<and> ml_config ml' = ml_config ml \<and>
     ml_next ml \<le> ml_next ml' \<and>
     (\<forall>a \<in> set (ml_lrus ml'). ml_entries ml' a = ml_entries ml a \<and> mac_entry_get_port ml' a = mac_entry_get_port ml a)"

lemma ml_without_refl: "ml_without {} ml ml"
  by (simp add: ml_without_def)

lemma ml_without_trans:
  assumes "ml_without X ml ml1" "ml_without Y ml1 ml2"
  shows "ml_without (X \<union> Y) ml ml2"
  using assms unfolding ml_without_def by (auto intro!: filter_cong)

lemma ports_ok_lrus:
  assumes ok: "ports_ok P H R lrus f k" and fl: "\<And>p. filter (\<lambda>x. f x = Some p) lrus' = filter (\<lambda>x. f x = Some p) lrus"
  shows "ports_ok P H R lrus' f k"
proof -
  note o = ports_okD[OF ok]
  have "p \<in> hmap_nodes P" if "x \<in> set lrus'" "f x = Some p" for x p
  proof -
    have "x \<in> set (filter (\<lambda>x. f x = Some p) lrus)" unfolding fl[symmetric] using that by simp
    then show ?thesis using o(7) by auto
  qed
  moreover have "heap_abs H = (\<lambda>p. if p \<in> hmap_nodes P then Some (of_nat (length (mp_port_lrus (R p)))) else None)"
    using o(4) by blast
  ultimately show ?thesis unfolding ports_ok_def fl using o(1,2,3,5,6) by blast
qed

lemma ports_ok_drop:
  assumes "ports_ok P H R lrus f k" and "f e = None"
  shows "ports_ok P H R (remove1 e lrus) f k" and "ports_ok P H R (lrus @ [e]) f k"
  by (rule ports_ok_lrus[OF assms(1)], simp add: filter_remove1 remove1_idem assms(2))+

lemma expire_ok:
  assumes ok: "ml_ok ml" and e: "e \<in> set (ml_lrus ml)"
  shows "\<exists>ml'. mac_learning_expire ml e = Some ml' \<and> ml_ok ml' \<and> ml_without {e} ml ml' \<and>
    hmap_count (fst (ml_table ml')) = hmap_count (fst (ml_table ml)) - 1"
proof -
  obtain ml1 where 1: "mac_entry_set_port (ml\<lparr>ml_need_revalidate := True\<rparr>) e None = Some ml1" "ml_ok ml1" "port_frame e ml ml1"
    "mac_entry_get_port ml1 e = None"
    using set_port_ok[of "ml\<lparr>ml_need_revalidate := True\<rparr>" e None] ok e port_frame_revalidate by auto
  note o = ml_okD[OF 1(2)] and fr = port_frameD[OF 1(3)]
  note t = table_okD[OF o(1)]
  have none: "me_mlport (ml_entries ml1 e) = None" using 1(4) by (auto simp: mac_entry_get_port_def split: option.splits)
  have en: "e \<in> hmap_nodes (ml_table ml1)" using e t(4) fr(2) by simp
  obtain T where T: "hmap_remove (ml_table ml1) e = Some T" "hmap_wf T" "hmap_nodes T = hmap_nodes (ml_table ml1) - {e}"
    "keyed (hmap_nodes T) (snd T) (mac_key (ml_entries ml1)) (mac_hash (ml_secret ml1))"
    using hm.rmv_keyed[OF t(1,2) en] by blast
  have c: "hmap_count (fst T) = hmap_count (fst (ml_table ml1)) - 1"
    using hmap_remove_wf(2)[OF t(1) en] T(1) by (simp add: hmap_count_def)
  let ?ml = "ml1\<lparr>ml_table := T, ml_lrus := remove1 e (ml_lrus ml1)\<rparr>"
  have "mac_learning_expire ml e = Some ?ml" using 1(1) T(1) by (simp add: mac_learning_expire_def)
  moreover have "table_ok T (ml_entries ml1) (remove1 e (ml_lrus ml1)) (ml_secret ml1)"
    using T t(3,4) by (simp add: table_ok_def)
  then have "ml_ok ?ml"
    unfolding ml_ok_def using o(3-9) ports_ok_drop(1)[OF o(2) none] T(3) c by auto
  moreover have "ml_without {e} ml ?ml"
    unfolding ml_without_def ml_config_def using fr e t(3) by (auto simp: distinct_remove1_removeAll removeAll_filter_not_eq intro!: filter_cong)
  ultimately show ?thesis using c fr(1) by simp
qed

lemma mac_lookup_iff:
  assumes "ml_ok ml"
  shows "mac_entry_lookup ml mac vlan = Some e \<longleftrightarrow> e \<in> set (ml_lrus ml) \<and> mac_key (ml_entries ml) e = (mac, vlan)"
    and "mac_entry_lookup ml mac vlan = None \<longleftrightarrow> (mac, vlan) \<notin> mac_key (ml_entries ml) ` set (ml_lrus ml)"
proof -
  note t = table_okD[OF ml_okD(1)[OF assms]]
  have "(\<lambda>e. me_vlan (ml_entries ml e) = vlan \<and> me_mac (ml_entries ml e) = mac) = (\<lambda>e. mac_key (ml_entries ml) e = (mac, vlan))"
    by (auto simp: mac_key_def)
  then show "mac_entry_lookup ml mac vlan = Some e \<longleftrightarrow> e \<in> set (ml_lrus ml) \<and> mac_key (ml_entries ml) e = (mac, vlan)"
    and "mac_entry_lookup ml mac vlan = None \<longleftrightarrow> (mac, vlan) \<notin> mac_key (ml_entries ml) ` set (ml_lrus ml)"
    using hm.find_search[OF t(1,2), of "(mac, vlan)"]
    by (simp_all add: mac_entry_lookup_def mac_table_hash_def mac_hash_def t(4))
qed

lemma ml_ok_stats [simp]:
  "ml_ok (ml\<lparr>ml_total_evicted := x\<rparr>) = ml_ok ml" "ml_ok (ml\<lparr>ml_total_expired := x\<rparr>) = ml_ok ml"
  "ml_ok (ml\<lparr>ml_total_moved := x\<rparr>) = ml_ok ml" "ml_ok (ml\<lparr>ml_static_entries := y\<rparr>) = ml_ok ml"
  "ml_ok (ml\<lparr>ml_flood_vlans := z\<rparr>) = ml_ok ml"
  by (simp_all add: ml_ok_def)

lemma ml_without_stats [simp]:
  "ml_without X (ml\<lparr>ml_total_evicted := x\<rparr>) ml' = ml_without X ml ml'"
  "ml_without X (ml\<lparr>ml_total_expired := x\<rparr>) ml' = ml_without X ml ml'"
  by (simp_all add: ml_without_def ml_config_def)

text \<open>The eviction takes the least recently used entry of a port that has the most entries.\<close>

lemma evict_ok:
  assumes ok: "ml_ok ml" and some: "a \<in> set (ml_lrus ml)" "me_mlport (ml_entries ml a) \<noteq> None"
  shows "\<exists>ml' e p. evict_mac_entry_fairly ml = Some ml' \<and> ml_ok ml' \<and> ml_without {e} ml ml' \<and>
    hmap_count (fst (ml_table ml')) = hmap_count (fst (ml_table ml)) - 1 \<and>
    filter (\<lambda>x. me_mlport (ml_entries ml x) = Some p) (ml_lrus ml) \<noteq> [] \<and>
    hd (filter (\<lambda>x. me_mlport (ml_entries ml x) = Some p) (ml_lrus ml)) = e \<and>
    (\<forall>q. length (filter (\<lambda>x. me_mlport (ml_entries ml x) = Some q) (ml_lrus ml)) \<le>
         length (filter (\<lambda>x. me_mlport (ml_entries ml x) = Some p) (ml_lrus ml)))"
proof -
  note o = ml_okD[OF ok]
  note po = ports_okD[OF o(2)]
  let ?H = "ml_ports_by_usage ml" and ?P = "ml_ports_by_ptr ml" and ?f = "\<lambda>p x. me_mlport (ml_entries ml x) = Some p"
  obtain q0 where "q0 \<in> hmap_nodes ?P" using po(7)[OF some(1)] some(2) by blast
  then have "heap_abs ?H q0 \<noteq> None" using po(4)[of q0] by simp
  then have ne: "\<not> heap_is_empty (fst ?H)" using hq.emp[OF po(3)] by auto
  define p where "p = heap_max (fst ?H)"
  obtain pr where pr: "heap_abs ?H p = Some pr" "\<And>b r. heap_abs ?H b = Some r \<Longrightarrow> r \<le> pr"
    using hq.mx[OF po(3) ne] p_def by blast
  have p: "p \<in> hmap_nodes ?P" using pr(1) po(4)[of p] by (auto split: if_splits)
  have len: "length (filter (?f q) (ml_lrus ml)) < 2 ^ 64" for q
    using le_trans[OF length_filter_le o(10)] by (rule le_less_trans) simp
  have max: "length (filter (?f q) (ml_lrus ml)) \<le> length (filter (?f p) (ml_lrus ml))" for q
  proof (cases "q \<in> hmap_nodes ?P")
    case True
    then have "(of_nat (length (filter (?f q) (ml_lrus ml))) :: uint64_t) \<le> of_nat (length (filter (?f p) (ml_lrus ml)))"
      using pr po(4)[of q] po(4)[of p] po(5) p by simp
    then show ?thesis using len by (simp add: word_le_nat_alt unat_of_nat take_bit_nat_eq_self)
  next
    case False
    then have "filter (?f q) (ml_lrus ml) = []" using po(7) by (auto simp: filter_empty_conv)
    then show ?thesis by simp
  qed
  obtain e es where es: "mp_port_lrus (ml_ports ml p) = e # es" using po(6)[OF p] by (cases "mp_port_lrus (ml_ports ml p)") auto
  then have fl: "filter (?f p) (ml_lrus ml) = e # es" using po(5)[OF p] by simp
  then have "e \<in> set (ml_lrus ml)" by (metis filter_is_subset list.set_intros(1) subsetD)
  then obtain ml' where "mac_learning_expire (ml\<lparr>ml_total_evicted := ml_total_evicted ml + 1\<rparr>) e = Some ml'" "ml_ok ml'"
    "ml_without {e} ml ml'" "hmap_count (fst (ml_table ml')) = hmap_count (fst (ml_table ml)) - 1"
    using expire_ok[of "ml\<lparr>ml_total_evicted := ml_total_evicted ml + 1\<rparr>" e] ok by auto
  moreover from this have "evict_mac_entry_fairly ml = Some ml'"
    using ne es by (simp add: evict_mac_entry_fairly_def p_def[symmetric])
  ultimately show ?thesis using fl max by (intro exI[of _ ml'] exI[of _ e] exI[of _ p]) auto
qed

subsection \<open>Insertion\<close>

lemma ml_ok_upd_entry:
  assumes "\<And>m. me_mac (f m) = me_mac m \<and> me_vlan (f m) = me_vlan m \<and> me_mlport (f m) = me_mlport m"
  shows "ml_ok (upd_entry ml e f) = ml_ok ml" and "mac_entry_get_port (upd_entry ml e f) a = mac_entry_get_port ml a"
    and "mac_key (ml_entries (upd_entry ml e f)) = mac_key (ml_entries ml)"
proof -
  show k: "mac_key (ml_entries (upd_entry ml e f)) = mac_key (ml_entries ml)"
    using assms by (auto simp: mac_key_def upd_entry_def)
  have m: "me_mlport (ml_entries (upd_entry ml e f) x) = me_mlport (ml_entries ml x)" for x
    using assms by (simp add: upd_entry_def)
  show "mac_entry_get_port (upd_entry ml e f) a = mac_entry_get_port ml a"
    unfolding mac_entry_get_port_def m by (simp add: upd_entry_def split: option.split)
  have "table_ok T (ml_entries (upd_entry ml e f)) l c = table_ok T (ml_entries ml) l c" for T l c
    by (simp add: table_ok_def k)
  then show "ml_ok (upd_entry ml e f) = ml_ok ml" unfolding ml_ok_def m by (simp add: upd_entry_def)
qed

lemma ports_ok_touch:
  assumes ok: "ports_ok P H R lrus f k" and d: "distinct lrus" and e: "e \<in> set lrus"
  shows "f e = None \<Longrightarrow> ports_ok P H R (remove1 e lrus @ [e]) f k"
    and "f e = Some p \<Longrightarrow>
      ports_ok P H (R(p := (R p)\<lparr>mp_port_lrus := remove1 e (mp_port_lrus (R p)) @ [e]\<rparr>)) (remove1 e lrus @ [e]) f k"
proof -
  note o = ports_okD[OF ok]
  have fl: "filter (\<lambda>x. f x = Some q) (remove1 e lrus @ [e]) =
      (if f e = Some q then remove1 e (filter (\<lambda>x. f x = Some q) lrus) @ [e] else filter (\<lambda>x. f x = Some q) lrus)" for q
    by (simp add: filter_remove1 remove1_idem)
  have st: "set (remove1 e lrus @ [e]) = set lrus" using e d by auto
  show "ports_ok P H R (remove1 e lrus @ [e]) f k" if "f e = None"
    using ports_ok_drop(2)[OF ports_ok_drop(1)[OF ok that] that] .
  assume fe: "f e = Some p"
  have p: "p \<in> hmap_nodes P" by (rule o(7)[OF e fe])
  let ?R = "R(p := (R p)\<lparr>mp_port_lrus := remove1 e (mp_port_lrus (R p)) @ [e]\<rparr>)"
  have eL: "e \<in> set (mp_port_lrus (R p))" using e fe o(5)[OF p] by simp
  have n: "length (mp_port_lrus (?R q)) = length (mp_port_lrus (R q))" for q
    using eL length_pos_if_in_set[OF eL] by (simp add: length_remove1 del: length_greater_0_conv)
  have mp: "mp_port (?R q) = mp_port (R q)" for q by simp
  show "ports_ok P H ?R (remove1 e lrus @ [e]) f k"
    unfolding ports_ok_def mp n st fl
  proof (intro conjI ballI)
    show "heap_abs H = (\<lambda>p. if p \<in> hmap_nodes P then Some (of_nat (length (mp_port_lrus (R p)))) else None)"
      using o(4) by blast
    show "mp_port_lrus (?R q) = (if f e = Some q then remove1 e (filter (\<lambda>x. f x = Some q) lrus) @ [e]
        else filter (\<lambda>x. f x = Some q) lrus)" if "q \<in> hmap_nodes P" for q
      using that o(5) fe by auto
    show "mp_port_lrus (?R q) \<noteq> []" if "q \<in> hmap_nodes P" for q using that o(6) by simp
  qed (use o(1,2,3,7) in blast)+
qed

lemma touch_ok:
  assumes ok: "ml_ok ml" and e: "e \<in> set (ml_lrus ml)"
  defines "ml' \<equiv> touch_mac_entry (ml\<lparr>ml_lrus := remove1 e (ml_lrus ml)\<rparr>) e"
  shows "ml_ok ml'" "ml_lrus ml' = remove1 e (ml_lrus ml) @ [e]" "ml_entries ml' = ml_entries ml" "ml_table ml' = ml_table ml"
    "mac_entry_get_port ml' a = mac_entry_get_port ml a" "ml_config ml' = ml_config ml"
proof -
  note o = ml_okD[OF ok]
  note t = table_okD[OF o(1)]
  show f: "ml_lrus ml' = remove1 e (ml_lrus ml) @ [e]" "ml_entries ml' = ml_entries ml" "ml_table ml' = ml_table ml"
    "ml_config ml' = ml_config ml"
    by (auto simp: ml'_def touch_mac_entry_def upd_mlport_def ml_config_def Let_def split: option.split)
  have g: "ml_ports_by_ptr ml' = ml_ports_by_ptr ml" "ml_ports_by_usage ml' = ml_ports_by_usage ml" "ml_next ml' = ml_next ml"
    "mp_port (ml_ports ml' p) = mp_port (ml_ports ml p)" for p
    by (auto simp: ml'_def touch_mac_entry_def upd_mlport_def Let_def split: option.split)
  show "mac_entry_get_port ml' a = mac_entry_get_port ml a" by (simp add: mac_entry_get_port_def f g split: option.split)
  have "ports_ok (ml_ports_by_ptr ml) (ml_ports_by_usage ml) (ml_ports ml') (remove1 e (ml_lrus ml) @ [e])
      (\<lambda>e. me_mlport (ml_entries ml e)) (ml_secret ml)"
    using ports_ok_touch[OF o(2) t(3) e]
    by (cases "me_mlport (ml_entries ml e)") (simp_all add: ml'_def touch_mac_entry_def upd_mlport_def)
  moreover have "table_ok (ml_table ml) (ml_entries ml) (remove1 e (ml_lrus ml) @ [e]) (ml_secret ml)"
    using t e by (auto simp: table_ok_def)
  ultimately show "ml_ok ml'" using o(3-9) f(4) unfolding ml_ok_def f(1-3) g ml_config_def by auto
qed

text \<open>A table in which an entry is inserted, or found, and is the most recently used one; \<open>X\<close> is what was evicted.\<close>

definition inserted :: "addr set \<Rightarrow> addr \<Rightarrow> mac_learning \<Rightarrow> mac_learning \<Rightarrow> bool" where
  "inserted X e ml ml' \<longleftrightarrow>
     X \<subseteq> set (ml_lrus ml) \<and> e \<notin> X \<and> (\<exists>xs. ml_lrus ml' = xs @ [e]) \<and> set (ml_lrus ml') = insert e (set (ml_lrus ml) - X) \<and>
     (\<forall>a \<in> set (ml_lrus ml) - X - {e}. ml_entries ml' a = ml_entries ml a) \<and>
     (\<forall>a \<in> set (ml_lrus ml) - X. mac_entry_get_port ml' a = mac_entry_get_port ml a) \<and>
     (if e \<in> set (ml_lrus ml)
      then X = {} \<and> mac_key (ml_entries ml') e = mac_key (ml_entries ml) e \<and>
        me_grat_arp_lock (ml_entries ml' e) = me_grat_arp_lock (ml_entries ml e)
      else mac_entry_get_port ml' e = None \<and> me_grat_arp_lock (ml_entries ml' e) = TIME_MIN \<and>
        mac_key (ml_entries ml' ) e \<notin> mac_key (ml_entries ml) ` set (ml_lrus ml)) \<and>
     ml_flood_vlans ml' = ml_flood_vlans ml \<and> card X \<le> 1 \<and>
     (hmap_count (fst (ml_table ml)) < ml_max_entries ml \<longrightarrow> X = {})"

lemma insert_found:
  assumes ok: "ml_ok ml" and e: "mac_entry_lookup ml mac vlan = Some e"
  defines "ml' \<equiv> touch_mac_entry (ml\<lparr>ml_lrus := remove1 e (ml_lrus ml)\<rparr>) e"
  shows "ml_ok ml'" "inserted {} e ml ml'" "mac_key (ml_entries ml') e = (mac, vlan)"
proof -
  have el: "e \<in> set (ml_lrus ml)" and k: "mac_key (ml_entries ml) e = (mac, vlan)" using e mac_lookup_iff(1)[OF ok] by auto
  note t = touch_ok[OF ok el, folded ml'_def] and d = table_okD(3)[OF ml_okD(1)[OF ok]]
  show "ml_ok ml'" by (rule t(1))
  show "mac_key (ml_entries ml') e = (mac, vlan)" using k t(3) by simp
  show "inserted {} e ml ml'" using t(2,3,5,6) el d by (auto simp: inserted_def ml_config_def)
qed

lemma make_room:
  assumes inv: "ml_inv ml"
  shows "\<exists>X ml'. (if hmap_count (fst (ml_table ml)) \<ge> ml_max_entries ml then evict_mac_entry_fairly ml else Some ml) = Some ml' \<and>
    ml_ok ml' \<and> ml_without X ml ml' \<and> card X \<le> 1 \<and> (hmap_count (fst (ml_table ml)) < ml_max_entries ml \<longrightarrow> X = {}) \<and>
    hmap_count (fst (ml_table ml')) < 1000000"
proof (cases "hmap_count (fst (ml_table ml)) \<ge> ml_max_entries ml")
  case True
  note ok = inv[unfolded ml_inv_def, THEN conjunct1]
  note o = ml_okD[OF ok]
  have "length (ml_lrus ml) > 0" using True o(6) length_lrus[OF o(1)] by linarith
  then obtain a where a: "a \<in> set (ml_lrus ml)" by (cases "ml_lrus ml") auto
  then have "me_mlport (ml_entries ml a) \<noteq> None" using inv by (simp add: ml_inv_def)
  from evict_ok[OF ok a this] obtain ml' e where "evict_mac_entry_fairly ml = Some ml'" "ml_ok ml'" "ml_without {e} ml ml'"
    "hmap_count (fst (ml_table ml')) = hmap_count (fst (ml_table ml)) - 1" by blast
  then show ?thesis using True o(5,6) by (intro exI[of _ "{e}"] exI[of _ ml']) auto
next
  case False
  then show ?thesis using inv ml_okD(7)[of ml] by (intro exI[of _ "{}"] exI[of _ ml]) (auto simp: ml_inv_def ml_without_refl)
qed

lemma insert_fresh:
  assumes inv: "ml_inv ml" and none: "mac_entry_lookup ml mac vlan = None"
  shows "\<exists>X e ml'. new_mac_entry ml mac vlan st = Some (e, ml') \<and> ml_ok (touch_mac_entry ml' e) \<and>
    inserted X e ml (touch_mac_entry ml' e) \<and> mac_key (ml_entries (touch_mac_entry ml' e)) e = (mac, vlan)"
proof -
  note ok = inv[unfolded ml_inv_def, THEN conjunct1]
  obtain X ml1 where 1: "(if hmap_count (fst (ml_table ml)) \<ge> ml_max_entries ml then evict_mac_entry_fairly ml else Some ml) = Some ml1"
    "ml_ok ml1" "ml_without X ml ml1" "card X \<le> 1" "hmap_count (fst (ml_table ml)) < ml_max_entries ml \<longrightarrow> X = {}"
    "hmap_count (fst (ml_table ml1)) < 1000000" using make_room[OF inv] by blast
  note o = ml_okD[OF 1(2)] and w = 1(3)[unfolded ml_without_def ml_config_def]
  note t = table_okD[OF o(1)]
  let ?a = "ml_next ml1"
  have a: "?a \<notin> hmap_nodes (ml_table ml1)" using o(3) by blast
  have al: "?a \<notin> set (ml_lrus ml)" using ml_okD(3)[OF ok, of ?a] table_okD(4)[OF ml_okD(1)[OF ok]] w by auto
  have k: "(mac, vlan) \<notin> mac_key (ml_entries ml1) ` hmap_nodes (ml_table ml1)"
    using none w unfolding mac_lookup_iff(2)[OF ok] t(4)[symmetric] by (auto simp: mac_key_def)
  obtain T where T: "hmap_insert_at (ml_table ml1) ?a (mac_hash (ml_secret ml1) (mac, vlan)) = Some T" "hmap_wf T"
    "hmap_nodes T = insert ?a (hmap_nodes (ml_table ml1))"
    "keyed (hmap_nodes T) (snd T) ((mac_key (ml_entries ml1))(?a := (mac, vlan))) (mac_hash (ml_secret ml1))"
    using hm.ins_keyed[OF t(1,2) a k] by blast
  have c: "hmap_count (fst T) = hmap_count (fst (ml_table ml1)) + 1"
    using hmap_insert_wf[OF t(1) a, of "mac_hash (ml_secret ml1) (mac, vlan)"] T(1) by (auto simp: hmap_count_def)
  let ?E = "(ml_entries ml1)(?a := \<lparr>me_expires = 0, me_grat_arp_lock = TIME_MIN, me_mac = mac, me_vlan = vlan, me_mlport = None\<rparr>)"
  let ?ml = "ml1\<lparr>ml_next := ml_next ml1 + 1, ml_table := T, ml_entries := ?E,
    ml_total_learned := (if st then ml_total_learned ml1 else ml_total_learned ml1 + 1)\<rparr>"
  have sec: "mac_table_hash ml mac vlan = hash_mac mac vlan (ml_secret ml1)" using w by (simp add: mac_table_hash_def)
  have n: "new_mac_entry ml mac vlan st = Some (?a, ?ml)"
    using 1(1) T(1) by (simp add: new_mac_entry_def Let_def sec mac_hash_def)
  have tm: "touch_mac_entry ?ml ?a = ?ml\<lparr>ml_lrus := ml_lrus ml1 @ [?a]\<rparr>" by (simp add: touch_mac_entry_def)
  have key: "mac_key ?E = (mac_key (ml_entries ml1))(?a := (mac, vlan))" by (auto simp: mac_key_def)
  have tok: "table_ok T ?E (ml_lrus ml1 @ [?a]) (ml_secret ml1)"
    unfolding table_ok_def key using T(2-4) t(3,4) a by auto
  have "ports_ok (ml_ports_by_ptr ml1) (ml_ports_by_usage ml1) (ml_ports ml1) (ml_lrus ml1)
      (\<lambda>e. me_mlport (?E e)) (ml_secret ml1)" by (rule ports_ok_cong[OF o(2)]) (use a t(4) in auto)
  then have pok: "ports_ok (ml_ports_by_ptr ml1) (ml_ports_by_usage ml1) (ml_ports ml1) (ml_lrus ml1 @ [?a])
      (\<lambda>e. me_mlport (?E e)) (ml_secret ml1)" by (rule ports_ok_drop(2)) simp
  define M where "M = touch_mac_entry ?ml ?a"
  have M: "ml_table M = T" "ml_entries M = ?E" "ml_lrus M = ml_lrus ml1 @ [?a]" "ml_next M = ?a + 1"
    "ml_flood_vlans M = ml_flood_vlans ml1" unfolding M_def tm by simp_all
  have "ml_ok M" unfolding M_def tm ml_ok_def using tok pok o(3-9) T(3) c 1(6) by (auto intro: less_SucI)
  moreover have "mac_entry_get_port M x = (if x = ?a then None else mac_entry_get_port ml1 x)" for x
    unfolding M_def tm by (simp add: mac_entry_get_port_def split: option.split)
  moreover have Mk: "mac_key (ml_entries M) ?a = (mac, vlan)" unfolding M(2) by (simp add: mac_key_def)
  ultimately have "inserted X ?a ml M"
    unfolding inserted_def using w al 1(4,5) M none[unfolded mac_lookup_iff(2)[OF ok]] by auto
  then show ?thesis using n Mk \<open>ml_ok M\<close> unfolding M_def by blast
qed

lemma set_expires_facts:
  "ml_ok (set_mac_expires ml e st now) = ml_ok ml" "mac_entry_get_port (set_mac_expires ml e st now) a = mac_entry_get_port ml a"
  "mac_key (ml_entries (set_mac_expires ml e st now)) = mac_key (ml_entries ml)"
  "ml_lrus (set_mac_expires ml e st now) = ml_lrus ml" "ml_flood_vlans (set_mac_expires ml e st now) = ml_flood_vlans ml"
  "me_grat_arp_lock (ml_entries (set_mac_expires ml e st now) a) = me_grat_arp_lock (ml_entries ml a)"
  "a \<noteq> e \<Longrightarrow> ml_entries (set_mac_expires ml e st now) a = ml_entries ml a"
  by (simp_all add: set_mac_expires_def ml_ok_upd_entry) (simp_all add: upd_entry_def)

lemma insert_ok:
  assumes inv: "ml_inv ml"
  shows "\<exists>X e ml'. mac_learning_insert' ml mac vlan st now = Some (e, ml') \<and> ml_ok ml' \<and> inserted X e ml ml' \<and>
    mac_key (ml_entries ml') e = (mac, vlan)"
proof -
  note ok = inv[unfolded ml_inv_def, THEN conjunct1]
  have "\<exists>X e ml1. (case mac_entry_lookup ml mac vlan of None \<Rightarrow> new_mac_entry ml mac vlan st
      | Some e \<Rightarrow> Some (e, ml\<lparr>ml_lrus := remove1 e (ml_lrus ml)\<rparr>)) = Some (e, ml1) \<and> ml_ok (touch_mac_entry ml1 e) \<and>
    inserted X e ml (touch_mac_entry ml1 e) \<and> mac_key (ml_entries (touch_mac_entry ml1 e)) e = (mac, vlan)"
    using insert_fresh[OF inv, of mac vlan st] insert_found[OF ok, of mac vlan]
    by (cases "mac_entry_lookup ml mac vlan") auto
  then obtain X e ml1 where 1: "(case mac_entry_lookup ml mac vlan of None \<Rightarrow> new_mac_entry ml mac vlan st
      | Some e \<Rightarrow> Some (e, ml\<lparr>ml_lrus := remove1 e (ml_lrus ml)\<rparr>)) = Some (e, ml1)" "ml_ok (touch_mac_entry ml1 e)"
    "inserted X e ml (touch_mac_entry ml1 e)" "mac_key (ml_entries (touch_mac_entry ml1 e)) e = (mac, vlan)" by blast
  have "inserted X e ml (set_mac_expires (touch_mac_entry ml1 e) e st now)"
    using 1(3) unfolding inserted_def set_expires_facts(2,3,4,5,6) using set_expires_facts(7)[of _ e] by auto
  moreover have "mac_learning_insert' ml mac vlan st now = Some (e, set_mac_expires (touch_mac_entry ml1 e) e st now)"
    unfolding mac_learning_insert'_def 1(1) by simp
  ultimately show ?thesis using 1(2,4) set_expires_facts(1,3) by metis
qed

subsection \<open>The table as a map from addresses to ports\<close>

definition fdb :: "mac_learning \<Rightarrow> eth_addr \<times> uint16_t \<rightharpoonup> addr" where
  "fdb ml k = Option.bind (mac_entry_lookup ml (fst k) (snd k)) (mac_entry_get_port ml)"

lemma get_port_None_iff: "mac_entry_get_port ml e = None \<longleftrightarrow> me_mlport (ml_entries ml e) = None"
  by (simp add: mac_entry_get_port_def split: option.split)

lemma ml_inv_iff: "ml_inv ml \<longleftrightarrow> ml_ok ml \<and> (\<forall>e \<in> set (ml_lrus ml). mac_entry_get_port ml e \<noteq> None)"
  by (simp add: ml_inv_def get_port_None_iff)

lemma fdb_Some_iff:
  assumes "ml_ok ml"
  shows "fdb ml k = Some q \<longleftrightarrow>
    (\<exists>e \<in> set (ml_lrus ml). mac_key (ml_entries ml) e = k \<and> mac_entry_get_port ml e = Some q)"
  using mac_lookup_iff(1)[OF assms, of "fst k" "snd k"] by (auto simp: fdb_def bind_eq_Some_conv)

text \<open>What a call for one entry leaves of the others: all but the evicted ones, unchanged.\<close>

definition fdb_frame :: "addr set \<Rightarrow> addr \<Rightarrow> mac_learning \<Rightarrow> mac_learning \<Rightarrow> bool" where
  "fdb_frame X e ml ml' \<longleftrightarrow>
     X \<subseteq> set (ml_lrus ml) \<and> e \<notin> X \<and> set (ml_lrus ml') = insert e (set (ml_lrus ml) - X) \<and>
     (\<forall>a \<in> set (ml_lrus ml) - X - {e}. mac_key (ml_entries ml') a = mac_key (ml_entries ml) a \<and>
        mac_entry_get_port ml' a = mac_entry_get_port ml a)"

lemma inserted_frame: "inserted X e ml ml' \<Longrightarrow> fdb_frame X e ml ml'"
  by (auto simp: inserted_def fdb_frame_def mac_key_def)

lemma port_frame_frame:
  assumes "fdb_frame X e ml ml1" "port_frame e ml1 ml2"
  shows "fdb_frame X e ml ml2"
  using assms(1) port_frameD(2,9,13)[OF assms(2)] by (auto simp: fdb_frame_def)

lemma fdb_frame_other:
  assumes ok: "ml_ok ml" "ml_ok ml'" and fr: "fdb_frame X e ml ml'" and e: "mac_key (ml_entries ml') e = k"
    and found: "e \<in> set (ml_lrus ml) \<Longrightarrow> mac_key (ml_entries ml) e = k" and k': "k' \<noteq> k"
  shows "fdb ml' k' = (if k' \<in> mac_key (ml_entries ml) ` X then None else fdb ml k')"
proof -
  note t = table_okD[OF ml_okD(1)[OF ok(1)]]
  have inj: "a = b" if "a \<in> set (ml_lrus ml)" "b \<in> set (ml_lrus ml)" "mac_key (ml_entries ml) a = mac_key (ml_entries ml) b" for a b
    using t(2,4) that by (auto simp: keyed_def inj_on_def)
  have "fdb ml' k' = Some q \<longleftrightarrow> k' \<notin> mac_key (ml_entries ml) ` X \<and> fdb ml k' = Some q" for q
  proof
    assume "fdb ml' k' = Some q"
    then obtain a where a: "a \<in> set (ml_lrus ml')" "mac_key (ml_entries ml') a = k'" "mac_entry_get_port ml' a = Some q"
      using fdb_Some_iff[OF ok(2)] by blast
    then have m: "a \<in> set (ml_lrus ml) - X - {e}" using fr e k' by (auto simp: fdb_frame_def)
    then have ka: "mac_key (ml_entries ml) a = k'" "mac_entry_get_port ml a = Some q" using fr a by (auto simp: fdb_frame_def)
    then have "k' \<notin> mac_key (ml_entries ml) ` X" using inj[of a] m fr by (auto simp: fdb_frame_def)
    then show "k' \<notin> mac_key (ml_entries ml) ` X \<and> fdb ml k' = Some q" using fdb_Some_iff[OF ok(1)] ka m by blast
  next
    assume h: "k' \<notin> mac_key (ml_entries ml) ` X \<and> fdb ml k' = Some q"
    then obtain a where a: "a \<in> set (ml_lrus ml)" "mac_key (ml_entries ml) a = k'" "mac_entry_get_port ml a = Some q"
      using fdb_Some_iff[OF ok(1)] by blast
    then have "a \<in> set (ml_lrus ml) - X - {e}" using h found k' by auto
    then show "fdb ml' k' = Some q" unfolding fdb_Some_iff[OF ok(2)] using fr a by (auto simp: fdb_frame_def)
  qed
  then show ?thesis by (metis (full_types) not_None_eq)
qed

subsection \<open>Learning\<close>

lemma grat_lock_facts:
  "ml_ok (upd_entry ml e (mac_entry_set_grat_arp_lock now)) = ml_ok ml"
  "mac_entry_get_port (upd_entry ml e (mac_entry_set_grat_arp_lock now)) a = mac_entry_get_port ml a"
  "mac_key (ml_entries (upd_entry ml e (mac_entry_set_grat_arp_lock now))) = mac_key (ml_entries ml)"
  "ml_lrus (upd_entry ml e (mac_entry_set_grat_arp_lock now)) = ml_lrus ml"
  by (simp_all add: ml_ok_upd_entry mac_entry_set_grat_arp_lock_def) (simp add: upd_entry_def)

lemma ml_inv_frameI:
  assumes "ml_inv ml" "ml_ok ml'" "fdb_frame X e ml ml'" "mac_entry_get_port ml' e \<noteq> None"
  shows "ml_inv ml'"
proof -
  have "mac_entry_get_port ml' a \<noteq> None" if "a \<in> set (ml_lrus ml')" for a
    using assms(1,3,4) that unfolding ml_inv_iff fdb_frame_def by (cases "a = e") auto
  then show ?thesis using assms(2) by (simp add: ml_inv_iff)
qed

text \<open>What learning an address on a port does, when the entry is not locked against it.\<close>

definition learned :: "addr set \<Rightarrow> eth_addr \<times> uint16_t \<Rightarrow> addr \<Rightarrow> mac_learning \<Rightarrow> mac_learning \<Rightarrow> bool" where
  "learned X k q ml ml' \<longleftrightarrow>
     ml_inv ml' \<and> fdb ml' k = Some q \<and> card X \<le> 1 \<and> X \<subseteq> set (ml_lrus ml) \<and>
     (hmap_count (fst (ml_table ml)) < ml_max_entries ml \<longrightarrow> X = {}) \<and>
     (\<forall>k'. k' \<noteq> k \<longrightarrow> fdb ml' k' = (if k' \<in> mac_key (ml_entries ml) ` X then None else fdb ml k'))"

lemma set_port_learned:
  assumes inv: "ml_inv ml" and 1: "ml_ok ml1" "inserted X e ml ml0" "fdb_frame X e ml ml1" "ml_lrus ml1 = ml_lrus ml0"
    "mac_key (ml_entries ml1) e = k" and k0: "mac_key (ml_entries ml0) e = k"
  shows "\<exists>ml'. mac_entry_set_port ml1 e (Some q) = Some ml' \<and> learned X k q ml ml'"
proof -
  have found: "e \<in> set (ml_lrus ml) \<Longrightarrow> mac_key (ml_entries ml) e = k" using 1(2) k0 by (simp add: inserted_def)
  obtain xs where xs: "ml_lrus ml1 = xs @ [e]" using 1(2,4) by (auto simp: inserted_def)
  then obtain ml' where m: "mac_entry_set_port ml1 e (Some q) = Some ml'" "ml_ok ml'" "port_frame e ml1 ml'"
    "mac_entry_get_port ml' e = Some q" using set_port_ok[OF 1(1), of e "Some q" xs] by auto
  note fr = port_frame_frame[OF 1(3) m(3)]
  have k: "mac_key (ml_entries ml') e = k" using 1(5) port_frameD(9)[OF m(3)] by simp
  have e: "e \<in> set (ml_lrus ml')" using xs port_frameD(2)[OF m(3)] by simp
  have "ml_inv ml'" by (rule ml_inv_frameI[OF inv m(2) fr]) (simp add: m(4))
  moreover have "fdb ml' k = Some q" using fdb_Some_iff[OF m(2)] k e m(4) by blast
  moreover have "fdb ml' k' = (if k' \<in> mac_key (ml_entries ml) ` X then None else fdb ml k')" if "k' \<noteq> k" for k'
    using fdb_frame_other[OF _ m(2) fr k found that] inv by (simp add: ml_inv_def)
  ultimately show ?thesis using m(1) 1(2) unfolding learned_def inserted_def by blast
qed

lemma learned_keep:
  assumes inv: "ml_inv ml" and 1: "ml_ok ml1" "inserted X e ml ml0" "fdb_frame X e ml ml1"
    "mac_key (ml_entries ml1) e = k" "mac_entry_get_port ml1 e = Some q" and k0: "mac_key (ml_entries ml0) e = k"
  shows "learned X k q ml ml1"
proof -
  have found: "e \<in> set (ml_lrus ml) \<Longrightarrow> mac_key (ml_entries ml) e = k" using 1(2) k0 by (simp add: inserted_def)
  have "ml_inv ml1" by (rule ml_inv_frameI[OF inv 1(1,3)]) (simp add: 1(5))
  moreover have "fdb ml1 k = Some q" using fdb_Some_iff[OF 1(1)] 1(3,4,5) by (auto simp: fdb_frame_def)
  moreover have "fdb ml1 k' = (if k' \<in> mac_key (ml_entries ml) ` X then None else fdb ml k')" if "k' \<noteq> k" for k'
    using fdb_frame_other[OF _ 1(1,3,4) found that] inv by (simp add: ml_inv_def)
  ultimately show ?thesis using 1(2) unfolding learned_def inserted_def by blast
qed


lemma inserted_fdb:
  assumes ok: "ml_ok ml" and i: "inserted X e ml ml1" "mac_key (ml_entries ml1) e = k"
  shows "fdb ml k = mac_entry_get_port ml1 e"
proof (cases "e \<in> set (ml_lrus ml)")
  case True
  then have k: "mac_key (ml_entries ml) e = k" "mac_entry_get_port ml1 e = mac_entry_get_port ml e"
    using i by (auto simp: inserted_def)
  then show ?thesis using mac_lookup_iff(1)[OF ok, of "fst k" "snd k" e] True by (simp add: fdb_def)
next
  case False
  then have k: "k \<notin> mac_key (ml_entries ml) ` set (ml_lrus ml)" "mac_entry_get_port ml1 e = None"
    using i by (auto simp: inserted_def)
  then show ?thesis using mac_lookup_iff(2)[OF ok, of "fst k" "snd k"] by (simp add: fdb_def)
qed

text \<open>Whether a gratuitous ARP packet from a bond is ignored for an address.\<close>

definition arp_locked :: "mac_learning \<Rightarrow> eth_addr \<Rightarrow> uint16_t \<Rightarrow> bool \<Rightarrow> bool \<Rightarrow> int \<Rightarrow> bool" where
  "arp_locked ml src vlan is_gratuitous_arp is_bond now \<longleftrightarrow> is_gratuitous_arp \<and> is_bond \<and>
     (case mac_entry_lookup ml src vlan of None \<Rightarrow> False | Some e \<Rightarrow> mac_entry_is_grat_arp_locked now (ml_entries ml e))"

lemma update_table_ok:
  assumes inv: "ml_inv ml" and now: "TIME_MIN \<le> now" and may: "mac_learning_may_learn ml src (of_int vlan)"
  shows "\<exists>r ml'. update_learning_table' ml src vlan g b (Some q) now = Some (r, ml') \<and> ml_inv ml' \<and>
    (\<not> arp_locked ml src (of_int vlan) g b now \<longrightarrow>
      r = (fdb ml (src, of_int vlan) \<noteq> Some q) \<and> (\<exists>X. learned X (src, of_int vlan) q ml ml'))"
proof -
  let ?k = "(src, of_int vlan :: uint16_t)"
  note ok = inv[unfolded ml_inv_def, THEN conjunct1]
  obtain X e ml0 where 0: "mac_learning_insert' ml src (of_int vlan) False now = Some (e, ml0)" "ml_ok ml0" "inserted X e ml ml0"
    "mac_key (ml_entries ml0) e = ?k" using insert_ok[OF inv, of src "of_int vlan" False now] by blast
  define ml1 where "ml1 = (if g \<and> \<not> b then upd_entry ml0 e (mac_entry_set_grat_arp_lock now) else ml0)"
  have 1: "ml_ok ml1" "fdb_frame X e ml ml1" "ml_lrus ml1 = ml_lrus ml0" "mac_key (ml_entries ml1) e = ?k"
    "mac_entry_get_port ml1 e = mac_entry_get_port ml0 e"
    using 0 inserted_frame[OF 0(3)] unfolding ml1_def by (simp_all add: grat_lock_facts fdb_frame_def)
  have port: "mac_entry_get_port ml1 e = fdb ml ?k" using inserted_fdb[OF ok 0(3,4)] 1(5) by simp
  have u: "update_learning_table' ml src vlan g b (Some q) now =
      (if g \<and> b \<and> mac_entry_is_grat_arp_locked now (ml_entries ml1 e) then Some (False, ml1)
       else if fdb ml ?k \<noteq> Some q
       then Option.bind (mac_entry_set_port (if fdb ml ?k \<noteq> None then ml1\<lparr>ml_total_moved := ml_total_moved ml1 + 1\<rparr> else ml1) e (Some q))
              (\<lambda>ml. Some (True, ml))
       else Some (False, ml1))"
    using may 0(1) port unfolding update_learning_table'_def mac_learning_insert_def ml1_def by (auto simp: Let_def)
  show ?thesis
  proof (cases "g \<and> b \<and> mac_entry_is_grat_arp_locked now (ml_entries ml1 e)")
    case True
    then have l: "mac_entry_is_grat_arp_locked now (ml_entries ml0 e)" by (auto simp: ml1_def)
    then have e: "e \<in> set (ml_lrus ml)" "me_grat_arp_lock (ml_entries ml0 e) = me_grat_arp_lock (ml_entries ml e)"
      using 0(3) now unfolding inserted_def mac_entry_is_grat_arp_locked_def by (auto split: if_splits)
    then have lk: "mac_entry_lookup ml src (of_int vlan) = Some e"
      unfolding mac_lookup_iff(1)[OF ok] using 0(3,4) by (simp add: inserted_def)
    then have "mac_entry_get_port ml1 e \<noteq> None" using port inv e(1) by (simp add: fdb_def ml_inv_iff)
    then have "ml_inv ml1" by (rule ml_inv_frameI[OF inv 1(1,2)])
    moreover have "arp_locked ml src (of_int vlan) g b now"
      using True l e(2) lk by (simp add: arp_locked_def mac_entry_is_grat_arp_locked_def)
    ultimately show ?thesis using u True by auto
  next
    case False
    show ?thesis
    proof (cases "fdb ml ?k = Some q")
      case True
      then have "learned X ?k q ml ml1" using learned_keep[OF inv 1(1) 0(3) 1(2,4) _ 0(4), of q] port by simp
      then show ?thesis using u False True by (auto simp: learned_def)
    next
      case nq: False
      define ml2 where "ml2 = (if fdb ml ?k \<noteq> None then ml1\<lparr>ml_total_moved := ml_total_moved ml1 + 1\<rparr> else ml1)"
      have "ml_ok ml2" "fdb_frame X e ml ml2" "ml_lrus ml2 = ml_lrus ml0" "mac_key (ml_entries ml2) e = ?k"
        using 1 unfolding ml2_def by (simp_all add: fdb_frame_def)
      from set_port_learned[OF inv this(1) 0(3) this(2,3,4) 0(4), of q] obtain ml'
        where "mac_entry_set_port ml2 e (Some q) = Some ml'" "learned X ?k q ml ml'" by blast
      then show ?thesis using u False nq unfolding ml2_def by (auto simp: learned_def)
    qed
  qed
qed

lemma lookup_total:
  assumes inv: "ml_inv ml"
  shows "mac_learning_lookup ml dst vlan =
    Some (if eth_addr_is_multicast dst \<or> \<not> is_learning_vlan ml vlan then None else mac_entry_lookup ml dst vlan)"
  using inv mac_lookup_iff(1)[of ml dst vlan]
  by (auto simp: mac_learning_lookup_def Let_def ml_inv_iff split: option.split)

lemma needed_total:
  assumes inv: "ml_inv ml"
  shows "\<exists>r. is_mac_learning_update_needed ml src vlan g b port now = Some r"
proof (cases "is_mac_learning_update_needed ml src vlan g b port now")
  case None
  then show ?thesis
    by (auto simp: is_mac_learning_update_needed_def lookup_total[OF inv] Let_def split: option.splits if_splits)
qed simp

lemma not_needed:
  assumes inv: "ml_inv ml" and no: "is_mac_learning_update_needed ml src vlan g b (Some q) now = Some False"
    and may: "mac_learning_may_learn ml src (of_int vlan)" and lock: "\<not> arp_locked ml src (of_int vlan) g b now"
    and dyn: "\<And>e. mac_entry_lookup ml src (of_int vlan) = Some e \<Longrightarrow> mac_entry_age ml e now \<noteq> MAC_ENTRY_AGE_STATIC_ENTRY"
  shows "fdb ml (src, of_int vlan) = Some q"
proof -
  have nm: "\<not> eth_addr_is_multicast src" "is_learning_vlan ml (of_int vlan)" using may by (auto simp: mac_learning_may_learn_def)
  show ?thesis
  proof (cases "mac_entry_lookup ml src (of_int vlan)")
    case None
    then show ?thesis using no may nm by (simp add: is_mac_learning_update_needed_def lookup_total[OF inv])
  next
    case (Some e)
    then show ?thesis using no may nm dyn[OF Some] lock
      by (auto simp: is_mac_learning_update_needed_def lookup_total[OF inv] Let_def arp_locked_def fdb_def split: if_splits)
  qed
qed

lemma learned_same: "ml_inv ml \<Longrightarrow> fdb ml k = Some q \<Longrightarrow> learned {} k q ml ml"
  by (simp add: learned_def)

lemma update_ok:
  assumes inv: "ml_inv ml" and now: "TIME_MIN \<le> now"
  shows "\<exists>r ml'. mac_learning_update ml src vlan g b port now = Some (r, ml') \<and> ml_inv ml'"
proof -
  obtain r where r: "is_mac_learning_update_needed ml src vlan g b port now = Some r" using needed_total[OF inv] by blast
  show ?thesis
  proof (cases "port \<noteq> None \<and> r \<and> mac_learning_may_learn ml src (of_int vlan)")
    case True
    then obtain q where "port = Some q" by auto
    then show ?thesis using update_table_ok[OF inv now, of src vlan g b q] True r by (auto simp: mac_learning_update_def)
  next
    case False
    then show ?thesis using inv r by (auto simp: mac_learning_update_def update_learning_table'_def)
  qed
qed

lemma add_static_ok:
  assumes inv: "ml_inv ml"
  shows "\<exists>X ml'. mac_learning_add_static_entry ml mac vlan (Some q) now = Some (True, ml') \<and> learned X (mac, vlan) q ml ml'"
proof -
  obtain X e ml0 where 0: "mac_learning_insert' ml mac vlan True now = Some (e, ml0)" "ml_ok ml0" "inserted X e ml ml0"
    "mac_key (ml_entries ml0) e = (mac, vlan)" using insert_ok[OF inv, of mac vlan True now] by blast
  from set_port_learned[OF inv 0(2,3) inserted_frame[OF 0(3)] refl 0(4,4), of q] show ?thesis
    using 0(1) by (auto simp: mac_learning_add_static_entry_def)
qed

subsection \<open>Deletion, flushing and ageing\<close>

definition is_static :: "mac_learning \<Rightarrow> addr \<Rightarrow> bool" where
  "is_static ml e \<longleftrightarrow> me_expires (ml_entries ml e) = MAC_ENTRY_AGE_STATIC_ENTRY"

lemma ml_inv_without: "ml_inv ml \<Longrightarrow> ml_ok ml' \<Longrightarrow> ml_without X ml ml' \<Longrightarrow> ml_inv ml'"
  unfolding ml_inv_iff ml_without_def by auto

lemma expire_inv:
  assumes "ml_inv ml" "e \<in> set (ml_lrus ml)"
  shows "\<exists>ml'. mac_learning_expire ml e = Some ml' \<and> ml_inv ml' \<and> ml_without {e} ml ml' \<and>
    hmap_count (fst (ml_table ml')) = hmap_count (fst (ml_table ml)) - 1"
  using expire_ok[of ml e] assms ml_inv_without[OF assms(1)] by (auto simp: ml_inv_def)

lemma del_static_ok:
  assumes inv: "ml_inv ml"
  shows "\<exists>r ml'. mac_learning_del_static_entry ml mac vlan now = Some (r, ml') \<and> ml_inv ml'"
proof (cases "mac_learning_lookup ml mac vlan")
  case None
  then show ?thesis using lookup_total[OF inv] by simp
next
  case (Some r)
  show ?thesis
  proof (cases r)
    case None
    then show ?thesis using Some inv by (auto simp: mac_learning_del_static_entry_def)
  next
    case (Some e)
    then have "e \<in> set (ml_lrus ml)"
      using \<open>mac_learning_lookup ml mac vlan = Some r\<close> inv lookup_total[OF inv, of mac vlan] mac_lookup_iff(1)[of ml mac vlan e]
      by (auto simp: ml_inv_def split: if_splits)
    from expire_inv[OF inv this] obtain ml' where "mac_learning_expire ml e = Some ml'" "ml_inv ml'" by blast
    then show ?thesis using \<open>mac_learning_lookup ml mac vlan = Some r\<close> Some inv
      by (auto simp: mac_learning_del_static_entry_def ml_inv_iff)
  qed
qed

lemma get_lru_iff: "get_lru ml = None \<longleftrightarrow> (\<forall>e \<in> set (ml_lrus ml). is_static ml e)"
  "get_lru ml = Some e \<Longrightarrow> e \<in> set (ml_lrus ml) \<and> \<not> is_static ml e"
  by (auto simp: get_lru_def is_static_def find_None_iff find_Some_iff)

lemma flush_loop_ok:
  assumes "ml_inv ml"
  shows "\<exists>ml'. mac_learning_flush_loop ml = Some ml' \<and> ml_inv ml' \<and> ml_without {e \<in> set (ml_lrus ml). \<not> is_static ml e} ml ml'"
  using assms
proof (induction "length (ml_lrus ml)" arbitrary: ml rule: less_induct)
  case less
  show ?case
  proof (cases "get_lru ml")
    case None
    then have e: "{e \<in> set (ml_lrus ml). \<not> is_static ml e} = {}" using get_lru_iff(1) by auto
    show ?thesis unfolding e using None less.prems ml_without_refl by (simp add: mac_learning_flush_loop.simps[of ml])
  next
    case (Some e)
    note e = get_lru_iff(2)[OF Some]
    obtain ml1 where 1: "mac_learning_expire ml e = Some ml1" "ml_inv ml1" "ml_without {e} ml ml1"
      using expire_inv[OF less.prems] e by blast
    obtain ml' where 2: "mac_learning_flush_loop ml1 = Some ml'" "ml_inv ml'"
      "ml_without {a \<in> set (ml_lrus ml1). \<not> is_static ml1 a} ml1 ml'"
      using less.hyps[OF mac_learning_expire_shorter[OF Some 1(1)] 1(2)] by blast
    have "{e} \<union> {a \<in> set (ml_lrus ml1). \<not> is_static ml1 a} = {e \<in> set (ml_lrus ml). \<not> is_static ml e}"
      using 1(3) e by (auto simp: ml_without_def is_static_def)
    then show ?thesis
      using ml_without_trans[OF 1(3) 2(3)] 1(1) 2(1,2) Some by (simp add: mac_learning_flush_loop.simps[of ml])
  qed
qed

lemma ml_ok_table:
  assumes ok: "ml_ok ml" and T: "hmap_wf T" "hmap_nodes T = hmap_nodes (ml_table ml)" "snd T = snd (ml_table ml)"
    "hm_n (fst T) = hm_n (fst (ml_table ml))"
  shows "ml_ok (ml\<lparr>ml_table := T\<rparr>)"
  using ok T unfolding ml_ok_def table_ok_def by (simp add: hmap_count_def)

lemma flush_ok:
  assumes "ml_inv ml"
  shows "\<exists>ml'. mac_learning_flush ml = Some ml' \<and> ml_inv ml' \<and> ml_without {e \<in> set (ml_lrus ml). \<not> is_static ml e} ml ml'"
proof -
  obtain ml1 where 1: "mac_learning_flush_loop ml = Some ml1" "ml_inv ml1"
    "ml_without {e \<in> set (ml_lrus ml). \<not> is_static ml e} ml ml1" using flush_loop_ok[OF assms] by blast
  then have ok: "ml_ok ml1" by (simp add: ml_inv_def)
  obtain T where T: "hmap_shrink_at (ml_table ml1) = Some T" "hmap_wf T" "hmap_nodes T = hmap_nodes (ml_table ml1)"
    "snd T = snd (ml_table ml1)" "hm_n (fst T) = hm_n (fst (ml_table ml1))"
    using hmap_adjust_wf(2)[OF table_okD(1)[OF ml_okD(1)[OF ok]]] by blast
  have "ml_inv (ml1\<lparr>ml_table := T\<rparr>)" using 1(2) ml_ok_table[OF ok T(2-5)] by (simp add: ml_inv_def)
  moreover have "ml_without {e \<in> set (ml_lrus ml). \<not> is_static ml e} ml (ml1\<lparr>ml_table := T\<rparr>)"
    using 1(3) by (simp add: ml_without_def ml_config_def)
  ultimately show ?thesis using 1(1) T(1) by (simp add: mac_learning_flush_def)
qed

text \<open>
  Ageing removes dynamic entries only, only expired ones unless the table was overfull, and stops when the
  least recently used dynamic entry has not expired.
\<close>

definition aged :: "addr set \<Rightarrow> mac_learning \<Rightarrow> int \<Rightarrow> mac_learning \<Rightarrow> bool" where
  "aged X ml now ml' \<longleftrightarrow>
     ml_without X ml ml' \<and> (\<forall>e \<in> X. \<not> is_static ml e) \<and>
     (hmap_count (fst (ml_table ml)) \<le> ml_max_entries ml \<longrightarrow> (\<forall>e \<in> X. me_expires (ml_entries ml e) \<le> now)) \<and>
     (case get_lru ml' of
        None \<Rightarrow> True
      | Some e \<Rightarrow> hmap_count (fst (ml_table ml')) \<le> ml_max_entries ml' \<and> now < me_expires (ml_entries ml' e))"

lemma run_loop_ok:
  assumes "ml_inv ml"
  shows "\<exists>X ml'. mac_learning_run_loop ml now = Some ml' \<and> ml_inv ml' \<and> aged X ml now ml'"
  using assms
proof (induction "length (ml_lrus ml)" arbitrary: ml rule: less_induct)
  case less
  let ?go = "\<lambda>e. hmap_count (fst (ml_table ml)) > ml_max_entries ml \<or> now \<ge> me_expires (ml_entries ml e)"
  show ?case
  proof (cases "\<exists>e. get_lru ml = Some e \<and> ?go e")
    case False
    then have "mac_learning_run_loop ml now = Some ml"
      by (auto simp: mac_learning_run_loop.simps[of ml] split: option.split)
    moreover have "aged {} ml now ml" using False by (auto simp: aged_def ml_without_refl not_less split: option.split)
    ultimately show ?thesis using less.prems by blast
  next
    case True
    then obtain e where lru: "get_lru ml = Some e" and go: "?go e" by blast
    let ?ml = "ml\<lparr>ml_total_expired := ml_total_expired ml + 1\<rparr>"
    note e = get_lru_iff(2)[OF lru]
    have "ml_inv ?ml" using less.prems by (simp add: ml_inv_iff)
    then obtain ml1 where 1: "mac_learning_expire ?ml e = Some ml1" "ml_inv ml1" "ml_without {e} ml ml1"
      "hmap_count (fst (ml_table ml1)) = hmap_count (fst (ml_table ml)) - 1" using expire_inv[of ?ml e] e by auto
    have "length (ml_lrus ml1) < length (ml_lrus ml)"
      using mac_learning_expire_shorter[OF _ 1(1)] lru by (simp add: get_lru_def)
    from less.hyps[OF this 1(2)] obtain X ml' where 2: "mac_learning_run_loop ml1 now = Some ml'" "ml_inv ml'" "aged X ml1 now ml'"
      by blast
    note w = 1(3)[unfolded ml_without_def ml_config_def]
    have X: "X \<subseteq> set (ml_lrus ml1)" using 2(3) by (simp add: aged_def ml_without_def)
    have same: "ml_entries ml1 a = ml_entries ml a" if "a \<in> X" for a using w X that by auto
    have "aged ({e} \<union> X) ml now ml'"
      using 2(3) ml_without_trans[OF 1(3), of X ml'] e go w 1(4) same unfolding aged_def is_static_def by auto
    moreover have "mac_learning_run_loop ml now = Some ml'"
      using lru go 1(1) 2(1) by (simp add: mac_learning_run_loop.simps[of ml])
    ultimately show ?thesis using 2(2) by blast
  qed
qed

lemma revalidate_facts [simp]:
  "get_lru (ml\<lparr>ml_need_revalidate := b\<rparr>) = get_lru ml"
  "ml_without X ml0 (ml\<lparr>ml_need_revalidate := b\<rparr>) = ml_without X ml0 ml"
  by (simp_all add: get_lru_def ml_without_def ml_config_def)

lemma run_ok:
  assumes "ml_inv ml"
  shows "\<exists>X r ml'. mac_learning_run ml now = Some (r, ml') \<and> ml_inv ml' \<and> aged X ml now ml'"
proof -
  obtain X ml1 where 1: "mac_learning_run_loop ml now = Some ml1" "ml_inv ml1" "aged X ml now ml1" using run_loop_ok[OF assms] by blast
  have "aged X ml now (ml1\<lparr>ml_need_revalidate := False\<rparr>)"
    using 1(3) by (auto simp: aged_def split: option.splits)
  then show ?thesis using 1(1,2) by (auto simp: mac_learning_run_def ml_inv_iff)
qed

lemma fdb_without:
  assumes inv: "ml_inv ml" "ml_inv ml'" and w: "ml_without X ml ml'"
  shows "fdb ml' k = (if k \<in> mac_key (ml_entries ml) ` X then None else fdb ml k)"
proof -
  note ok = inv[unfolded ml_inv_def, THEN conjunct1]
  note t = table_okD[OF ml_okD(1)[OF ok(1)]]
  have inj: "a = b" if "a \<in> set (ml_lrus ml)" "b \<in> set (ml_lrus ml)" "mac_key (ml_entries ml) a = mac_key (ml_entries ml) b" for a b
    using t(2,4) that by (auto simp: keyed_def inj_on_def)
  have key: "mac_key (ml_entries ml') a = mac_key (ml_entries ml) a" if "a \<in> set (ml_lrus ml) - X" for a
    using w that by (auto simp: ml_without_def mac_key_def)
  have "fdb ml' k = Some q \<longleftrightarrow> k \<notin> mac_key (ml_entries ml) ` X \<and> fdb ml k = Some q" for q
    unfolding fdb_Some_iff[OF ok(1)] fdb_Some_iff[OF ok(2)]
    using w key inj unfolding ml_without_def by (auto 4 4 simp: image_iff)
  then show ?thesis by (metis (full_types) not_None_eq)
qed

subsection \<open>Configuration\<close>

lemma normalize_bounds: "15 \<le> normalize_idle_time t" "normalize_idle_time t \<le> 3600"
  by (auto simp: normalize_idle_time_def not_less)

lemma age_entries_facts:
  assumes "ml' = fold (\<lambda>e ml. upd_entry ml e (\<lambda>m. m\<lparr>me_expires := me_expires m + delta\<rparr>)) es ml"
  shows "ml_ok ml' = ml_ok ml" "mac_entry_get_port ml' a = mac_entry_get_port ml a" "ml_lrus ml' = ml_lrus ml"
    and "distinct es \<Longrightarrow> me_expires (ml_entries ml' a) = me_expires (ml_entries ml a) + (if a \<in> set es then delta else 0)"
  unfolding assms
  by (induction es arbitrary: ml) (simp_all add: ml_ok_upd_entry, simp_all add: upd_entry_def)

lemma ml_ok_idle: "15 \<le> t \<Longrightarrow> t \<le> 3600 \<Longrightarrow> ml_ok ml \<Longrightarrow> ml_ok (ml\<lparr>ml_idle_time := t\<rparr>)"
  by (simp add: ml_ok_def)

lemma set_idle_time_inv:
  assumes inv: "ml_inv ml"
  shows "ml_inv (mac_learning_set_idle_time ml t)"
proof -
  define ml1 where "ml1 = fold (\<lambda>e x. upd_entry x e (\<lambda>m. m\<lparr>me_expires := me_expires m +
    s32 (sint (normalize_idle_time t) - sint (ml_idle_time ml))\<rparr>)) (ml_lrus ml) ml"
  have "ml_inv (ml1\<lparr>ml_idle_time := normalize_idle_time t\<rparr>)"
    using inv age_entries_facts(1-3)[OF ml1_def] ml_ok_idle[OF normalize_bounds, of ml1]
    unfolding ml_inv_def by (simp add: get_port_None_iff[symmetric])
  then show ?thesis using inv unfolding mac_learning_set_idle_time_def ml1_def by (simp add: Let_def)
qed

text \<open>A change of the idle time moves the expiration time of the static entries too: they are static no more.\<close>

lemma idle_time_drops_static:
  assumes ok: "ml_ok ml" and e: "e \<in> set (ml_lrus ml)" "is_static ml e" and t: "normalize_idle_time t \<noteq> ml_idle_time ml"
  shows "\<not> is_static (mac_learning_set_idle_time ml t) e"
proof -
  have small: "sint x = int (unat x) \<and> unat x \<le> 3600" if "x \<le> 3600" for x :: uint32_t
  proof -
    have "unat x \<le> 3600" using that by (simp add: word_le_nat_alt)
    then show ?thesis using sint_small[of x] by simp
  qed
  let ?d = "s32 (sint (normalize_idle_time t) - sint (ml_idle_time ml))"
  have "s32 (int a - int b) = int a - int b" if "a \<le> 3600" "b \<le> 3600" for a b :: nat
    using that by (intro s32_id) simp_all
  then have "?d = int (unat (normalize_idle_time t)) - int (unat (ml_idle_time ml))"
    using small[OF normalize_bounds(2), of t] small[OF ml_okD(9)[OF ok]] by (simp only:)
  then have "?d \<noteq> 0" using t by (simp add: word_uint_eq_iff)
  moreover have "me_expires (ml_entries (mac_learning_set_idle_time ml t) e) = MAC_ENTRY_AGE_STATIC_ENTRY + ?d"
    using t e age_entries_facts(4)[OF refl table_okD(3)[OF ml_okD(1)[OF ok]], where a = e and delta = ?d and ml = ml]
    by (simp add: mac_learning_set_idle_time_def Let_def is_static_def)
  ultimately show ?thesis by (simp add: is_static_def)
qed

lemma mac_create_inv: "ml_inv (mac_learning_create t random mem)"
proof -
  have "heap_abs (heap_init, m) = Map.empty" for m
    by (simp add: heap_abs_def heap_nodes_def heap_init_def fun_eq_iff)
  then show ?thesis
    using hmap_init_wf heap_inv_init normalize_bounds[of t]
    by (simp add: ml_inv_def ml_ok_def table_ok_def ports_ok_def keyed_def mac_learning_create_def
        mac_learning_clear_statistics_def hmap_count_def MAC_DEFAULT_MAX_def) (simp add: hmap_init_def)
qed

subsection \<open>Sequences of calls\<close>

text \<open>
  The calls, each with the time at which it runs.  \<open>mac_learning_update\<close> takes the lock twice, and another
  thread may run in between: besides the whole call, its two critical sections are calls of their own, so
  that every interleaving of such threads is a sequence.
\<close>

datatype mac_op =
    Mac_Check eth_addr int bool bool addr
  | Mac_Update_Table eth_addr int bool bool addr
  | Mac_Update eth_addr int bool bool "addr option"
  | Mac_Lookup eth_addr uint16_t
  | Mac_Add_Static eth_addr uint16_t addr
  | Mac_Del_Static eth_addr uint16_t
  | Mac_Flush
  | Mac_Run
  | Mac_Set_Idle_Time uint32_t
  | Mac_Set_Max_Entries nat
  | Mac_Set_Flood_Vlans "bool list option"
  | Mac_Clear_Statistics

fun mac_step :: "int \<times> mac_op \<Rightarrow> mac_learning \<Rightarrow> mac_learning option" where
  "mac_step (now, Mac_Check src vlan g b q) ml =
     map_option (\<lambda>_. ml) (is_mac_learning_update_needed ml src vlan g b (Some q) now)"
| "mac_step (now, Mac_Update_Table src vlan g b q) ml =
     map_option snd (update_learning_table' ml src vlan g b (Some q) now)"
| "mac_step (now, Mac_Update src vlan g b port) ml = map_option snd (mac_learning_update ml src vlan g b port now)"
| "mac_step (now, Mac_Lookup dst vlan) ml = map_option (\<lambda>_. ml) (mac_learning_lookup ml dst vlan)"
| "mac_step (now, Mac_Add_Static mac vlan q) ml =
     map_option snd (mac_learning_add_static_entry ml mac vlan (Some q) now)"
| "mac_step (now, Mac_Del_Static mac vlan) ml = map_option snd (mac_learning_del_static_entry ml mac vlan now)"
| "mac_step (now, Mac_Flush) ml = mac_learning_flush ml"
| "mac_step (now, Mac_Run) ml = map_option snd (mac_learning_run ml now)"
| "mac_step (now, Mac_Set_Idle_Time t) ml = Some (mac_learning_set_idle_time ml t)"
| "mac_step (now, Mac_Set_Max_Entries n) ml = Some (mac_learning_set_max_entries ml n)"
| "mac_step (now, Mac_Set_Flood_Vlans bitmap) ml = Some (snd (mac_learning_set_flood_vlans ml bitmap))"
| "mac_step (now, Mac_Clear_Statistics) ml = Some (mac_learning_clear_statistics ml)"

fun mac_op_ok :: "int \<times> mac_op \<Rightarrow> bool" where
  "mac_op_ok (now, opn) \<longleftrightarrow> TIME_MIN \<le> now"

lemma update_table_inv:
  assumes "ml_inv ml" "TIME_MIN \<le> now"
  shows "\<exists>r ml'. update_learning_table' ml src vlan g b (Some q) now = Some (r, ml') \<and> ml_inv ml'"
  using update_table_ok[OF assms, of src vlan g b q] assms(1)
  by (cases "mac_learning_may_learn ml src (of_int vlan)") (auto simp: update_learning_table'_def)

lemma mac_step_inv:
  assumes inv: "ml_inv ml" and now: "TIME_MIN \<le> now"
  shows "\<exists>ml'. mac_step (now, opn) ml = Some ml' \<and> ml_inv ml'"
proof (cases opn)
  case (Mac_Check src vlan g b q)
  then show ?thesis using needed_total[OF inv, of src vlan g b "Some q" now] inv by auto
next
  case (Mac_Update_Table src vlan g b q)
  then show ?thesis using update_table_inv[OF assms, of src vlan g b q] by auto
next
  case (Mac_Update src vlan g b port)
  then show ?thesis using update_ok[OF assms, of src vlan g b port] by auto
next
  case (Mac_Lookup dst vlan)
  then show ?thesis using inv by (simp add: lookup_total[OF inv])
next
  case (Mac_Add_Static mac vlan q)
  then show ?thesis using add_static_ok[OF inv, of mac vlan q now] by (auto simp: learned_def)
next
  case (Mac_Del_Static mac vlan)
  then show ?thesis using del_static_ok[OF inv, of mac vlan now] by auto
next
  case Mac_Flush
  then show ?thesis using flush_ok[OF inv] by auto
next
  case Mac_Run
  then show ?thesis using run_ok[OF inv, of now] by auto
next
  case (Mac_Set_Idle_Time t)
  then show ?thesis using set_idle_time_inv[OF inv] by simp
next
  case (Mac_Set_Max_Entries n)
  then show ?thesis using inv by (simp add: mac_learning_set_max_entries_def ml_inv_def ml_ok_def)
next
  case (Mac_Set_Flood_Vlans bitmap)
  then show ?thesis using inv by (simp add: mac_learning_set_flood_vlans_def ml_inv_def)
next
  case Mac_Clear_Statistics
  then show ?thesis using inv by (simp add: mac_learning_clear_statistics_def ml_inv_def ml_ok_def)
qed

interpretation mac_calls: op_system mac_step mac_op_ok ml_inv
proof unfold_locales
  fix s opn
  show "ml_inv s \<Longrightarrow> mac_op_ok opn \<Longrightarrow> \<exists>s'. mac_step opn s = Some s' \<and> ml_inv s'"
    using mac_step_inv by (cases opn) auto
qed

lemma find_hd_filter: "filter P xs \<noteq> [] \<Longrightarrow> List.find P xs = Some (hd (filter P xs))"
  by (induction xs) auto

text \<open>A table that has learned three addresses, two of them on one port, the third one static.\<close>

definition mac_mem0 :: mac_learning where
  "mac_mem0 = \<lparr>ml_table = (hmap_init, \<lambda>_. 0), ml_lrus = [], ml_secret = 0, ml_flood_vlans = None, ml_idle_time = 0,
     ml_max_entries = 0, ml_static_entries = 0, ml_need_revalidate = False, ml_total_learned = 0, ml_total_expired = 0,
     ml_total_evicted = 0, ml_total_moved = 0, ml_ports_by_ptr = (hmap_init, \<lambda>_. 0),
     ml_ports_by_usage = (heap_init, \<lambda>_. \<lparr>hn_idx = 0, hn_priority = 0\<rparr>),
     ml_entries = \<lambda>_. \<lparr>me_expires = 0, me_grat_arp_lock = 0, me_mac = [], me_vlan = 0, me_mlport = None\<rparr>,
     ml_ports = \<lambda>_. \<lparr>mp_port = 0, mp_port_lrus = []\<rparr>, ml_next = 100\<rparr>"

definition mac_sample_ops :: "(int \<times> mac_op) list" where
  "mac_sample_ops = [(50, Mac_Update [0, 1, 2, 3, 4, 5] 7 False False (Some 11)),
     (51, Mac_Update [0, 1, 2, 3, 4, 6] 7 False False (Some 11)), (52, Mac_Add_Static [0, 1, 2, 3, 4, 7] 7 12)]"

lemma mac_sample_run:
  "\<exists>ml. run_ops mac_step mac_sample_ops (mac_learning_create 300 3 mac_mem0) = Some ml \<and> ml_inv ml \<and> ml_lrus ml \<noteq> []"
proof -
  let ?ops = "take 2 mac_sample_ops" and ?k = "([0, 1, 2, 3, 4, 7], 7) :: eth_addr \<times> uint16_t"
  have ops: "mac_sample_ops = ?ops @ [(52, Mac_Add_Static (fst ?k) (snd ?k) 12)]" "list_all mac_op_ok ?ops"
    by (simp_all add: mac_sample_ops_def TIME_MIN_def)
  obtain ml where ml: "run_ops mac_step ?ops (mac_learning_create 300 3 mac_mem0) = Some ml" "ml_inv ml"
    using mac_calls.run_inv[OF mac_create_inv ops(2)] by blast
  obtain X ml' where m: "mac_learning_add_static_entry ml (fst ?k) (snd ?k) (Some 12) 52 = Some (True, ml')" "learned X ?k 12 ml ml'"
    using add_static_ok[OF ml(2), of "fst ?k" "snd ?k" 12 52] by auto
  then have "ml_inv ml'" "fdb ml' ?k = Some 12" by (simp_all add: learned_def)
  then have "ml_lrus ml' \<noteq> []" using fdb_Some_iff[of ml' ?k 12] by (auto simp: ml_inv_def)
  then show ?thesis using \<open>ml_inv ml'\<close> m(1) ml(1) by (subst ops(1)) (simp add: run_ops_append)
qed

subsection \<open>Properties\<close>

text \<open>
  C37: From a new table, every sequence of calls returns, with any interleaving of the critical sections of
  concurrent updates: no assertion fails, no list runs out and the heap is never asked for the maximum of an
  empty heap.  The table then satisfies its invariant: the hash map and the list of recent use hold the same
  entries, every entry has a port, the heap orders the ports by their numbers of entries, and there are at
  most 1,000,000 entries.
\<close>

theorem mac_learning_calls_safe:
  assumes "list_all mac_op_ok ops"
  shows "\<exists>ml. run_ops mac_step ops (mac_learning_create t random mem) = Some ml \<and> ml_inv ml"
  by (rule mac_calls.run_inv[OF mac_create_inv assms])

theorem mac_learning_calls_safe_witness:
  "list_all mac_op_ok mac_sample_ops \<and>
   (\<exists>ml. run_ops mac_step mac_sample_ops (mac_learning_create 300 3 mac_mem0) = Some ml \<and> ml_inv ml)"
proof -
  have ops: "list_all mac_op_ok mac_sample_ops" by code_simp
  then show ?thesis using mac_learning_calls_safe[OF ops, of 300 3 mac_mem0] by simp
qed

text \<open>
  C38: A packet from a learnable address on a port teaches the table that port, unless the entry is static
  or locked by a gratuitous ARP: a lookup of the address then gives the port, and the call returns whether
  that is news.  Every other address keeps its port, save at most one that is evicted, and none is evicted
  while there is room.
\<close>

theorem mac_learning_update_learns:
  assumes inv: "ml_inv ml" and now: "TIME_MIN \<le> now"
    and may: "mac_learning_may_learn ml src (of_int vlan)"
    and lock: "\<not> arp_locked ml src (of_int vlan) g b now"
    and dyn: "\<And>e. mac_entry_lookup ml src (of_int vlan) = Some e \<Longrightarrow> mac_entry_age ml e now \<noteq> MAC_ENTRY_AGE_STATIC_ENTRY"
  shows "\<exists>X ml'. mac_learning_update ml src vlan g b (Some q) now = Some (fdb ml (src, of_int vlan) \<noteq> Some q, ml') \<and>
    learned X (src, of_int vlan) q ml ml'"
proof -
  obtain r where r: "is_mac_learning_update_needed ml src vlan g b (Some q) now = Some r" using needed_total[OF inv] by blast
  show ?thesis
  proof (cases r)
    case True
    then show ?thesis using update_table_ok[OF inv now may, of g b q] lock r by (auto simp: mac_learning_update_def)
  next
    case False
    then have "fdb ml (src, of_int vlan) = Some q" using not_needed[OF inv _ may lock dyn] r by simp
    then show ?thesis using learned_same[OF inv] r False by (auto simp: mac_learning_update_def)
  qed
qed

theorem mac_learning_update_learns_witness:
  "\<exists>X ml'. mac_learning_update (mac_learning_create 300 3 mac_mem0) [0, 1, 2, 3, 4, 5] 7 False False (Some 11) 50 = Some (True, ml') \<and>
     learned X ([0, 1, 2, 3, 4, 5], 7) 11 (mac_learning_create 300 3 mac_mem0) ml'"
proof -
  let ?ml = "mac_learning_create 300 3 mac_mem0" and ?a = "[0, 1, 2, 3, 4, 5] :: eth_addr"
  have l: "mac_entry_lookup ?ml ?a 7 = None" by code_simp
  have "mac_learning_may_learn ?ml ?a (of_int 7)" by code_simp
  moreover have "\<not> arp_locked ?ml ?a (of_int 7) False False 50" by (simp add: arp_locked_def)
  moreover have "fdb ?ml (?a, of_int 7) \<noteq> Some 11" using l by (simp add: fdb_def)
  ultimately show ?thesis
    using mac_learning_update_learns[OF mac_create_inv, of 50 300 3 mac_mem0 ?a 7 False False 11] l by (simp add: TIME_MIN_def)
qed

text \<open>
  C39: The eviction is fair: it removes one entry, the least recently used one of its port, no port has more
  entries than that port, and the other entries stay.
\<close>

theorem mac_eviction_fair:
  assumes inv: "ml_inv ml" and some: "ml_lrus ml \<noteq> []"
  shows "\<exists>ml' e q. evict_mac_entry_fairly ml = Some ml' \<and> ml_inv ml' \<and> ml_without {e} ml ml' \<and>
    find (\<lambda>x. mac_entry_get_port ml x = Some q) (ml_lrus ml) = Some e \<and>
    (\<forall>q'. length (filter (\<lambda>x. mac_entry_get_port ml x = Some q') (ml_lrus ml)) \<le>
          length (filter (\<lambda>x. mac_entry_get_port ml x = Some q) (ml_lrus ml)))"
proof -
  note ok = inv[unfolded ml_inv_def, THEN conjunct1]
  note po = ports_okD[OF ml_okD(2)[OF ok]]
  let ?f = "\<lambda>p x. me_mlport (ml_entries ml x) = Some p" and ?g = "\<lambda>q x. mac_entry_get_port ml x = Some q"
  obtain a where a: "a \<in> set (ml_lrus ml)" "me_mlport (ml_entries ml a) \<noteq> None"
    using some inv by (cases "ml_lrus ml") (auto simp: ml_inv_def)
  from evict_ok[OF ok a] obtain ml' e p where m: "evict_mac_entry_fairly ml = Some ml'" "ml_ok ml'" "ml_without {e} ml ml'"
    "filter (?f p) (ml_lrus ml) \<noteq> []" "hd (filter (?f p) (ml_lrus ml)) = e"
    "\<And>q. length (filter (?f q) (ml_lrus ml)) \<le> length (filter (?f p) (ml_lrus ml))" by blast
  have inj: "r = s" if "r \<in> hmap_nodes (ml_ports_by_ptr ml)" "s \<in> hmap_nodes (ml_ports_by_ptr ml)"
    "mp_port (ml_ports ml r) = mp_port (ml_ports ml s)" for r s
    using po(2) that by (auto simp: keyed_def inj_on_def)
  have fg: "filter (?g (mp_port (ml_ports ml r))) (ml_lrus ml) = filter (?f r) (ml_lrus ml)"
    if "r \<in> hmap_nodes (ml_ports_by_ptr ml)" for r
    using that inj po(7) by (intro filter_cong) (auto simp: mac_entry_get_port_def split: option.splits)
  obtain x where "x \<in> set (ml_lrus ml)" "?f p x" using m(4) by (auto simp: filter_empty_conv)
  then have p: "p \<in> hmap_nodes (ml_ports_by_ptr ml)" by (rule po(7))
  have "length (filter (?g q') (ml_lrus ml)) \<le> length (filter (?f p) (ml_lrus ml))" for q'
  proof (cases "\<exists>x \<in> set (ml_lrus ml). ?g q' x")
    case True
    then obtain y r where "y \<in> set (ml_lrus ml)" "?f r y" "mp_port (ml_ports ml r) = q'"
      by (auto simp: mac_entry_get_port_def split: option.splits)
    then show ?thesis using fg[of r] po(7)[of y r] m(6)[of r] by simp
  next
    case False
    then have "filter (?g q') (ml_lrus ml) = []" by (auto simp: filter_empty_conv)
    then show ?thesis by simp
  qed
  moreover have "find (?g (mp_port (ml_ports ml p))) (ml_lrus ml) = Some e"
    using find_hd_filter[of "?g (mp_port (ml_ports ml p))" "ml_lrus ml"] m(4,5) fg[OF p] by simp
  ultimately show ?thesis using m(1,3) ml_inv_without[OF inv m(2,3)] unfolding fg[OF p, symmetric] by blast
qed

theorem mac_eviction_fair_witness:
  "\<exists>ml ml' e q. run_ops mac_step mac_sample_ops (mac_learning_create 300 3 mac_mem0) = Some ml \<and>
     evict_mac_entry_fairly ml = Some ml' \<and> ml_without {e} ml ml' \<and>
     find (\<lambda>x. mac_entry_get_port ml x = Some q) (ml_lrus ml) = Some e"
proof -
  obtain ml where ml: "run_ops mac_step mac_sample_ops (mac_learning_create 300 3 mac_mem0) = Some ml" "ml_inv ml" "ml_lrus ml \<noteq> []"
    using mac_sample_run by blast
  from mac_eviction_fair[OF ml(2,3)] show ?thesis using ml(1) by blast
qed

text \<open>
  C40: Flushing forgets exactly the dynamic entries.  Ageing forgets dynamic entries only, and only those
  whose time is over unless the table is overfull; when it is done, the least recently used dynamic entry,
  if there is one, has time left and the table is not overfull.  Every other address keeps its port.
\<close>

theorem mac_ageing_keeps_static:
  assumes inv: "ml_inv ml"
  shows "\<exists>ml1 X r ml2.
    mac_learning_flush ml = Some ml1 \<and> ml_inv ml1 \<and>
    (\<forall>k. fdb ml1 k = (if k \<in> mac_key (ml_entries ml) ` {e \<in> set (ml_lrus ml). \<not> is_static ml e} then None else fdb ml k)) \<and>
    mac_learning_run ml now = Some (r, ml2) \<and> ml_inv ml2 \<and> aged X ml now ml2 \<and>
    (\<forall>k. fdb ml2 k = (if k \<in> mac_key (ml_entries ml) ` X then None else fdb ml k))"
proof -
  obtain ml1 where 1: "mac_learning_flush ml = Some ml1" "ml_inv ml1" "ml_without {e \<in> set (ml_lrus ml). \<not> is_static ml e} ml ml1"
    using flush_ok[OF inv] by blast
  obtain X r ml2 where 2: "mac_learning_run ml now = Some (r, ml2)" "ml_inv ml2" "aged X ml now ml2"
    using run_ok[OF inv, of now] by blast
  then have "ml_without X ml ml2" by (simp add: aged_def)
  from fdb_without[OF inv 1(2,3)] fdb_without[OF inv 2(2) this] show ?thesis using 1(1,2) 2 by blast
qed

theorem mac_ageing_keeps_static_witness:
  "\<exists>ml ml1 X r ml2. run_ops mac_step mac_sample_ops (mac_learning_create 300 3 mac_mem0) = Some ml \<and>
     mac_learning_flush ml = Some ml1 \<and> ml_inv ml1 \<and> mac_learning_run ml 400 = Some (r, ml2) \<and> aged X ml 400 ml2"
proof -
  obtain ml where ml: "run_ops mac_step mac_sample_ops (mac_learning_create 300 3 mac_mem0) = Some ml" "ml_inv ml"
    using mac_sample_run by blast
  from mac_ageing_keeps_static[OF ml(2), of 400] show ?thesis using ml(1) by blast
qed

end
