(* ===== verification/Spec2Isabelle.thy ===== *)
theory Spec2Isabelle
  imports Byte_Queue Reconnect_Fsm Stp_Props Dt_Props Conntrack_Props Mac_Props
begin

text \<open>
  \<^bold>\<open>Open vSwitch: a verification library.\<close>

  Open vSwitch is a multilayer switch: a userspace library (\<open>lib/\<close>), the OpenFlow switch built on it
  (\<open>ofproto/\<close>), a switch daemon (\<open>vswitchd/\<close>) configured from a database (\<open>ovsdb/\<close>), tools, and a Windows
  datapath.  This repository adds a decision tree classifier (\<open>lib/dt-classifier.c\<close>).  The library
  below models components of \<open>lib/\<close> as functions on explicit states and proves what their clients
  rely on.

  \<^bold>\<open>Theories.\<close>

  \<^item> \<open>Ovs_Prelude\<close>: C integers (words for unsigned types; \<open>int\<close> with \<open>s32\<close> and \<open>c_div\<close> for \<open>int\<close>), failed
    assertions as \<open>None\<close>, bytes in network order, and the locales \<open>op_system\<close> and \<open>op_refinement\<close> for
    sequences of calls that keep an invariant and refine a specification.

  \<^item> \<open>Heap_Queue\<close> (\<open>lib/heap.c\<close>, \<open>lib/heap.h\<close>): the array of node pointers is a list of addresses, the
    intrusive nodes are a store from addresses to index and priority.  The locale \<open>node_queue\<close> is the
    contract of a priority queue; its interpretation \<open>hq\<close> on the heap gives the properties: every
    reachable heap is ordered and its indices agree with the array, every operation refines an abstract
    map from nodes to priorities, draining is in priority order, and rebuilding repairs raw updates.

  \<^item> \<open>Byte_Queue\<close> (\<open>lib/byteq.c\<close>): the buffer and the free-running 32-bit head and tail.  \<open>read(2)\<close> and
    \<open>write(2)\<close> are parameters, with their documented results as hypotheses.  The locale \<open>bounded_fifo\<close> and
    its interpretation \<open>bq\<close> give first-in first-out delivery across wrap-around of the counters.  The
    loops over a descriptor are partial functions, whose value is \<open>None\<close> if they do not return; the
    theorems show that they return.

  \<^item> \<open>Reconnect_Fsm\<close> (\<open>lib/reconnect.c\<close>): the state machine that decides when a client connects, probes and
    backs off.  Times are \<open>long long int\<close>, counters wrap.  The interpretation \<open>fsm\<close> of the prelude's
    locales gives: assertions hold and back-offs stay bounded after any calls; being connected is a
    function of the calls alone; back-offs double up to the maximum; the timeout is exact; idle
    connections are probed and dropped; tries and connected time are accounted for.

  \<^item> \<open>Stp_Bridge\<close> and \<open>Stp_Props\<close> (\<open>lib/stp.c\<close>, \<open>lib/stp.h\<close>): a bridge of the spanning tree protocol with
    its ports, timers, frames and management interface.  \<open>stp_op\<close> in \<open>Stp_Props\<close> collects the calls of
    the interface and the interpretation \<open>bridge\<close> their invariant.  Shown: only root and designated ports
    leave the blocking state, root selection is optimal, redundant ports are blocked, a better root is
    adopted, frames survive a round trip, port changes are reported once, timers keep the standard's
    limits.  The loop over ports is a recursion on the port number.  The
    number of rounds in the theorems on draining (queued nodes, changed ports) is shown to be enough.

  \<^item> \<open>Dt_Node\<close>, \<open>Dt_Build\<close>, \<open>Dt_Classifier\<close>, \<open>Dt_Props\<close> (\<open>lib/dt-classifier.c\<close>): trees whose nodes carry
    addresses, so that path copying, sharing and freeing can be expressed.  Uninitialised bytes that the
    code reads are parameters \<open>junk\<close>, over which the properties quantify.  The locale \<open>priority_store\<close> is
    the contract of both insertions, interpreted as \<open>simple_store\<close> and \<open>cow_store\<close>.  Shown: insertion sorts
    by priority, adds exactly one rule and copies exactly one path; removal undoes it; building loses no
    rule and terminates; statistics are exact; lookup returns the best visible rule of the leaf it
    reaches.  The section on limits proves where the code falls short: lookup does not follow the
    partition of the build, so the leaf reached need not be the leaf of the matching rule; an insertion
    into an emptied leaf writes out of bounds; destruction of the old tree frees nodes in use.

  \<^item> \<open>Conntrack_Tp\<close>, \<open>Conntrack_Tcp\<close>, \<open>Conntrack_Proto\<close>, \<open>Conntrack_Props\<close> (\<open>lib/conntrack-tp.c\<close>,
    \<open>lib/conntrack-tcp.c\<close>, \<open>lib/conntrack-icmp.c\<close>, \<open>lib/conntrack-other.c\<close> and the dispatch in
    \<open>lib/conntrack.c\<close>): timeout policies, the tracking of the two ends of a TCP connection with 32-bit
    sequence numbers, and the other protocols.  A read past the end of a packet is \<open>None\<close>.  The long
    function \<open>tcp_conn_update\<close> is split along its paragraphs.  The locale \<open>l4_module\<close> is the contract of a
    protocol module, interpreted on all three and on the dispatch.  Shown: an established connection is
    changed only from inside the window, states advance, the handshake establishes, every connection
    expires, and policies are merged and deleted as documented.

  \<^item> \<open>Hash_Map\<close> (\<open>lib/hmap.c\<close>, \<open>include/openvswitch/hmap.h\<close>, \<open>lib/hash.h\<close>): buckets as lists of the addresses
    of their nodes, with the hash values that the nodes store.  A pointer to a node is the rest of its
    bucket.  Shown: the masks that \<open>calc_mask\<close> computes are masks, resizing keeps every node, all calls
    refine a finite map from nodes to hash values (interpretation \<open>hmap_calls\<close>), searches and iterations
    are exact.  The steps that the iteration is given are any number from the number of nodes on.  The
    locale \<open>node_map\<close>, interpreted as \<open>hm\<close>, is what clients rely on.

  \<^item> \<open>Mac_Learning\<close>, \<open>Mac_Props\<close> (\<open>lib/mac-learning.c\<close>): the table of learned addresses, a client of two hash
    maps and of the heap through \<open>hm\<close> and \<open>hq\<close>.  The invariant \<open>ml_inv\<close> ties the structures together;
    the interpretation \<open>mac_calls\<close> shows that all calls keep it, the critical sections of an update taken
    singly.  Shown: no assertion fails, packets teach ports, eviction is fair, flushing and ageing return
    and keep static entries.

  \<^bold>\<open>Conventions.\<close>  A structure is a record with prefixed members, a pointer an address or an index, an
  allocator a counter of unused addresses.  \<open>None\<close> as the result of an operation is a failed assertion or
  undefined behaviour; the theorems state that calls return \<open>Some\<close>.  The current time is a parameter.  Log messages are left out, except in
  the state machine of \<open>Reconnect_Fsm\<close>, where they are a trace.  Locks and atomics are left out: the
  operations are sequential, as their clients serialise writers.

  \<^bold>\<open>Not modelled.\<close>  Code that is I/O, threads or text output in the modelled files (\<open>heap_destroy\<close>,
  \<open>reconnect_destroy\<close>, \<open>stp_print_details\<close>, \<open>dt_print_tree_info\<close>); reference counts of the address table
  (\<open>mac_learning_ref\<close>, \<open>mac_learning_unref\<close>); random and positional access to a hash map; the hash functions
  for processors with CRC instructions; the concurrent table of connections of \<open>lib/conntrack.c\<close>; \<open>dt_build_tree\<close>, the abandoned list
  version of the build, which corrupts the lists it iterates over; re-entrance of the \<open>send_bpdu\<close> callback
  of a bridge.  The rest of the library, the switch, the database and the tools are not modelled yet.
  Planned extensions, in order: LACP, BFD and the rapid spanning tree protocol, JSON, the tuple space
  search classifier, and the Raft rules of the database.
\<close>

end
